(* ===== verification/Prelude.thy ===== *)
theory Prelude
  imports Main "HOL-Library.Word" "HOL-Library.Code_Target_Nat"
begin

text \<open>
  Shared vocabulary of the development.

  A Rust \<open>u8\<close> is an Isabelle \<open>char\<close>: both are exactly 256 values, \<open>of_char\<close> reads the
  number and \<open>char_of\<close> builds the byte from it, so byte string literals of the source
  (\<open>b"from"\<close>) are literals here. \<open>Vec<u8>\<close>, \<open>&[u8]\<close>, \<open>String\<close> and \<open>&str\<close> are all byte
  lists; where the source needs UTF-8 validity it is checked explicitly (theory Rust_Std).
  \<open>usize\<close> is \<open>nat\<close> with its 64-bit bound written out where the source saturates or
  checks; \<open>u32\<close> is \<open>32 word\<close>. \<open>Result<T, E>\<close> is the sum \<open>E + T\<close> (\<open>Inl\<close> the error).

  This theory holds: the byte classes and case folding of the standard library's \<open>u8\<close>, the
  list operations behind \<open>split\<close>, \<open>join\<close> and \<open>position\<close>, saturating and checked \<open>usize\<close>
  addition, the interface of anything that consumes a stream of bytes chunk by chunk, and
  the lemma collections the component theories use.
\<close>

named_theorems byte_simps \<open>byte classes unfolded\<close>
named_theorems std_simps \<open>evaluation of the standard library's functions\<close>

section \<open>Types\<close>

type_synonym byte = char
type_synonym bytes = "char list"
type_synonym u32 = "32 word"

section \<open>Bytes of the source\<close>

abbreviation CR :: byte where "CR \<equiv> CHR 0x0D"
abbreviation LF :: byte where "LF \<equiv> CHR 0x0A"
abbreviation TAB :: byte where "TAB \<equiv> CHR 0x09"
abbreviation SP :: byte where "SP \<equiv> CHR '' ''"
abbreviation NUL :: byte where "NUL \<equiv> CHR 0x00"
abbreviation DQUOTE :: byte where "DQUOTE \<equiv> CHR 0x22"
abbreviation BACKSLASH :: byte where "BACKSLASH \<equiv> CHR 0x5C"
abbreviation CRLF :: bytes where "CRLF \<equiv> [CR, LF]"

definition code :: "byte \<Rightarrow> nat" where
  "code b = of_char b"

definition is_ascii :: "byte \<Rightarrow> bool" where
  "is_ascii b \<longleftrightarrow> code b < 128"

definition is_ascii_digit :: "byte \<Rightarrow> bool" where
  "is_ascii_digit b \<longleftrightarrow> 48 \<le> code b \<and> code b \<le> 57"

definition is_ascii_upper :: "byte \<Rightarrow> bool" where
  "is_ascii_upper b \<longleftrightarrow> 65 \<le> code b \<and> code b \<le> 90"

definition is_ascii_lower :: "byte \<Rightarrow> bool" where
  "is_ascii_lower b \<longleftrightarrow> 97 \<le> code b \<and> code b \<le> 122"

definition is_ascii_alphanumeric :: "byte \<Rightarrow> bool" where
  "is_ascii_alphanumeric b \<longleftrightarrow> is_ascii_digit b \<or> is_ascii_upper b \<or> is_ascii_lower b"

definition is_ascii_control :: "byte \<Rightarrow> bool" where
  "is_ascii_control b \<longleftrightarrow> code b < 32 \<or> code b = 127"

definition is_ascii_whitespace :: "byte \<Rightarrow> bool" where
  "is_ascii_whitespace b \<longleftrightarrow> b = SP \<or> b = TAB \<or> b = LF \<or> b = CHR 0x0C \<or> b = CR"

definition to_ascii_lowercase :: "byte \<Rightarrow> byte" where
  "to_ascii_lowercase b = (if is_ascii_upper b then char_of (code b + 32) else b)"

abbreviation lowercase :: "bytes \<Rightarrow> bytes" where
  "lowercase s \<equiv> map to_ascii_lowercase s"

definition eq_ignore_ascii_case :: "bytes \<Rightarrow> bytes \<Rightarrow> bool" where
  "eq_ignore_ascii_case a b \<longleftrightarrow> lowercase a = lowercase b"

lemmas byte_class_defs [byte_simps] =
  code_def is_ascii_def is_ascii_digit_def is_ascii_upper_def is_ascii_lower_def
  is_ascii_alphanumeric_def is_ascii_control_def is_ascii_whitespace_def

lemma code_bound [simp]: "code b < 256"
  using of_char_mod_256 [of b, where 'a = nat] mod_less_divisor [of 256 "of_char b :: nat"]
  by (simp add: code_def)

lemma code_inject [simp]: "code a = code b \<longleftrightarrow> a = b"
  by (simp add: code_def)

lemma code_char_of [simp]: "n < 256 \<Longrightarrow> code (char_of n) = n"
  by (simp add: code_def)

lemma char_of_code [simp]: "char_of (code b) = b"
  by (simp add: code_def)

lemma code_to_ascii_lowercase:
  "code (to_ascii_lowercase b) = (if is_ascii_upper b then code b + 32 else code b)"
  by (simp add: to_ascii_lowercase_def is_ascii_upper_def)

lemma not_upper_to_ascii_lowercase [simp]: "\<not> is_ascii_upper (to_ascii_lowercase b)"
  by (auto simp: is_ascii_upper_def code_to_ascii_lowercase)

lemma to_ascii_lowercase_id: "\<not> is_ascii_upper b \<Longrightarrow> to_ascii_lowercase b = b"
  by (simp add: to_ascii_lowercase_def)

lemma to_ascii_lowercase_idem [simp]:
  "to_ascii_lowercase (to_ascii_lowercase b) = to_ascii_lowercase b"
  by (rule to_ascii_lowercase_id) simp

lemma lowercase_idem [simp]: "lowercase (lowercase s) = lowercase s"
  by simp

lemma alphanumeric_to_ascii_lowercase [simp]:
  "is_ascii_alphanumeric (to_ascii_lowercase b) = is_ascii_alphanumeric b"
  by (auto simp: is_ascii_alphanumeric_def is_ascii_digit_def is_ascii_lower_def
      is_ascii_upper_def code_to_ascii_lowercase)

text \<open>A byte outside the letters is its own lower case, and only it has that lower case.\<close>

lemma to_ascii_lowercase_eq_iff:
  assumes "\<not> is_ascii_alphanumeric c"
  shows "to_ascii_lowercase b = c \<longleftrightarrow> b = c"
proof (cases "is_ascii_upper b")
  case True
  then have "is_ascii_alphanumeric b"
    by (simp add: is_ascii_alphanumeric_def)
  then have "is_ascii_alphanumeric (to_ascii_lowercase b)"
    by simp
  with assms \<open>is_ascii_alphanumeric b\<close> show ?thesis
    by auto
qed (simp add: to_ascii_lowercase_id)

lemma eq_ignore_ascii_case_refl [simp]: "eq_ignore_ascii_case a a"
  by (simp add: eq_ignore_ascii_case_def)

lemma eq_ignore_ascii_case_lower:
  "lowercase a = a \<Longrightarrow> lowercase b = b \<Longrightarrow> eq_ignore_ascii_case a b \<longleftrightarrow> a = b"
  by (simp add: eq_ignore_ascii_case_def)

section \<open>64-bit sizes\<close>

definition usize_max :: nat where
  "usize_max = 2 ^ 64 - 1"

definition saturating_add :: "nat \<Rightarrow> nat \<Rightarrow> nat" where
  "saturating_add a b = min usize_max (a + b)"

definition checked_add :: "nat \<Rightarrow> nat \<Rightarrow> nat option" where
  "checked_add a b = (if a + b \<le> usize_max then Some (a + b) else None)"

lemma saturating_add_exact [simp]: "a + b \<le> usize_max \<Longrightarrow> saturating_add a b = a + b"
  by (simp add: saturating_add_def)

lemma saturating_add_gt_iff:
  "m < usize_max \<Longrightarrow> m < saturating_add a b \<longleftrightarrow> m < a + b"
  by (auto simp: saturating_add_def)

section \<open>Lists\<close>

text \<open>\<open>iter().position(p)\<close> followed by \<open>unwrap_or(len)\<close>: the length of the prefix where
  \<open>p\<close> fails.\<close>

definition position_or_len :: "('a \<Rightarrow> bool) \<Rightarrow> 'a list \<Rightarrow> nat" where
  "position_or_len p xs = length (takeWhile (\<lambda>x. \<not> p x) xs)"

lemma take_position_or_len [simp]:
  "take (position_or_len p xs) xs = takeWhile (\<lambda>x. \<not> p x) xs"
  by (metis position_or_len_def takeWhile_eq_take)

lemma drop_position_or_len [simp]:
  "drop (position_or_len p xs) xs = dropWhile (\<lambda>x. \<not> p x) xs"
  by (metis position_or_len_def dropWhile_eq_drop)

lemma position_or_len_pos_iff:
  "0 < position_or_len p xs \<longleftrightarrow> xs \<noteq> [] \<and> \<not> p (hd xs)"
  by (cases xs) (auto simp: position_or_len_def)

text \<open>\<open>split\<close> at a separator: always at least one piece, the pieces hold no separator.\<close>

fun split_on :: "'a \<Rightarrow> 'a list \<Rightarrow> 'a list list" where
  "split_on c [] = [[]]"
| "split_on c (x # xs) =
     (if x = c then [] # split_on c xs
      else (case split_on c xs of p # ps \<Rightarrow> (x # p) # ps | [] \<Rightarrow> [[x]]))"

fun join :: "'a list \<Rightarrow> 'a list list \<Rightarrow> 'a list" where
  "join sep [] = []"
| "join sep [p] = p"
| "join sep (p # q # ps) = p @ sep @ join sep (q # ps)"

lemma join_Cons: "join sep (p # ps) = (if ps = [] then p else p @ sep @ join sep ps)"
  by (cases ps) simp_all

lemma split_on_not_Nil [simp]: "split_on c xs \<noteq> []"
  by (cases xs) (auto split: list.splits)

lemma join_split_on [simp]: "join [c] (split_on c xs) = xs"
  by (induction xs) (auto simp: join_Cons split: list.splits)

lemma split_on_no_sep [simp]: "c \<notin> set xs \<Longrightarrow> split_on c xs = [xs]"
  by (induction xs) auto

lemma split_on_append:
  "c \<notin> set xs \<Longrightarrow> split_on c (xs @ c # ys) = xs # split_on c ys"
  by (induction xs) auto

lemma split_on_join:
  "ps \<noteq> [] \<Longrightarrow> (\<And>p. p \<in> set ps \<Longrightarrow> c \<notin> set p) \<Longrightarrow> split_on c (join [c] ps) = ps"
proof (induction ps)
  case (Cons p ps)
  then show ?case
    by (cases "ps = []") (simp_all add: join_Cons split_on_append)
qed simp

lemma sep_notin_split_on: "p \<in> set (split_on c xs) \<Longrightarrow> c \<notin> set p"
  by (induction xs arbitrary: p) (fastforce split: if_splits list.splits)+

lemma set_split_on: "p \<in> set (split_on c xs) \<Longrightarrow> set p \<subseteq> set xs"
  by (induction xs arbitrary: p) (fastforce split: if_splits list.splits)+

lemma set_join_subset: "set (join sep ps) \<subseteq> set sep \<union> \<Union> (set ` set ps)"
  by (induction sep ps rule: join.induct) auto

lemma filter_eq_Cons_split:
  assumes "filter p xs = y # ys"
  obtains us vs where "xs = us @ y # vs" and "filter p us = []" and "filter p vs = ys"
  using filter_eq_ConsD [OF assms] by (auto simp: filter_empty_conv)

lemma concat_replicate_append: "concat (replicate n xs) @ xs = xs @ concat (replicate n xs)"
  by (induction n) auto

section \<open>The interface of a stream consumer\<close>

text \<open>
  A component that is fed bytes piece by piece and must not see the piece boundaries: the
  contract of the system library's incremental digest, which the body canonicaliser relies
  on, and of the body canonicaliser itself, which the milter relies on.
\<close>

locale stream_consumer =
  fixes feed :: "'s \<Rightarrow> 'a list \<Rightarrow> 's"
  assumes feed_Nil: "feed s [] = s"
    and feed_append: "feed (feed s xs) ys = feed s (xs @ ys)"
begin

lemma feed_chunks: "foldl feed s chunks = feed s (concat chunks)"
  by (induction chunks arbitrary: s) (simp_all add: feed_Nil feed_append)

lemma feed_funpow: "((\<lambda>s. feed s xs) ^^ n) s = feed s (concat (replicate n xs))"
  by (induction n) (simp_all add: feed_Nil feed_append concat_replicate_append)

lemma chunk_boundaries_invisible:
  "concat chunks = concat chunks' \<Longrightarrow> foldl feed s chunks = foldl feed s chunks'"
  by (simp add: feed_chunks)

end

interpretation append_stream: stream_consumer "(@)"
  by unfold_locales simp_all

end
