(* ===== verification/Openssl.thy ===== *)
theory Openssl
  imports Prelude
begin

text \<open>
  The system OpenSSL library as the program sees it. None of it is program code, so every
  function is a field of a record that the model's definitions take as an argument, and what
  the program relies on is stated as locales: digesting and signing do not see how their
  input is cut into pieces, and base64 output stays inside the base64 alphabet.

  The last section gives the canonical model of those laws: a digest or signing context that
  remembers the bytes it was fed, over an arbitrary digest function, RSA signing function and
  key predicate, with RFC 4648 base64. Every implementation that obeys the incremental laws
  agrees with such a model on all outputs.
\<close>

section \<open>The functions the program calls\<close>

text \<open>
  \<open>'h\<close> is a running SHA-256 context (\<open>openssl::sha::Sha256\<close>), \<open>'k\<close> a private key
  (\<open>PKey<Private>\<close>), \<open>'s\<close> an RSA-SHA256 signing context (\<open>Signer::new\<close> with
  \<open>MessageDigest::sha256()\<close>). Errors carry the text OpenSSL reports. \<open>rsa_size\<close> is
  \<open>key.rsa()\<close> followed by \<open>size()\<close>, in bytes; \<open>None\<close> for a key that is not RSA.
\<close>

record ('h, 'k, 's) openssl =
  sha_new :: 'h
  sha_update :: "'h \<Rightarrow> bytes \<Rightarrow> 'h"
  sha_finish :: "'h \<Rightarrow> bytes"
  encode_block :: "bytes \<Rightarrow> bytes"
  signer_new :: "'k \<Rightarrow> bytes + 's"
  signer_update :: "'s \<Rightarrow> bytes \<Rightarrow> bytes + 's"
  sign_to_vec :: "'s \<Rightarrow> bytes + bytes"
  private_key_from_pem :: "bytes \<Rightarrow> bytes + 'k"
  rsa_size :: "'k \<Rightarrow> nat option"

section \<open>What the program relies on\<close>

text \<open>The digest law is \<open>stream_consumer (sha_update ossl)\<close> of the prelude. A signing
  context is a stream consumer whose steps may fail.\<close>

locale fallible_consumer =
  fixes feed :: "'s \<Rightarrow> 'a list \<Rightarrow> 'e + 's"
  assumes feed_Nil: "feed s [] = Inr s"
    and feed_append: "feed s xs = Inr s' \<Longrightarrow> feed s' ys = feed s (xs @ ys)"

primrec feed_all :: "('s \<Rightarrow> 'a list \<Rightarrow> 'e + 's) \<Rightarrow> 's \<Rightarrow> 'a list list \<Rightarrow> 'e + 's" where
  "feed_all feed s [] = Inr s"
| "feed_all feed s (x # xs) = (case feed s x of Inl e \<Rightarrow> Inl e | Inr s' \<Rightarrow> feed_all feed s' xs)"

context fallible_consumer
begin

lemma feed_all_concat: "feed_all feed s xss = Inr s' \<Longrightarrow> feed s (concat xss) = Inr s'"
proof (induction xss arbitrary: s)
  case (Cons xs xss)
  then obtain t where t: "feed s xs = Inr t" "feed_all feed t xss = Inr s'"
    by (auto split: sum.splits)
  with Cons.IH show ?case
    by (simp add: feed_append [OF t(1), symmetric])
qed (simp add: feed_Nil)

end

definition base64_alphabet :: bytes where
  "base64_alphabet =
     ''ABCDEFGHIJKLMNOPQRSTUVWXYZabcdefghijklmnopqrstuvwxyz0123456789+/=''"

locale base64_encoding =
  fixes enc :: "bytes \<Rightarrow> bytes"
  assumes alphabet: "set (enc bs) \<subseteq> set base64_alphabet"
begin

lemma clean:
  assumes "b \<in> set (enc bs)"
  shows "b \<noteq> SP" and "b \<noteq> TAB" and "b \<noteq> CR" and "b \<noteq> LF" and "b \<noteq> CHR '';''"
    and "b \<noteq> NUL" and "is_ascii b" and "\<not> is_ascii_control b"
proof -
  have "b \<in> set base64_alphabet"
    using assms alphabet by blast
  then show "b \<noteq> SP" "b \<noteq> TAB" "b \<noteq> CR" "b \<noteq> LF" "b \<noteq> CHR '';''" "b \<noteq> NUL"
    "is_ascii b" "\<not> is_ascii_control b"
    by (auto simp: base64_alphabet_def byte_simps)
qed

end

section \<open>The canonical model\<close>

definition b64_digit :: "nat \<Rightarrow> byte" where
  "b64_digit n = base64_alphabet ! (n mod 64)"

fun rfc4648_base64 :: "bytes \<Rightarrow> bytes" where
  "rfc4648_base64 [] = []"
| "rfc4648_base64 [a] =
     [b64_digit (code a div 4), b64_digit ((code a mod 4) * 16), CHR ''='', CHR ''='']"
| "rfc4648_base64 [a, b] =
     [b64_digit (code a div 4), b64_digit ((code a mod 4) * 16 + code b div 16),
      b64_digit ((code b mod 16) * 4), CHR ''='']"
| "rfc4648_base64 (a # b # c # bs) =
     [b64_digit (code a div 4), b64_digit ((code a mod 4) * 16 + code b div 16),
      b64_digit ((code b mod 16) * 4 + code c div 64), b64_digit (code c mod 64)]
     @ rfc4648_base64 bs"

lemma b64_digit_in_alphabet [simp]: "b64_digit n \<in> set base64_alphabet"
proof -
  have "n mod 64 < length base64_alphabet"
    by (simp add: base64_alphabet_def less_Suc_eq_le less_imp_le_nat)
  then show ?thesis
    by (simp add: b64_digit_def)
qed

lemma pad_in_alphabet [simp]: "CHR ''='' \<in> set base64_alphabet"
  by (simp add: base64_alphabet_def)

lemma set_rfc4648_base64: "set (rfc4648_base64 bs) \<subseteq> set base64_alphabet"
  by (induction bs rule: rfc4648_base64.induct) auto

interpretation rfc4648: base64_encoding rfc4648_base64
  by unfold_locales (rule set_rfc4648_base64)

definition transcript_openssl ::
  "(bytes \<Rightarrow> bytes) \<Rightarrow> ('k \<Rightarrow> bytes \<Rightarrow> bytes + bytes) \<Rightarrow> (bytes \<Rightarrow> bytes + 'k) \<Rightarrow> ('k \<Rightarrow> nat option)
    \<Rightarrow> (bytes, 'k, 'k \<times> bytes) openssl" where
  "transcript_openssl digest rsa parse modulus =
     \<lparr>sha_new = [], sha_update = (@), sha_finish = digest,
      encode_block = rfc4648_base64,
      signer_new = (\<lambda>k. Inr (k, [])), signer_update = (\<lambda>(k, fed) bs. Inr (k, fed @ bs)),
      sign_to_vec = (\<lambda>(k, fed). rsa k fed),
      private_key_from_pem = parse, rsa_size = modulus\<rparr>"

interpretation transcript_digest: stream_consumer "sha_update (transcript_openssl H R P Z)"
  by unfold_locales (simp_all add: transcript_openssl_def)

interpretation transcript_signer: fallible_consumer "signer_update (transcript_openssl H R P Z)"
  by unfold_locales (auto simp: transcript_openssl_def split: prod.splits)

interpretation transcript_base64: base64_encoding "encode_block (transcript_openssl H R P Z)"
  by unfold_locales (simp add: transcript_openssl_def set_rfc4648_base64)

text \<open>A concrete instance: digests and signatures are the bytes themselves.\<close>

definition sample_openssl :: "(bytes, unit, unit \<times> bytes) openssl" where
  "sample_openssl = transcript_openssl (\<lambda>m. m) (\<lambda>k m. Inr m) (\<lambda>pem. Inr ()) (\<lambda>k. Some 256)"

lemma sample_openssl_laws:
  "stream_consumer (sha_update sample_openssl)" "fallible_consumer (signer_update sample_openssl)"
  "base64_encoding (encode_block sample_openssl)"
  unfolding sample_openssl_def
  by (rule transcript_digest.stream_consumer_axioms transcript_signer.fallible_consumer_axioms
      transcript_base64.base64_encoding_axioms)+

end
