(* ===== verification/Body.thy ===== *)
theory Body
  imports Openssl
begin

text \<open>
  The streaming body canonicaliser of src/dkim.rs (\<open>BodyCanonicalizer\<close>): its state and
  operations as the code has them, the byte-at-a-time reference routine of the unit tests,
  and RFC 6376 section 3.4.4 (relaxed body canonicalisation) as a function on whole bodies.

  The digest context is abstract. \<open>body_update\<close> is shown equal to a left fold of the
  reference step, which makes it a stream consumer itself; the digest it leaves is that of
  the RFC canonical form, whatever the chunks. The only bound is that of
  \<open>pending_empty_lines\<close>, a saturating \<open>usize\<close>.
\<close>

section \<open>The code\<close>

record 'h body_canonicalizer =
  hasher :: 'h
  pending_wsp :: bool
  pending_empty_lines :: nat
  line_has_content :: bool
  saw_cr :: bool

definition body_default :: "('h, 'k, 's) openssl \<Rightarrow> 'h body_canonicalizer" where
  "body_default ossl =
     \<lparr>hasher = sha_new ossl, pending_wsp = False, pending_empty_lines = 0,
      line_has_content = False, saw_cr = False\<rparr>"

definition emit_content ::
  "('h, 'k, 's) openssl \<Rightarrow> bytes \<Rightarrow> 'h body_canonicalizer \<Rightarrow> 'h body_canonicalizer" where
  "emit_content ossl content c =
     (let c = (if \<not> line_has_content c \<and> 0 < pending_empty_lines c
               then c\<lparr>hasher := ((\<lambda>h. sha_update ossl h CRLF) ^^ pending_empty_lines c) (hasher c),
                      pending_empty_lines := 0\<rparr>
               else c);
          c = (if pending_wsp c
               then c\<lparr>hasher := sha_update ossl (hasher c) [SP], pending_wsp := False\<rparr>
               else c)
      in c\<lparr>hasher := sha_update ossl (hasher c) content, line_has_content := True\<rparr>)"

definition end_line ::
  "('h, 'k, 's) openssl \<Rightarrow> 'h body_canonicalizer \<Rightarrow> 'h body_canonicalizer" where
  "end_line ossl c =
     (let c = c\<lparr>pending_wsp := False\<rparr>
      in if line_has_content c
         then c\<lparr>hasher := sha_update ossl (hasher c) CRLF, line_has_content := False\<rparr>
         else c\<lparr>pending_empty_lines := saturating_add (pending_empty_lines c) 1\<rparr>)"

definition is_wsp :: "byte \<Rightarrow> bool" where
  "is_wsp b \<longleftrightarrow> b = SP \<or> b = TAB"

definition is_special :: "byte \<Rightarrow> bool" where
  "is_special b \<longleftrightarrow> b = CR \<or> b = LF \<or> b = SP \<or> b = TAB"

function body_update ::
  "('h, 'k, 's) openssl \<Rightarrow> 'h body_canonicalizer \<Rightarrow> bytes \<Rightarrow> 'h body_canonicalizer" where
  "body_update ossl c [] = c"
| "body_update ossl c (b # rest) =
     (let data = b # rest;
          c' = (if saw_cr c then end_line ossl (c\<lparr>saw_cr := False\<rparr>) else c)
      in if saw_cr c \<and> b = LF then body_update ossl c' rest
         else
           let ordinary = position_or_len is_special data
           in if 0 < ordinary
              then body_update ossl (emit_content ossl (take ordinary data) c') (drop ordinary data)
              else if b = CR then body_update ossl (c'\<lparr>saw_cr := True\<rparr>) rest
              else if b = LF then body_update ossl (end_line ossl c') rest
              else
                let whitespace = position_or_len (\<lambda>x. \<not> is_wsp x) data
                in body_update ossl (c'\<lparr>pending_wsp := True\<rparr>) (drop whitespace data))"
  by pat_completeness auto
termination
  by (relation "measure (\<lambda>(ossl, c, data). length data)")
    (auto simp: position_or_len_pos_iff position_or_len_def is_wsp_def is_special_def
      intro: le_less_trans [OF length_dropWhile_le] split: if_splits)

declare body_update.simps(2) [simp del]

definition body_finish :: "('h, 'k, 's) openssl \<Rightarrow> 'h body_canonicalizer \<Rightarrow> bytes" where
  "body_finish ossl c =
     (let c = (if saw_cr c then end_line ossl c
               else if line_has_content c
               then c\<lparr>pending_wsp := False, hasher := sha_update ossl (hasher c) CRLF\<rparr>
               else c)
      in sha_finish ossl (hasher c))"


text \<open>The tests' reference routine: one byte at a time.\<close>

definition reference_step ::
  "('h, 'k, 's) openssl \<Rightarrow> 'h body_canonicalizer \<Rightarrow> byte \<Rightarrow> 'h body_canonicalizer" where
  "reference_step ossl c b =
     (let c' = (if saw_cr c then end_line ossl (c\<lparr>saw_cr := False\<rparr>) else c)
      in if saw_cr c \<and> b = LF then c'
         else if b = CR then c'\<lparr>saw_cr := True\<rparr>
         else if b = LF then end_line ossl c'
         else if b = SP \<or> b = TAB then c'\<lparr>pending_wsp := True\<rparr>
         else emit_content ossl [b] c')"

definition reference_body :: "('h, 'k, 's) openssl \<Rightarrow> bytes \<Rightarrow> bytes" where
  "reference_body ossl data =
     body_finish ossl (foldl (reference_step ossl) (body_default ossl) data)"

section \<open>The chunked routine is the reference routine\<close>

lemma saw_cr_end_line [simp]: "saw_cr (end_line ossl c) = saw_cr c"
  by (simp add: end_line_def Let_def)

lemma saw_cr_emit_content [simp]: "saw_cr (emit_content ossl xs c) = saw_cr c"
  by (simp add: emit_content_def Let_def)

lemma special_byte_simps [simp]:
  "is_special CR" "is_special LF" "\<not> is_wsp CR" "\<not> is_wsp LF"
  by (simp_all add: is_special_def is_wsp_def)

lemma is_wsp_imp: "is_wsp b \<Longrightarrow> is_special b \<and> b \<noteq> CR \<and> b \<noteq> LF"
  by (auto simp: is_special_def is_wsp_def)

text \<open>The loop body of \<open>update\<close>, one equation per branch.\<close>

lemma body_update_after_cr:
  "saw_cr c \<Longrightarrow> body_update ossl c (b # rest) =
     (let c' = end_line ossl (c\<lparr>saw_cr := False\<rparr>)
      in if b = LF then body_update ossl c' rest else body_update ossl c' (b # rest))"
  by (simp add: body_update.simps(2) Let_def)

lemma body_update_branches:
  assumes "\<not> saw_cr c"
  shows "b = CR \<Longrightarrow> body_update ossl c (b # rest) = body_update ossl (c\<lparr>saw_cr := True\<rparr>) rest"
    and "b = LF \<Longrightarrow> body_update ossl c (b # rest) = body_update ossl (end_line ossl c) rest"
    and "is_wsp b \<Longrightarrow> body_update ossl c (b # rest) =
      body_update ossl (c\<lparr>pending_wsp := True\<rparr>) (dropWhile is_wsp rest)"
    and "\<not> is_special b \<Longrightarrow> body_update ossl c (b # rest) =
      body_update ossl (emit_content ossl (b # takeWhile (\<lambda>x. \<not> is_special x) rest) c)
        (dropWhile (\<lambda>x. \<not> is_special x) rest)"
  using assms
  by (auto simp: body_update.simps(2) position_or_len_pos_iff Let_def dest: is_wsp_imp)

text \<open>The reference step, one equation per branch.\<close>

lemma reference_step_after_cr:
  "saw_cr c \<Longrightarrow> reference_step ossl c b =
     (let c' = end_line ossl (c\<lparr>saw_cr := False\<rparr>)
      in if b = LF then c' else reference_step ossl c' b)"
  by (simp add: reference_step_def Let_def)

lemma reference_step_branches:
  "\<not> saw_cr c \<Longrightarrow> reference_step ossl c LF = end_line ossl c"
  "\<not> saw_cr c \<Longrightarrow> reference_step ossl c CR = c\<lparr>saw_cr := True\<rparr>"
  "\<not> saw_cr c \<Longrightarrow> is_wsp b \<Longrightarrow> reference_step ossl c b = c\<lparr>pending_wsp := True\<rparr>"
  "\<not> saw_cr c \<Longrightarrow> \<not> is_special b \<Longrightarrow> reference_step ossl c b = emit_content ossl [b] c"
  by (auto simp: reference_step_def is_wsp_def is_special_def Let_def)

lemma foldl_reference_step_wsp:
  assumes "\<not> saw_cr c"
  shows "foldl (reference_step ossl) (c\<lparr>pending_wsp := True\<rparr>) ws =
    foldl (reference_step ossl) (c\<lparr>pending_wsp := True\<rparr>) (dropWhile is_wsp ws)"
  using assms by (induction ws) (simp_all add: reference_step_branches)

locale body_hashing = sha: stream_consumer "sha_update ossl"
  for ossl :: "('h, 'k, 's) openssl"
begin

lemma emit_content_append:
  "emit_content ossl ys (emit_content ossl xs c) = emit_content ossl (xs @ ys) c"
  by (simp add: emit_content_def Let_def sha.feed_append)

lemma foldl_reference_step_content:
  assumes "\<not> saw_cr c"
  shows "foldl (reference_step ossl) (emit_content ossl ys c) xs =
    foldl (reference_step ossl)
      (emit_content ossl (ys @ takeWhile (\<lambda>x. \<not> is_special x) xs) c)
      (dropWhile (\<lambda>x. \<not> is_special x) xs)"
  using assms
  by (induction xs arbitrary: ys) (simp_all add: reference_step_branches emit_content_append)

lemma body_update_eq_foldl_no_cr:
  assumes "\<not> saw_cr c"
    and IH: "\<And>c ys. length ys < length (b # rest) \<Longrightarrow>
      body_update ossl c ys = foldl (reference_step ossl) c ys"
  shows "body_update ossl c (b # rest) = foldl (reference_step ossl) c (b # rest)"
proof -
  have shorter: "length (dropWhile p rest) < length (b # rest)" for p
    by (simp add: le_imp_less_Suc length_dropWhile_le)
  consider "b = CR" | "b = LF" | (wsp) "is_wsp b" | (content) "\<not> is_special b"
    by (auto simp: is_special_def is_wsp_def)
  then show ?thesis
  proof cases
    case wsp
    then show ?thesis
      using assms(1) foldl_reference_step_wsp [of c ossl rest]
      by (simp add: body_update_branches reference_step_branches IH [OF shorter])
  next
    case content
    then show ?thesis
      using assms(1) foldl_reference_step_content [of c "[b]" rest]
      by (simp add: body_update_branches reference_step_branches IH [OF shorter])
  qed (use assms(1) in \<open>simp_all add: body_update_branches reference_step_branches IH\<close>)
qed

lemma body_update_eq_foldl: "body_update ossl c data = foldl (reference_step ossl) c data"
proof (induction data arbitrary: c rule: length_induct)
  case (1 data)
  then have IH: "body_update ossl c ys = foldl (reference_step ossl) c ys"
    if "length ys < length data" for c ys
    using that by blast
  show ?case
  proof (cases data)
    case (Cons b rest)
    note no_cr = body_update_eq_foldl_no_cr [OF _ IH [unfolded Cons]]
    show ?thesis
    proof (cases "saw_cr c")
      case True
      then show ?thesis
        using no_cr [of "end_line ossl (c\<lparr>saw_cr := False\<rparr>)"] IH [of rest]
        by (simp add: Cons body_update_after_cr reference_step_after_cr Let_def)
    qed (simp only: Cons no_cr not_False_eq_True)
  qed simp
qed

sublocale canon: stream_consumer "body_update ossl"
  by unfold_locales (simp_all add: body_update_eq_foldl)

end

section \<open>RFC 6376 section 3.4.4\<close>

text \<open>
  The relaxed form of a whole body: cut it into lines, drop white space at the end of each
  line and reduce every other run of it to one space, drop the empty lines at the end, and
  end every remaining line with CRLF. Like the code, a line end is CRLF, a bare CR or a bare
  LF; the piece after the last line end is a line too, dropped when it is empty.
\<close>

definition skip_lf :: "bytes \<Rightarrow> bytes" where
  "skip_lf xs = (case xs of [] \<Rightarrow> [] | x # ys \<Rightarrow> if x = LF then ys else xs)"

lemma length_skip_lf: "length (skip_lf xs) \<le> length xs"
  by (simp add: skip_lf_def split: list.splits)

lemma skip_lf_simps [simp]: "skip_lf [] = []" "skip_lf (LF # xs) = xs"
  "x \<noteq> LF \<Longrightarrow> skip_lf (x # xs) = x # xs"
  by (simp_all add: skip_lf_def)

function split_lines :: "bytes \<Rightarrow> bytes list" where
  "split_lines [] = [[]]"
| "split_lines (b # xs) =
     (if b = CR then [] # split_lines (skip_lf xs)
      else if b = LF then [] # split_lines xs
      else (b # hd (split_lines xs)) # tl (split_lines xs))"
  by pat_completeness auto
termination
  by (relation "measure length") (auto simp: less_Suc_eq_le length_skip_lf)

function relax_line :: "bytes \<Rightarrow> bytes" where
  "relax_line [] = []"
| "relax_line (b # l) =
     (if is_wsp b
      then (let r = relax_line (dropWhile is_wsp l) in if r = [] then [] else SP # r)
      else b # relax_line l)"
  by pat_completeness auto
termination
  by (relation "measure length") (auto simp: less_Suc_eq_le length_dropWhile_le)

definition strip_empty_end :: "bytes list \<Rightarrow> bytes list" where
  "strip_empty_end ls = rev (dropWhile (\<lambda>l. l = []) (rev ls))"

definition relaxed_body :: "bytes \<Rightarrow> bytes" where
  "relaxed_body body =
     concat (map (\<lambda>l. l @ CRLF) (strip_empty_end (map relax_line (split_lines body))))"

subsection \<open>Lines, front to back\<close>

text \<open>The same lines with the count of empty lines held back, as the code holds them back.\<close>

primrec emit_lines :: "nat \<Rightarrow> bytes list \<Rightarrow> bytes" where
  "emit_lines n [] = []"
| "emit_lines n (l # ls) =
     (if l = [] then emit_lines (Suc n) ls
      else concat (replicate n CRLF) @ l @ CRLF @ emit_lines 0 ls)"

lemma strip_empty_end_Cons:
  "strip_empty_end (l # ls) =
     (if l = [] \<and> strip_empty_end ls = [] then [] else l # strip_empty_end ls)"
  by (simp add: strip_empty_end_def dropWhile_append)

lemma emit_lines_eq:
  "emit_lines n ls =
     concat (map (\<lambda>l. l @ CRLF)
       (if strip_empty_end ls = [] then [] else replicate n [] @ strip_empty_end ls))"
proof (induction ls arbitrary: n)
  case Nil
  then show ?case
    by (simp add: strip_empty_end_def)
next
  case (Cons l ls)
  have "concat (map (\<lambda>l. l @ CRLF) (replicate n [])) = concat (replicate n CRLF)"
    by simp
  with Cons show ?case
    by (auto simp: strip_empty_end_Cons replicate_append_same [symmetric])
qed

lemma relaxed_body_emit_lines: "relaxed_body body = emit_lines 0 (map relax_line (split_lines body))"
  by (simp add: relaxed_body_def emit_lines_eq)

lemma split_lines_not_Nil [simp]: "split_lines xs \<noteq> []"
  by (cases xs) simp_all

lemma split_lines_ne: "split_lines xs = hd (split_lines xs) # tl (split_lines xs)"
  by simp

lemma relax_line_wsp: "is_wsp b \<Longrightarrow> relax_line (b # l) = relax_line (SP # l)"
  by (simp add: is_wsp_def)

lemma relax_line_wsp_wsp: "is_wsp b \<Longrightarrow> relax_line (SP # b # l) = relax_line (SP # l)"
  by (simp add: is_wsp_def)

section \<open>The code computes the digest of the RFC form\<close>

text \<open>What a state still has to feed to the digest when \<open>xs\<close> is the rest of the body.\<close>

definition lines_ahead :: "bool \<Rightarrow> nat \<Rightarrow> bool \<Rightarrow> bytes list \<Rightarrow> bytes" where
  "lines_ahead wsp empties content ls =
     (let r = relax_line ((if wsp then [SP] else []) @ hd ls);
          rs = map relax_line (tl ls)
      in if content then r @ CRLF @ emit_lines 0 rs else emit_lines empties (r # rs))"

definition bytes_ahead :: "'h body_canonicalizer \<Rightarrow> bytes \<Rightarrow> bytes" where
  "bytes_ahead c xs =
     lines_ahead (pending_wsp c) (pending_empty_lines c) (line_has_content c)
       (split_lines (if saw_cr c then CR # xs else xs))"

definition body_inv :: "'h body_canonicalizer \<Rightarrow> bool" where
  "body_inv c \<longleftrightarrow> (line_has_content c \<longrightarrow> pending_empty_lines c = 0)"

lemma lines_ahead_end_line:
  "ls \<noteq> [] \<Longrightarrow> lines_ahead w n False ([] # ls) = lines_ahead False (Suc n) False ls"
  "ls \<noteq> [] \<Longrightarrow> lines_ahead w n True ([] # ls) = CRLF @ lines_ahead False 0 False ls"
  by (cases ls; simp add: lines_ahead_def is_wsp_def)+

lemma lines_ahead_content:
  assumes "\<not> is_special b"
  shows "lines_ahead w n False ((b # l) # ls) =
      concat (replicate n CRLF) @ (if w then [SP] else []) @ [b] @ lines_ahead False 0 True (l # ls)"
    and "lines_ahead w n True ((b # l) # ls) =
      (if w then [SP] else []) @ [b] @ lines_ahead False 0 True (l # ls)"
  using assms is_wsp_imp [of b] by (auto simp: lines_ahead_def is_wsp_def is_special_def)

lemma lines_ahead_wsp:
  "is_wsp b \<Longrightarrow> lines_ahead w n has ((b # l) # ls) = lines_ahead True n has (l # ls)"
  using relax_line_wsp [of b l] relax_line_wsp_wsp [of b l]
  by (simp add: lines_ahead_def del: relax_line.simps)

lemma body_inv_reference_step: "body_inv c \<Longrightarrow> body_inv (reference_step ossl c b)"
  by (auto simp: body_inv_def reference_step_def end_line_def emit_content_def Let_def)

text \<open>Line ends counted so far, the one of a pending CR included: what the input length bounds.\<close>

definition line_ends :: "'h body_canonicalizer \<Rightarrow> nat" where
  "line_ends c = pending_empty_lines c + (if saw_cr c then 1 else 0)"

lemma line_ends_reference_step:
  "line_ends c < usize_max \<Longrightarrow> line_ends (reference_step ossl c b) \<le> Suc (line_ends c)"
  by (auto simp: line_ends_def reference_step_def end_line_def emit_content_def Let_def
      split: if_splits)

lemma lines_ahead_start:
  "ls \<noteq> [] \<Longrightarrow> lines_ahead False 0 False ls = emit_lines 0 (map relax_line ls)"
  by (cases ls) (simp_all add: lines_ahead_def)

lemma bytes_ahead_default: "bytes_ahead (body_default ossl) body = relaxed_body body"
  by (simp add: body_default_def bytes_ahead_def lines_ahead_start relaxed_body_emit_lines)

lemma bytes_ahead_pending_cr:
  assumes "saw_cr c" and "body_inv c" and "line_ends c < usize_max"
  shows "bytes_ahead c xs = (if line_has_content c then CRLF else []) @
    bytes_ahead (end_line ossl (c\<lparr>saw_cr := False\<rparr>)) (skip_lf xs)"
  using assms
  by (auto simp: bytes_ahead_def line_ends_def end_line_def body_inv_def Let_def
      lines_ahead_end_line)

context body_hashing
begin

lemma hasher_end_line:
  "hasher (end_line ossl c) =
     (if line_has_content c then sha_update ossl (hasher c) CRLF else hasher c)"
  by (simp add: end_line_def Let_def)

lemma hasher_emit_content:
  "hasher (emit_content ossl xs c) = sha_update ossl (hasher c)
     ((if line_has_content c then [] else concat (replicate (pending_empty_lines c) CRLF))
       @ (if pending_wsp c then [SP] else []) @ xs)"
  by (simp add: emit_content_def Let_def sha.feed_funpow sha.feed_append)

text \<open>One step moves bytes from what is ahead into the digest, and loses none.\<close>

lemma step_conserves_no_cr:
  assumes "\<not> saw_cr c" and "body_inv c" and "line_ends c < usize_max"
  shows "sha_update ossl (hasher (reference_step ossl c b)) (bytes_ahead (reference_step ossl c b) xs)
    = sha_update ossl (hasher c) (bytes_ahead c (b # xs))"
proof -
  obtain l ls where L: "split_lines xs = l # ls"
    using split_lines_ne by blast
  consider "b = CR" | (lf) "b = LF" | (wsp) "is_wsp b" | (content) "\<not> is_special b"
    by (auto simp: is_special_def is_wsp_def)
  then show ?thesis
  proof cases
    case lf
    then show ?thesis
      using assms L
      by (auto simp: reference_step_branches bytes_ahead_def lines_ahead_end_line end_line_def
          Let_def sha.feed_append line_ends_def body_inv_def)
  next
    case wsp
    then show ?thesis
      using assms L is_wsp_imp [of b]
      by (simp add: reference_step_branches bytes_ahead_def lines_ahead_wsp)
  next
    case content
    then have "b \<noteq> CR" "b \<noteq> LF"
      by auto
    with content show ?thesis
      using assms L
      by (cases "line_has_content c")
        (simp_all add: reference_step_branches bytes_ahead_def lines_ahead_content body_inv_def
          hasher_emit_content sha.feed_append, simp_all add: emit_content_def)
  qed (use assms in \<open>simp add: reference_step_branches bytes_ahead_def\<close>)
qed

lemma step_conserves:
  assumes "body_inv c" and "line_ends c < usize_max"
  shows "sha_update ossl (hasher (reference_step ossl c b)) (bytes_ahead (reference_step ossl c b) xs)
    = sha_update ossl (hasher c) (bytes_ahead c (b # xs))"
proof (cases "saw_cr c")
  case True
  define c' where "c' = end_line ossl (c\<lparr>saw_cr := False\<rparr>)"
  have ahead: "sha_update ossl (hasher c) (bytes_ahead c ys) =
      sha_update ossl (hasher c') (bytes_ahead c' (skip_lf ys))" for ys
    using bytes_ahead_pending_cr [OF True assms, of ys ossl]
    by (simp add: c'_def hasher_end_line sha.feed_append)
  have "\<not> saw_cr c'" "body_inv c'" "line_ends c' < usize_max"
    using assms True by (auto simp: c'_def end_line_def body_inv_def line_ends_def Let_def)
  then show ?thesis
    using True step_conserves_no_cr [of c' b xs] ahead [of "b # xs"]
    by (cases "b = LF") (simp_all add: reference_step_after_cr c'_def Let_def)
qed (use assms step_conserves_no_cr in blast)

lemma finish_conserves:
  "line_ends c < usize_max \<Longrightarrow>
     body_finish ossl c = sha_finish ossl (sha_update ossl (hasher c) (bytes_ahead c []))"
  by (auto simp: body_finish_def bytes_ahead_def lines_ahead_def is_wsp_def hasher_end_line
      sha.feed_Nil)

lemma reference_finish:
  "body_inv c \<Longrightarrow> line_ends c + length xs < usize_max \<Longrightarrow>
     body_finish ossl (foldl (reference_step ossl) c xs) =
     sha_finish ossl (sha_update ossl (hasher c) (bytes_ahead c xs))"
proof (induction xs arbitrary: c)
  case (Cons b xs)
  then have "line_ends (reference_step ossl c b) + length xs < usize_max"
    using line_ends_reference_step [of c ossl b] by simp
  with Cons show ?case
    by (simp add: body_inv_reference_step step_conserves)
qed (simp add: finish_conserves)

lemma body_finish_update:
  "length data < usize_max \<Longrightarrow>
     body_finish ossl (body_update ossl (body_default ossl) data) =
     sha_finish ossl (sha_update ossl (sha_new ossl) (relaxed_body data))"
  using reference_finish [of "body_default ossl" data]
  by (simp add: body_update_eq_foldl bytes_ahead_default)
    (simp add: body_default_def body_inv_def line_ends_def)

lemma body_finish_chunks:
  "length (concat chunks) < usize_max \<Longrightarrow>
     body_finish ossl (foldl (body_update ossl) (body_default ossl) chunks) =
     sha_finish ossl (sha_update ossl (sha_new ossl) (relaxed_body (concat chunks)))"
  by (simp add: canon.feed_chunks body_finish_update)

lemma reference_chunks:
  "body_finish ossl (foldl (body_update ossl) (body_default ossl) chunks) = reference_body ossl (concat chunks)"
  by (simp add: canon.feed_chunks body_update_eq_foldl reference_body_def)

end

interpretation transcript_body: body_hashing "transcript_openssl H R P Z"
  by unfold_locales

section \<open>The canonical form is a normal form\<close>

lemma relax_line_dropWhile_hd:
  "relax_line (dropWhile is_wsp l) = [] \<or> \<not> is_wsp (hd (relax_line (dropWhile is_wsp l)))"
  by (induction l) auto

lemma relax_line_idem: "relax_line (relax_line l) = relax_line l"
proof (induction l rule: relax_line.induct)
  case (2 b l)
  show ?case
  proof (cases "is_wsp b \<and> relax_line (dropWhile is_wsp l) \<noteq> []")
    case True
    then have "dropWhile is_wsp (relax_line (dropWhile is_wsp l)) = relax_line (dropWhile is_wsp l)"
      using relax_line_dropWhile_hd [of l] by (simp add: dropWhile_eq_self_iff)
    with True "2.IH"(1) show ?thesis
      by (simp add: is_wsp_def Let_def)
  qed (use "2.IH" in auto)
qed simp

lemma set_relax_line: "set (relax_line l) \<subseteq> insert SP (set l)"
proof (induction l rule: relax_line.induct)
  case (2 b l)
  then show ?case
    by (auto simp: Let_def dest: set_dropWhileD)
qed simp

lemma split_lines_clean: "l \<in> set (split_lines xs) \<Longrightarrow> CR \<notin> set l \<and> LF \<notin> set l"
proof (induction xs arbitrary: l rule: split_lines.induct)
  case (2 b xs)
  have "hd (split_lines xs) \<in> set (split_lines xs)"
    "set (tl (split_lines xs)) \<subseteq> set (split_lines xs)"
    by (simp_all add: list.set_sel(2) subsetI)
  with 2 show ?case
    by (auto split: if_splits)
qed simp

lemma split_lines_line:
  "CR \<notin> set l \<Longrightarrow> LF \<notin> set l \<Longrightarrow> split_lines (l @ CR # LF # xs) = l # split_lines xs"
  by (induction l) auto

lemma split_lines_concat:
  "(\<And>l. l \<in> set ls \<Longrightarrow> CR \<notin> set l \<and> LF \<notin> set l) \<Longrightarrow>
     split_lines (concat (map (\<lambda>l. l @ CRLF) ls)) = ls @ [[]]"
  by (induction ls) (simp_all add: split_lines_line)

lemma set_strip_empty_end: "set (strip_empty_end ls) \<subseteq> set ls"
  by (auto simp: strip_empty_end_def dest: set_dropWhileD)

lemma strip_empty_end_idem [simp]: "strip_empty_end (strip_empty_end ls) = strip_empty_end ls"
  by (simp add: strip_empty_end_def)

lemma strip_empty_end_snoc [simp]: "strip_empty_end (ls @ [[]]) = strip_empty_end ls"
  by (simp add: strip_empty_end_def)

lemma canonical_line:
  assumes "l \<in> set (strip_empty_end (map relax_line (split_lines body)))"
  shows "relax_line l = l" and "CR \<notin> set l \<and> LF \<notin> set l"
proof -
  obtain m where "m \<in> set (split_lines body)" "l = relax_line m"
    using assms set_strip_empty_end by fastforce
  then show "relax_line l = l" "CR \<notin> set l \<and> LF \<notin> set l"
    using split_lines_clean [of m body] set_relax_line [of m] by (auto simp: relax_line_idem)
qed

lemma relaxed_body_fixpoint: "relaxed_body (relaxed_body body) = relaxed_body body"
proof -
  let ?S = "strip_empty_end (map relax_line (split_lines body))"
  have "split_lines (relaxed_body body) = ?S @ [[]]"
    unfolding relaxed_body_def using canonical_line(2) by (rule split_lines_concat)
  moreover have "map relax_line ?S = ?S"
    using canonical_line(1) by (rule map_idI)
  ultimately have "relaxed_body (relaxed_body body) =
      concat (map (\<lambda>l. l @ CRLF) (strip_empty_end (?S @ [[]])))"
    by (simp add: relaxed_body_def [of "relaxed_body body"])
  then show ?thesis
    by (simp add: relaxed_body_def [of body])
qed

section \<open>Properties\<close>

text \<open>C4: the body hash is the digest of the RFC 6376 relaxed form of the whole body, however
  the milter cuts it into chunks.\<close>

theorem body_hash_relaxed:
  assumes "stream_consumer (sha_update ossl)" and "length (concat chunks) < usize_max"
  shows "body_finish ossl (foldl (body_update ossl) (body_default ossl) chunks) =
    sha_finish ossl (sha_update ossl (sha_new ossl) (relaxed_body (concat chunks)))"
  by (rule body_hashing.body_finish_chunks [OF body_hashing.intro [OF assms(1)] assms(2)])

lemma body_hash_relaxed_witness:
  "body_finish sample_openssl (foldl (body_update sample_openssl) (body_default sample_openssl)
     [''a  b '' @ [CR], [LF, SP], CRLF @ ''c'', CRLF @ CRLF]) =
   sha_finish sample_openssl (sha_update sample_openssl (sha_new sample_openssl)
     (relaxed_body (concat [''a  b '' @ [CR], [LF, SP], CRLF @ ''c'', CRLF @ CRLF])))"
  by (rule body_hash_relaxed) (simp_all add: sample_openssl_laws usize_max_def)

text \<open>The optimised chunk loop agrees with the byte-at-a-time reference of the test suite on
  bodies of any length in any chunks.\<close>

theorem body_update_reference:
  assumes "stream_consumer (sha_update ossl)"
  shows "body_finish ossl (foldl (body_update ossl) (body_default ossl) chunks) =
    reference_body ossl (concat chunks)"
  by (rule body_hashing.reference_chunks [OF body_hashing.intro [OF assms]])

lemma body_update_reference_witness:
  "body_finish sample_openssl (foldl (body_update sample_openssl) (body_default sample_openssl)
     [[TAB, CR], ''x'', CRLF]) =
   reference_body sample_openssl (concat [[TAB, CR], ''x'', CRLF])"
  by (rule body_update_reference) (simp add: sample_openssl_laws)

text \<open>Canonicalisation is a normal form: a body that a relay already put into relaxed form
  hashes the same.\<close>

theorem body_hash_normal_form:
  assumes "stream_consumer (sha_update ossl)"
    and "length data < usize_max" and "length (relaxed_body data) < usize_max"
  shows "body_finish ossl (body_update ossl (body_default ossl) (relaxed_body data)) =
    body_finish ossl (body_update ossl (body_default ossl) data)"
  using body_hashing.body_finish_update [OF body_hashing.intro [OF assms(1)]] assms(2,3)
  by (simp add: relaxed_body_fixpoint)

lemma body_hash_normal_form_witness:
  "body_finish sample_openssl (body_update sample_openssl (body_default sample_openssl)
     (relaxed_body (''a  b '' @ CRLF @ CRLF))) =
   body_finish sample_openssl (body_update sample_openssl (body_default sample_openssl)
     (''a  b '' @ CRLF @ CRLF))"
proof -
  have "relaxed_body (''a  b '' @ CRLF @ CRLF) = ''a b'' @ CRLF"
    by code_simp
  then show ?thesis
    by (intro body_hash_normal_form) (simp_all add: sample_openssl_laws usize_max_def)
qed

end
