(* ===== verification/Header.thy ===== *)
theory Header
  imports Body
begin

text \<open>
  Header fields of src/dkim.rs: the validated \<open>Header\<close>, \<open>canonicalize_header\<close> and
  \<open>canonicalize_signature_header\<close>, and the folding of the generated field by
  \<open>fold_signature\<close>.

  The specification side is RFC 6376 section 3.4.2 (relaxed header canonicalisation): the
  lower-case name, a colon, the words of the unfolded value with one space between them.
  Folding is shown to be invisible to it.
\<close>

section \<open>The code\<close>

record header =
  hdr_name :: bytes
  hdr_value :: bytes

definition header_name_byte :: "byte \<Rightarrow> bool" where
  "header_name_byte b \<longleftrightarrow> is_ascii_alphanumeric b \<or> b = CHR ''-''"

text \<open>\<open>Header::new\<close>; its only error is \<open>invalid header supplied by MTA\<close>.\<close>

definition header_new :: "bytes \<Rightarrow> bytes \<Rightarrow> unit + header" where
  "header_new name value =
     (if name = [] \<or> 998 < length name \<or> \<not> list_all header_name_byte name \<or> NUL \<in> set value
      then Inl ()
      else Inr \<lparr>hdr_name = name, hdr_value = value\<rparr>)"

definition header_is :: "header \<Rightarrow> bytes \<Rightarrow> bool" where
  "header_is h name \<longleftrightarrow> eq_ignore_ascii_case (hdr_name h) name"

text \<open>The loop over \<open>value[index..]\<close>; \<open>out\<close> already holds the name and the colon, which
  end at \<open>value_start\<close>.\<close>

fun canonicalize_loop :: "nat \<Rightarrow> bytes \<Rightarrow> bool \<Rightarrow> bytes \<Rightarrow> bytes" where
  "canonicalize_loop value_start out pending [] = out"
| "canonicalize_loop value_start out pending (b # rest) =
     (if b = SP \<or> b = TAB then canonicalize_loop value_start out True rest
      else if b = CR \<and> rest \<noteq> [] \<and> hd rest = LF
      then canonicalize_loop value_start out True (tl rest)
      else if b = CR \<or> b = LF then canonicalize_loop value_start out True rest
      else canonicalize_loop value_start
        (out @ (if pending \<and> value_start < length out then [SP] else []) @ [b]) False rest)"

definition canonicalize_header :: "bytes \<Rightarrow> bytes \<Rightarrow> bytes" where
  "canonicalize_header name value =
     (let out = lowercase name @ '':''
      in canonicalize_loop (length out) out False value @ CRLF)"

definition canonicalize_signature_header :: "bytes \<Rightarrow> bytes" where
  "canonicalize_signature_header value =
     (let canonical = canonicalize_header ''DKIM-Signature'' value
      in take (length canonical - 2) canonical)"

definition fold_limit :: nat where
  "fold_limit = 72"

fun fold_loop :: "bytes \<Rightarrow> nat \<Rightarrow> bytes list \<Rightarrow> bytes" where
  "fold_loop out column [] = out"
| "fold_loop out column (token # tokens) =
     (let needed = (if column = 0 then length token else length token + 1)
      in if 0 < column \<and> fold_limit < column + needed
         then fold_loop (out @ CRLF @ [TAB] @ token) (1 + length token) tokens
         else if 0 < column
         then fold_loop (out @ [SP] @ token) (column + 1 + length token) tokens
         else fold_loop (out @ token) (column + length token) tokens)"

definition fold_signature :: "bytes \<Rightarrow> bytes" where
  "fold_signature value = fold_loop [] 0 (split_on SP value)"

section \<open>RFC 6376 section 3.4.2\<close>

text \<open>White space of a field value: blanks, and the line ends that folding inserts.\<close>

definition is_fws :: "byte \<Rightarrow> bool" where
  "is_fws b \<longleftrightarrow> b = SP \<or> b = TAB \<or> b = CR \<or> b = LF"

fun fields :: "bytes \<Rightarrow> bytes list" where
  "fields [] = [[]]"
| "fields (b # v) =
     (if is_fws b then [] # fields v else (b # hd (fields v)) # tl (fields v))"

definition words :: "bytes \<Rightarrow> bytes list" where
  "words v = filter (\<lambda>w. w \<noteq> []) (fields v)"

definition relaxed_value :: "bytes \<Rightarrow> bytes" where
  "relaxed_value v = join [SP] (words v)"

definition relaxed_header :: "bytes \<Rightarrow> bytes \<Rightarrow> bytes" where
  "relaxed_header name value = lowercase name @ '':'' @ relaxed_value value"

section \<open>Words\<close>

lemma fields_not_Nil [simp]: "fields v \<noteq> []"
  by (cases v) simp_all

lemma fields_append_fws: "is_fws b \<Longrightarrow> fields (u @ b # v) = fields u @ fields v"
  by (induction u) simp_all

lemma words_Nil [simp]: "words [] = []"
  by (simp add: words_def)

lemma words_fws [simp]: "is_fws b \<Longrightarrow> words (b # v) = words v"
  by (simp add: words_def)

lemma words_append_fws: "is_fws b \<Longrightarrow> words (u @ b # v) = words u @ words v"
  by (simp add: words_def fields_append_fws)

lemma is_fws_simps [simp]: "is_fws SP" "is_fws TAB" "is_fws CR" "is_fws LF"
  by (simp_all add: is_fws_def)

lemma fields_word: "\<forall>b \<in> set w. \<not> is_fws b \<Longrightarrow> fields w = [w]"
  by (induction w) auto

lemma words_word: "w \<noteq> [] \<Longrightarrow> \<forall>b \<in> set w. \<not> is_fws b \<Longrightarrow> words w = [w]"
  by (simp add: words_def fields_word)

lemma fields_clean: "w \<in> set (fields v) \<Longrightarrow> set w \<subseteq> {b \<in> set v. \<not> is_fws b}"
proof (induction v arbitrary: w)
  case (Cons a v)
  obtain f fs where "fields v = f # fs"
    by (cases "fields v") simp_all
  with Cons show ?case
    by (fastforce split: if_splits)
qed simp

lemma words_clean: "w \<in> set (words v) \<Longrightarrow> w \<noteq> [] \<and> (\<forall>b \<in> set w. \<not> is_fws b)"
  using fields_clean [of w v] by (auto simp: words_def)

lemma set_words: "w \<in> set (words v) \<Longrightarrow> set w \<subseteq> set v"
  using fields_clean [of w v] by (auto simp: words_def)

lemma words_join: "words (join [SP] ws) = concat (map words ws)"
  by (induction ws) (simp_all add: join_Cons words_append_fws)

lemma words_split_on: "words v = concat (map words (split_on SP v))"
  using words_join [of "split_on SP v"] by simp

lemma concat_map_words:
  "\<forall>w \<in> set ws. w \<noteq> [] \<and> (\<forall>b \<in> set w. \<not> is_fws b) \<Longrightarrow> concat (map words ws) = ws"
  by (induction ws) (simp_all add: words_word)

lemma words_relaxed_value [simp]: "words (relaxed_value v) = words v"
  by (simp add: relaxed_value_def words_join concat_map_words words_clean)

lemma set_relaxed_value: "set (relaxed_value v) \<subseteq> insert SP {b \<in> set v. \<not> is_fws b}"
  using set_join_subset [of "[SP]" "words v"] words_clean [of _ v] set_words [of _ v]
  by (fastforce simp: relaxed_value_def)

section \<open>The loop computes the relaxed form\<close>

text \<open>What the rest of the value adds: to a word in progress, after white space, or at the
  start of the value.\<close>

definition loop_adds :: "bool \<Rightarrow> bool \<Rightarrow> bytes \<Rightarrow> bytes" where
  "loop_adds started pending v =
     (if \<not> started then relaxed_value v
      else if pending then concat (map (\<lambda>w. SP # w) (words v))
      else hd (fields v) @ concat (map (\<lambda>w. SP # w) (filter (\<lambda>w. w \<noteq> []) (tl (fields v)))))"

lemma join_SP_Cons: "join [SP] (w # ws) = w @ concat (map (\<lambda>w. SP # w) ws)"
  by (induction ws arbitrary: w) simp_all

lemma words_word_start:
  "\<not> is_fws b \<Longrightarrow> words (b # v) = (b # hd (fields v)) # filter (\<lambda>w. w \<noteq> []) (tl (fields v))"
  by (simp add: words_def)

lemma loop_adds_fws: "is_fws b \<Longrightarrow> loop_adds started pending (b # v) = loop_adds started True v"
  by (simp add: loop_adds_def relaxed_value_def) (simp add: words_def)

lemma loop_adds_word:
  "\<not> is_fws b \<Longrightarrow> loop_adds started pending (b # v) =
     (if pending \<and> started then [SP] else []) @ b # loop_adds True False v"
  by (simp add: loop_adds_def relaxed_value_def words_word_start join_SP_Cons)

lemma canonicalize_loop_adds:
  "canonicalize_loop (length pre) (pre @ val) pending v =
     pre @ val @ loop_adds (val \<noteq> []) pending v"
proof (induction "length pre" "pre @ val" pending v arbitrary: val rule: canonicalize_loop.induct)
  case (1 pending)
  then show ?case
    by (simp add: loop_adds_def relaxed_value_def)
next
  case (2 pending b rest)
  show ?case
  proof (cases "is_fws b")
    case True
    show ?thesis
    proof (cases "b = CR \<and> rest \<noteq> [] \<and> hd rest = LF")
      case crlf: True
      then have "loop_adds (val \<noteq> []) True rest = loop_adds (val \<noteq> []) True (tl rest)"
        by (cases rest) (simp_all add: loop_adds_fws)
      with crlf "2.hyps"(2) show ?thesis
        by (simp add: loop_adds_fws)
    next
      case False
      with True "2.hyps"(1,3) show ?thesis
        by (auto simp: loop_adds_fws is_fws_def)
    qed
  next
    case False
    then show ?thesis
      using "2.hyps"(4) [of "val @ (if pending \<and> val \<noteq> [] then [SP] else []) @ [b]"]
      by (auto simp: loop_adds_word is_fws_def)
  qed
qed

lemma canonicalize_header_relaxed: "canonicalize_header name value = relaxed_header name value @ CRLF"
  using canonicalize_loop_adds [where pre = "lowercase name @ '':''" and val = "[]" and pending = False]
  by (simp add: canonicalize_header_def relaxed_header_def loop_adds_def Let_def)

lemma canonicalize_signature_header_relaxed:
  "canonicalize_signature_header value = relaxed_header ''DKIM-Signature'' value"
  by (simp add: canonicalize_signature_header_def canonicalize_header_relaxed Let_def)

lemma relaxed_header_words: "words v = words w \<Longrightarrow> relaxed_header name v = relaxed_header name w"
  by (simp add: relaxed_header_def relaxed_value_def)

section \<open>Folding\<close>

text \<open>\<open>replace("\r\n\t", " ")\<close>, as the tests undo the folding.\<close>

fun unfold_tabs :: "bytes \<Rightarrow> bytes" where
  "unfold_tabs (a # b # c # v) =
     (if a = CR \<and> b = LF \<and> c = TAB then SP # unfold_tabs v else a # unfold_tabs (b # c # v))"
| "unfold_tabs v = v"

lemma unfold_tabs_Cons: "CR \<noteq> a \<Longrightarrow> unfold_tabs (a # v) = a # unfold_tabs v"
  by (cases v rule: unfold_tabs.cases) auto

lemma unfold_tabs_append: "CR \<notin> set t \<Longrightarrow> unfold_tabs (t @ v) = t @ unfold_tabs v"
  by (induction t) (simp_all add: unfold_tabs_Cons)

text \<open>The loop only appends.\<close>

lemma fold_loop_appends: "fold_loop out column tokens = out @ fold_loop [] column tokens"
proof (induction tokens arbitrary: out column)
  case (Cons t ts)
  show ?case
    by (simp add: Let_def Cons [of "out @ _"] Cons [of "_ # _"] Cons [of t])
qed simp

lemma fold_loop_token:
  "fold_loop [] column (t # ts) =
     (if column = 0 then t @ fold_loop [] (length t) ts
      else if fold_limit < column + length t + 1
      then CRLF @ [TAB] @ t @ fold_loop [] (1 + length t) ts
      else SP # t @ fold_loop [] (column + 1 + length t) ts)"
  by (simp add: Let_def fold_loop_appends [of "CR # _"] fold_loop_appends [of "SP # _"]
      fold_loop_appends [of t])

declare fold_loop.simps(2) [simp del]

lemma unfold_fold_loop:
  assumes "\<forall>t \<in> set ts. CR \<notin> set t" and "0 < column"
  shows "unfold_tabs (fold_loop [] column ts) = concat (map (\<lambda>t. SP # t) ts)"
  using assms
proof (induction ts arbitrary: column)
  case (Cons t ts)
  then show ?case
    by (simp add: fold_loop_token unfold_tabs_append unfold_tabs_Cons)
qed simp

lemma unfold_fold_signature:
  assumes "CR \<notin> set v" and "v = [] \<or> hd v \<noteq> SP"
  shows "unfold_tabs (fold_signature v) = v"
proof (cases "split_on SP v")
  case (Cons t ts)
  then have v: "v = t @ concat (map (\<lambda>t. SP # t) ts)"
    using join_split_on [of SP v] by (simp add: join_SP_Cons)
  have clean: "\<forall>u \<in> set (t # ts). CR \<notin> set u"
    using assms(1) set_split_on [of _ SP v] Cons by auto
  have "t = [] \<Longrightarrow> ts = []"
    using assms(2) v by (cases ts) auto
  then show ?thesis
    using clean v unfold_fold_loop [of ts "length t"] unfold_tabs_append [of t "[]"]
    unfolding fold_signature_def Cons
    by (cases "ts = []") (auto simp: fold_loop_token unfold_tabs_append)
qed simp

text \<open>Folding is white space: the words stay, whatever follows the last word.\<close>

lemma fold_loop_last_word:
  "\<exists>P. fold_loop [] column (ts @ [t @ s]) = P @ s \<and> words P = concat (map words (ts @ [t])) \<and>
     (0 < column \<longrightarrow> P \<noteq> [] \<and> is_fws (hd P))"
proof (induction ts arbitrary: column)
  case Nil
  show ?case
    by (cases "column = 0") (auto simp: fold_loop_token intro: exI [of _ "CRLF @ TAB # t"]
        exI [of _ "SP # t"])
next
  case (Cons u ts)
  define column' where "column' = (if column = 0 then length u
    else if fold_limit < column + length u + 1 then 1 + length u else column + 1 + length u)"
  obtain P where P: "fold_loop [] column' (ts @ [t @ s]) = P @ s"
    "words P = concat (map words (ts @ [t]))" "0 < column' \<Longrightarrow> P \<noteq> [] \<and> is_fws (hd P)"
    using Cons.IH by blast
  have "words (u @ P) = words u @ words P"
  proof (cases "0 < column'")
    case True
    with P(3) show ?thesis
      by (cases P) (simp_all add: words_append_fws)
  next
    case False
    then have "u = []"
      by (auto simp: column'_def split: if_splits)
    then show ?thesis
      by simp
  qed
  with P show ?case
    by (auto simp: fold_loop_token column'_def
        intro: exI [of _ "u @ P"] exI [of _ "CRLF @ TAB # u @ P"] exI [of _ "SP # u @ P"])
qed

lemma fold_signature_words: "words (fold_signature v) = words v"
proof -
  obtain ts t where ts: "split_on SP v = ts @ [t]"
    by (metis rev_exhaust split_on_not_Nil)
  obtain P where "fold_signature v = P @ []" "words P = concat (map words (ts @ [t]))"
    using fold_loop_last_word [of 0 ts t "[]"] ts by (auto simp: fold_signature_def)
  then show ?thesis
    using words_split_on [of v] ts by simp
qed

lemma split_on_snoc:
  "c \<notin> set s \<Longrightarrow> split_on c (u @ s) = butlast (split_on c u) @ [last (split_on c u) @ s]"
  by (induction u) (auto split: list.splits)

text \<open>Cutting the signature off the folded field leaves the words of the unsigned value:
  what a verifier does when it empties the \<open>b=\<close> tag.\<close>

lemma fold_signature_suffix:
  assumes "SP \<notin> set s"
  obtains P where "fold_signature (u @ s) = P @ s" and "words P = words u"
proof -
  let ?ts = "butlast (split_on SP u)" and ?t = "last (split_on SP u)"
  obtain P where P: "fold_signature (u @ s) = P @ s" "words P = concat (map words (?ts @ [?t]))"
    using fold_loop_last_word [of 0 ?ts ?t s] split_on_snoc [OF assms, of u]
    by (auto simp: fold_signature_def)
  then have "words P = words u"
    using words_split_on [of u] by (simp add: append_butlast_last_id)
  with P(1) that show ?thesis
    by blast
qed

subsection \<open>Line lengths\<close>

lemma split_lines_append:
  "CR \<notin> set t \<Longrightarrow> LF \<notin> set t \<Longrightarrow>
     split_lines (t @ v) = (t @ hd (split_lines v)) # tl (split_lines v)"
  by (induction t) (use split_lines_ne in auto)

lemma fold_loop_lines:
  assumes "\<forall>t \<in> set ts. CR \<notin> set t \<and> LF \<notin> set t" and "0 < column"
  shows "(hd (split_lines (fold_loop [] column ts)) = [] \<or>
      column + length (hd (split_lines (fold_loop [] column ts))) \<le> fold_limit) \<and>
    (\<forall>l \<in> set (tl (split_lines (fold_loop [] column ts))).
      length l \<le> fold_limit \<or> (\<exists>t \<in> set ts. l = TAB # t))"
  using assms
proof (induction ts arbitrary: column)
  case (Cons t ts)
  then have t: "CR \<notin> set (TAB # t)" "LF \<notin> set (TAB # t)" "CR \<notin> set (SP # t)" "LF \<notin> set (SP # t)"
    by simp_all
  show ?case
  proof (cases "fold_limit < column + length t + 1")
    case True
    with Cons.prems Cons.IH [of "1 + length t"] show ?thesis
      using split_lines_append [OF t(1,2)] by (auto simp: fold_loop_token)
  next
    case False
    with Cons.prems Cons.IH [of "column + 1 + length t"] show ?thesis
      using split_lines_append [OF t(3,4)] by (auto simp: fold_loop_token)
  qed
qed simp

lemma fold_signature_lines:
  assumes "CR \<notin> set v" and "LF \<notin> set v" and "l \<in> set (split_lines (fold_signature v))"
  shows "length l \<le> fold_limit \<or> (\<exists>t \<in> set (split_on SP v). l = t \<or> l = TAB # t)"
proof -
  have "length l \<le> fold_limit \<or> (\<exists>t \<in> set ts. l = t \<or> l = TAB # t)"
    if "\<forall>t \<in> set ts. CR \<notin> set t \<and> LF \<notin> set t" and "l \<in> set (split_lines (fold_loop [] 0 ts))" for ts
    using that
  proof (induction ts)
    case (Cons t ts)
    show ?case
    proof (cases "t = []")
      case True
      with Cons show ?thesis
        by (simp add: fold_loop_token) blast
    next
      case False
      let ?L = "split_lines (fold_loop [] (length t) ts)"
      have "l = t @ hd ?L \<or> l \<in> set (tl ?L)"
        using Cons.prems by (simp add: fold_loop_token split_lines_append)
      then show ?thesis
        using fold_loop_lines [of ts "length t"] Cons.prems(1) False by auto
    qed
  qed simp
  moreover have "\<forall>t \<in> set (split_on SP v). CR \<notin> set t \<and> LF \<notin> set t"
    using assms(1,2) set_split_on by fastforce
  ultimately show ?thesis
    using assms(3) by (simp add: fold_signature_def)
qed

section \<open>Properties\<close>

text \<open>C29: \<open>canonicalize_header\<close> computes the relaxed header canonicalisation of RFC 6376
  section 3.4.2: lower-case name, colon, the words of the value with one space between them,
  CRLF.\<close>

theorem canonicalize_header_rfc:
  "canonicalize_header name v = lowercase name @ '':'' @ relaxed_value v @ CRLF"
  by (simp add: canonicalize_header_relaxed relaxed_header_def)

text \<open>A header field contributes exactly one line to the signed bytes: whatever its value
  holds, the only line end is the last CRLF, and no tab is left.\<close>

theorem canonicalize_header_one_line:
  assumes "list_all header_name_byte name"
  shows "\<exists>line. canonicalize_header name v = line @ CRLF \<and> CR \<notin> set line \<and> LF \<notin> set line \<and> TAB \<notin> set line"
proof -
  have "\<not> is_ascii_control b" if mem: "b \<in> set (lowercase name)" for b
  proof -
    obtain a where "b = to_ascii_lowercase a" "header_name_byte a"
      using mem assms unfolding set_map list_all_iff by blast
    then have "is_ascii_alphanumeric b \<or> b = CHR ''-''"
      using alphanumeric_to_ascii_lowercase [of a] to_ascii_lowercase_id [of "CHR ''-''"]
      by (auto simp: header_name_byte_def is_ascii_upper_def code_def)
    then show ?thesis
      by (auto simp: byte_simps)
  qed
  moreover have "is_ascii_control CR" "is_ascii_control LF" "is_ascii_control TAB"
    by (simp_all add: byte_simps)
  ultimately have "CR \<notin> set (relaxed_header name v) \<and> LF \<notin> set (relaxed_header name v) \<and>
      TAB \<notin> set (relaxed_header name v)"
    using set_relaxed_value [of v] by (auto simp: relaxed_header_def)
  then show ?thesis
    by (auto simp: canonicalize_header_relaxed)
qed

lemma canonicalize_header_one_line_witness:
  "\<exists>line. canonicalize_header ''Subject'' (''a'' @ CRLF @ ''Bcc: x'') = line @ CRLF \<and>
     CR \<notin> set line \<and> LF \<notin> set line \<and> TAB \<notin> set line"
  by (rule canonicalize_header_one_line) (simp add: header_name_byte_def byte_simps)

text \<open>Undoing the folding gives the generated value back.\<close>

theorem fold_signature_roundtrip:
  assumes "CR \<notin> set v" and "v = [] \<or> hd v \<noteq> SP"
  shows "unfold_tabs (fold_signature v) = v"
  using assms by (rule unfold_fold_signature)

lemma fold_signature_roundtrip_witness:
  "unfold_tabs (fold_signature (''v=1; '' @ replicate 70 CHR ''x'' @ '' y'')) =
     ''v=1; '' @ replicate 70 CHR ''x'' @ '' y''"
  by (rule fold_signature_roundtrip) simp_all

text \<open>No line of the folded field is longer than 72 bytes, unless it is a single token that
  has no space to fold at.\<close>

theorem fold_signature_line_limit:
  assumes "CR \<notin> set v" and "LF \<notin> set v" and "l \<in> set (split_lines (fold_signature v))"
  shows "length l \<le> fold_limit \<or> (\<exists>t \<in> set (split_on SP v). l = t \<or> l = TAB # t)"
  using assms by (rule fold_signature_lines)

lemma fold_signature_line_limit_witness:
  "length (''a b'') \<le> fold_limit \<or> (\<exists>t \<in> set (split_on SP ''a b''). ''a b'' = t \<or> ''a b'' = TAB # t)"
proof (rule fold_signature_line_limit)
  show "''a b'' \<in> set (split_lines (fold_signature ''a b''))"
    by (simp add: fold_signature_def fold_loop_token fold_limit_def)
qed simp_all

text \<open>C34: folding is invisible to the hash input: the canonical DKIM-Signature line is the same
  for the folded and the unfolded value.\<close>

theorem fold_signature_invisible:
  "canonicalize_signature_header (fold_signature v) = canonicalize_signature_header v"
  unfolding canonicalize_signature_header_relaxed
  by (rule relaxed_header_words) (rule fold_signature_words)

end
