(* ===== verification/Rust_Std.thy ===== *)
theory Rust_Std
  imports Prelude
begin

text \<open>
  The functions of Rust's standard library on \<open>&str\<close>, \<open>&[u8]\<close> and \<open>u32\<close> that the program
  calls, as functions on bytes: UTF-8 validity (\<open>str::from_utf8\<close>), \<open>trim\<close> with the Unicode
  White_Space property, \<open>trim_end_matches\<close>, \<open>split_once\<close>, \<open>lines\<close>, prefix and suffix
  stripping, decimal printing and parsing, big-endian conversion. A \<open>&str\<close> is the list of
  its UTF-8 bytes: every character the program looks for is ASCII, and an ASCII byte never
  occurs inside the encoding of another character, so byte positions are character
  boundaries wherever the source slices.
\<close>

section \<open>UTF-8\<close>

definition byte_in :: "nat \<Rightarrow> nat \<Rightarrow> byte \<Rightarrow> bool" where
  "byte_in lo hi b \<longleftrightarrow> lo \<le> code b \<and> code b \<le> hi"

abbreviation utf8_cont :: "byte \<Rightarrow> bool" where
  "utf8_cont \<equiv> byte_in 0x80 0xBF"

text \<open>The well-formed byte sequences of the Unicode standard, table 3-7.\<close>

fun utf8_valid :: "bytes \<Rightarrow> bool" where
  "utf8_valid [] = True"
| "utf8_valid (a # s) =
     (if is_ascii a then utf8_valid s
      else if byte_in 0xC2 0xDF a
      then (case s of b # s' \<Rightarrow> utf8_cont b \<and> utf8_valid s' | _ \<Rightarrow> False)
      else if byte_in 0xE0 0xEF a
      then (case s of
          b # c # s' \<Rightarrow>
            byte_in (if code a = 0xE0 then 0xA0 else 0x80) (if code a = 0xED then 0x9F else 0xBF) b
            \<and> utf8_cont c \<and> utf8_valid s'
        | _ \<Rightarrow> False)
      else if byte_in 0xF0 0xF4 a
      then (case s of
          b # c # d # s' \<Rightarrow>
            byte_in (if code a = 0xF0 then 0x90 else 0x80) (if code a = 0xF4 then 0x8F else 0xBF) b
            \<and> utf8_cont c \<and> utf8_cont d \<and> utf8_valid s'
        | _ \<Rightarrow> False)
      else False)"

lemma utf8_valid_ascii: "list_all is_ascii s \<Longrightarrow> utf8_valid s"
  by (induction s) simp_all

section \<open>Prefixes and white space\<close>

definition starts_with :: "bytes \<Rightarrow> bytes \<Rightarrow> bool" where
  "starts_with p s \<longleftrightarrow> take (length p) s = p"

definition strip_prefix :: "bytes \<Rightarrow> bytes \<Rightarrow> bytes option" where
  "strip_prefix p s = (if starts_with p s then Some (drop (length p) s) else None)"

definition strip_suffix :: "bytes \<Rightarrow> bytes \<Rightarrow> bytes option" where
  "strip_suffix p s = map_option rev (strip_prefix (rev p) (rev s))"

lemma starts_with_append [simp]: "starts_with p (p @ s)"
  by (simp add: starts_with_def)

lemma strip_prefix_append [simp]: "strip_prefix p (p @ s) = Some s"
  by (simp add: strip_prefix_def)

lemma strip_prefix_Some_iff: "strip_prefix p s = Some t \<longleftrightarrow> s = p @ t"
  by (auto simp: strip_prefix_def starts_with_def) (metis append_take_drop_id)

lemma strip_suffix_Some_iff: "strip_suffix p s = Some t \<longleftrightarrow> s = t @ p"
  by (auto simp: strip_suffix_def strip_prefix_Some_iff rev_eq_append_conv [of s])
    (metis rev_append rev_rev_ident)

text \<open>The characters with the Unicode property White_Space, as their UTF-8 encodings.\<close>

definition white_space :: "bytes list" where
  "white_space =
     [[CHR 0x09], [CHR 0x0A], [CHR 0x0B], [CHR 0x0C], [CHR 0x0D], [CHR 0x20],
      [CHR 0xC2, CHR 0x85], [CHR 0xC2, CHR 0xA0], [CHR 0xE1, CHR 0x9A, CHR 0x80],
      [CHR 0xE2, CHR 0x80, CHR 0x80], [CHR 0xE2, CHR 0x80, CHR 0x81],
      [CHR 0xE2, CHR 0x80, CHR 0x82], [CHR 0xE2, CHR 0x80, CHR 0x83],
      [CHR 0xE2, CHR 0x80, CHR 0x84], [CHR 0xE2, CHR 0x80, CHR 0x85],
      [CHR 0xE2, CHR 0x80, CHR 0x86], [CHR 0xE2, CHR 0x80, CHR 0x87],
      [CHR 0xE2, CHR 0x80, CHR 0x88], [CHR 0xE2, CHR 0x80, CHR 0x89],
      [CHR 0xE2, CHR 0x80, CHR 0x8A], [CHR 0xE2, CHR 0x80, CHR 0xA8],
      [CHR 0xE2, CHR 0x80, CHR 0xA9], [CHR 0xE2, CHR 0x80, CHR 0xAF],
      [CHR 0xE2, CHR 0x81, CHR 0x9F], [CHR 0xE3, CHR 0x80, CHR 0x80]]"

function strip_any :: "bytes list \<Rightarrow> bytes \<Rightarrow> bytes" where
  "strip_any table s =
     (case find (\<lambda>w. w \<noteq> [] \<and> starts_with w s) table of
        None \<Rightarrow> s | Some w \<Rightarrow> strip_any table (drop (length w) s))"
  by pat_completeness auto
termination
proof (relation "measure (\<lambda>(table, s). length s)")
  fix table s w
  assume "find (\<lambda>w. w \<noteq> [] \<and> starts_with w s) table = Some w"
  then have "w \<noteq> []" "take (length w) s = w"
    by (auto simp: find_Some_iff starts_with_def)
  then have "s \<noteq> []"
    by auto
  with \<open>w \<noteq> []\<close> show "((table, drop (length w) s), (table, s)) \<in> measure (\<lambda>(table, s). length s)"
    by simp
qed simp

declare strip_any.simps [simp del]

definition trim_start :: "bytes \<Rightarrow> bytes" where
  "trim_start s = strip_any white_space s"

definition trim_end :: "bytes \<Rightarrow> bytes" where
  "trim_end s = rev (strip_any (map rev white_space) (rev s))"

definition trim :: "bytes \<Rightarrow> bytes" where
  "trim s = trim_start (trim_end s)"

text \<open>A printable ASCII byte stops trimming.\<close>

definition visible :: "byte \<Rightarrow> bool" where
  "visible b \<longleftrightarrow> 32 < code b \<and> code b < 127"

lemma white_space_not_visible: "\<forall>w \<in> set white_space. \<not> visible (hd w) \<and> \<not> visible (last w)"
  by (simp add: white_space_def visible_def code_def)

lemma starts_with_hd: "w \<noteq> [] \<Longrightarrow> starts_with w (b # s) \<Longrightarrow> hd w = b"
  by (cases w) (auto simp: starts_with_def)

lemma strip_any_stops:
  "(\<And>w. w \<in> set table \<Longrightarrow> w \<noteq> [] \<Longrightarrow> hd w \<noteq> b) \<Longrightarrow> strip_any table (b # s) = b # s"
  using starts_with_hd [of _ b s]
  by (subst strip_any.simps) (auto simp: find_None_iff split: option.splits dest!: find_Some_iff [THEN iffD1]
      intro: nth_mem)

lemma strip_any_Nil [simp]: "strip_any table [] = []"
  by (subst strip_any.simps)
    (auto simp: starts_with_def split: option.splits dest!: find_Some_iff [THEN iffD1])

lemma trim_start_visible [simp]: "visible b \<Longrightarrow> trim_start (b # s) = b # s"
  using white_space_not_visible by (auto simp: trim_start_def intro!: strip_any_stops)

lemma trim_end_visible [simp]:
  assumes "visible b"
  shows "trim_end (s @ [b]) = s @ [b]"
proof -
  have "strip_any (map rev white_space) (b # rev s) = b # rev s"
    using assms white_space_not_visible by (intro strip_any_stops) (auto simp: hd_rev)
  then show ?thesis
    by (simp add: trim_end_def)
qed

lemma trim_Nil [simp]: "trim_start [] = []" "trim_end [] = []" "trim [] = []"
  by (simp_all add: trim_def trim_start_def trim_end_def)

lemma trim_visible:
  assumes "s \<noteq> []" and "visible (hd s)" and "visible (last s)"
  shows "trim s = s"
proof -
  have "trim_end s = s"
    using trim_end_visible [OF assms(3), of "butlast s"] assms(1) by simp
  moreover have "trim_start s = s"
    using trim_start_visible [OF assms(2), of "tl s"] assms(1) by simp
  ultimately show ?thesis
    by (simp add: trim_def)
qed

text \<open>What trimming removes has no visible byte in it.\<close>

lemma white_space_all_not_visible: "\<forall>w \<in> set white_space. \<forall>b \<in> set w. \<not> visible b"
  by (simp add: white_space_def visible_def code_def)

lemma strip_any_removes:
  assumes "\<forall>w \<in> set table. \<forall>b \<in> set w. \<not> visible b"
  shows "\<exists>p. s = p @ strip_any table s \<and> (\<forall>b \<in> set p. \<not> visible b)"
  using assms
proof (induction table s rule: strip_any.induct)
  case (1 table s)
  show ?case
  proof (cases "find (\<lambda>w. w \<noteq> [] \<and> starts_with w s) table")
    case (Some w)
    then obtain p where p: "drop (length w) s = p @ strip_any table (drop (length w) s)"
      "\<forall>b \<in> set p. \<not> visible b"
      using 1 by blast
    have "w \<in> set table" "s = w @ drop (length w) s"
      using Some by (auto simp: find_Some_iff starts_with_def) (metis append_take_drop_id)
    then have "s = (w @ p) @ strip_any table (drop (length w) s)" "\<forall>b \<in> set (w @ p). \<not> visible b"
      using p "1.prems" by auto
    moreover have "strip_any table s = strip_any table (drop (length w) s)"
      using Some by (simp add: strip_any.simps [of table s])
    ultimately show ?thesis
      by metis
  qed (simp add: strip_any.simps)
qed

lemma trim_removes:
  obtains p q where "s = p @ trim s @ q" and "\<forall>b \<in> set p \<union> set q. \<not> visible b"
proof -
  obtain p where p: "trim_end s = p @ trim s" "\<forall>b \<in> set p. \<not> visible b"
    using strip_any_removes [OF white_space_all_not_visible, of "trim_end s"]
    by (auto simp: trim_def trim_start_def)
  obtain q where "rev s = q @ strip_any (map rev white_space) (rev s)" "\<forall>b \<in> set q. \<not> visible b"
    using strip_any_removes [of "map rev white_space" "rev s"] white_space_all_not_visible by auto
  then have "s = trim_end s @ rev q" "\<forall>b \<in> set (rev q). \<not> visible b"
    by (auto simp: trim_end_def) (metis rev_append rev_rev_ident)
  with p that [of p "rev q"] show ?thesis
    by auto
qed

lemma set_trim: "set (trim s) \<subseteq> set s"
  by (metis Un_iff set_append subsetI trim_removes)

definition trim_end_matches :: "byte \<Rightarrow> bytes \<Rightarrow> bytes" where
  "trim_end_matches c s = rev (dropWhile (\<lambda>b. b = c) (rev s))"

lemma trim_end_matches_id: "s = [] \<or> last s \<noteq> c \<Longrightarrow> trim_end_matches c s = s"
  by (cases s rule: rev_cases) (simp_all add: trim_end_matches_def)

lemma last_trim_end_matches: "trim_end_matches c s \<noteq> [] \<Longrightarrow> last (trim_end_matches c s) \<noteq> c"
  using hd_dropWhile [of "\<lambda>b. b = c" "rev s"] by (auto simp: trim_end_matches_def last_rev)

lemma set_trim_end_matches: "set (trim_end_matches c s) \<subseteq> set s"
  by (auto simp: trim_end_matches_def dest: set_dropWhileD)

section \<open>Splitting\<close>

definition split_once :: "byte \<Rightarrow> bytes \<Rightarrow> (bytes \<times> bytes) option" where
  "split_once c s =
     (if c \<in> set s then Some (takeWhile (\<lambda>b. b \<noteq> c) s, tl (dropWhile (\<lambda>b. b \<noteq> c) s)) else None)"

lemma split_once_Some_iff: "split_once c s = Some (a, b) \<longleftrightarrow> s = a @ c # b \<and> c \<notin> set a"
proof
  assume "split_once c s = Some (a, b)"
  then have "c \<in> set s" "a = takeWhile (\<lambda>b. b \<noteq> c) s" "b = tl (dropWhile (\<lambda>b. b \<noteq> c) s)"
    by (auto simp: split_once_def split: if_splits)
  moreover from this have "dropWhile (\<lambda>b. b \<noteq> c) s \<noteq> []" "hd (dropWhile (\<lambda>b. b \<noteq> c) s) = c"
    using hd_dropWhile [of "\<lambda>b. b \<noteq> c" s] by auto
  ultimately show "s = a @ c # b \<and> c \<notin> set a"
    by (metis (mono_tags, lifting) list.collapse set_takeWhileD takeWhile_dropWhile_id)
next
  assume "s = a @ c # b \<and> c \<notin> set a"
  then show "split_once c s = Some (a, b)"
    by (auto simp: split_once_def takeWhile_append dropWhile_append)
qed

text \<open>\<open>str::lines\<close>: cut after every LF, then drop that LF and a CR before it.\<close>

fun split_inclusive_lf :: "bytes \<Rightarrow> bytes list" where
  "split_inclusive_lf [] = []"
| "split_inclusive_lf (b # s) =
     (if b = LF then [LF] # split_inclusive_lf s
      else (case split_inclusive_lf s of [] \<Rightarrow> [[b]] | l # ls \<Rightarrow> (b # l) # ls))"

definition strip_line_end :: "bytes \<Rightarrow> bytes" where
  "strip_line_end l =
     (case strip_suffix [LF] l of None \<Rightarrow> l
      | Some l \<Rightarrow> (case strip_suffix [CR] l of None \<Rightarrow> l | Some l \<Rightarrow> l))"

definition str_lines :: "bytes \<Rightarrow> bytes list" where
  "str_lines s = map strip_line_end (split_inclusive_lf s)"

section \<open>Numbers\<close>

text \<open>\<open>format!("{}", n)\<close> of an unsigned number.\<close>

fun dec :: "nat \<Rightarrow> bytes" where
  "dec n = (if n < 10 then [] else dec (n div 10)) @ [char_of (48 + n mod 10)]"

declare dec.simps [simp del]

end
