(* ===== verification/From_Domain.thy ===== *)
theory From_Domain
  imports Header Rust_Std
begin

text \<open>
  \<open>from_domain\<close> of src/dkim.rs and its helpers: the decision which domain a From header
  speaks for. The passes are those of the code: unfold, strip comments, find the angle
  brackets, find the at-sign, check local part and domain.

  The lemmas show what an accepted value looks like: exactly one unquoted at-sign and no
  unquoted comma, colon or semicolon in the comment-free text, so no second mailbox can ride
  along; a non-empty lower-case host name as the result; that plain and named addresses are
  accepted; and that a comment only counts as a space.
\<close>

section \<open>The code\<close>

definition atom_byte :: "byte \<Rightarrow> bool" where
  "atom_byte b \<longleftrightarrow> is_ascii_alphanumeric b \<or> b \<in> set ''!#$%&'' \<or> b = CHR 0x27 \<or>
     b \<in> set ''*+-/=?^_'' \<or> b = CHR 0x60 \<or> b \<in> set ''{|}~''"

text \<open>The quoted branch of \<open>local_part\<close>, after the opening quote; \<open>index == len - 1\<close> is
  \<open>rest = []\<close>.\<close>

fun quoted_local :: "bool \<Rightarrow> bytes \<Rightarrow> bool" where
  "quoted_local escaped [] = False"
| "quoted_local escaped (b # rest) =
     (if is_ascii_control b \<and> b \<noteq> TAB then False
      else if escaped then quoted_local False rest
      else if b = BACKSLASH then quoted_local True rest
      else if b = DQUOTE then rest = []
      else quoted_local escaped rest)"

definition local_part :: "bytes \<Rightarrow> bool" where
  "local_part v =
     (if v \<noteq> [] \<and> hd v = DQUOTE then quoted_local False (tl v)
      else v \<noteq> [] \<and> list_all (\<lambda>part. part \<noteq> [] \<and> list_all atom_byte part) (split_on CHR ''.'' v))"

fun display_loop :: "bool \<Rightarrow> bool \<Rightarrow> bytes \<Rightarrow> bool" where
  "display_loop quoted escaped [] = (\<not> quoted \<and> \<not> escaped)"
| "display_loop quoted escaped (b # rest) =
     (if escaped then \<not> is_ascii_control b \<and> display_loop quoted False rest
      else if quoted then
        (if b = BACKSLASH then display_loop quoted True rest
         else if b = DQUOTE then display_loop False escaped rest
         else if is_ascii_control b \<and> b \<noteq> TAB then False
         else display_loop quoted escaped rest)
      else if b = DQUOTE then display_loop True escaped rest
      else if \<not> atom_byte b \<and> b \<noteq> CHR ''.'' \<and> \<not> is_ascii_whitespace b \<and> is_ascii b then False
      else display_loop quoted escaped rest)"

definition display_name :: "bytes \<Rightarrow> bool" where
  "display_name v = display_loop False False v"

text \<open>Unfolding: CRLF before a blank disappears; any other control byte but TAB rejects.\<close>

fun unfold_value :: "bytes \<Rightarrow> bytes option" where
  "unfold_value [] = Some []"
| "unfold_value (b # rest) =
     (if b = CR
      then (case rest of
          c # d # rest' \<Rightarrow> if c = LF \<and> is_wsp d then unfold_value (d # rest') else None
        | _ \<Rightarrow> None)
      else if is_ascii_control b \<and> b \<noteq> TAB then None
      else map_option (\<lambda>u. b # u) (unfold_value rest))"

text \<open>The comment pass: \<open>mailbox\<close> grows, a comment leaves one space.\<close>

fun strip_comments :: "bool \<Rightarrow> bool \<Rightarrow> nat \<Rightarrow> bytes \<Rightarrow> bytes \<Rightarrow> bytes option" where
  "strip_comments quoted escaped depth mailbox [] =
     (if quoted \<or> escaped \<or> depth \<noteq> 0 then None else Some mailbox)"
| "strip_comments quoted escaped depth mailbox (b # rest) =
     (if escaped
      then strip_comments quoted False depth (if depth = 0 then mailbox @ [b] else mailbox) rest
      else if 0 < depth then
        (if b = BACKSLASH then strip_comments quoted True depth mailbox rest
         else if b = CHR ''('' then
           (case checked_add depth 1 of None \<Rightarrow> None
            | Some depth' \<Rightarrow> strip_comments quoted escaped depth' mailbox rest)
         else if b = CHR '')'' then strip_comments quoted escaped (depth - 1) mailbox rest
         else strip_comments quoted escaped depth mailbox rest)
      else if quoted then
        (if b = BACKSLASH then strip_comments quoted True depth (mailbox @ [b]) rest
         else if b = DQUOTE then strip_comments False escaped depth (mailbox @ [b]) rest
         else strip_comments quoted escaped depth (mailbox @ [b]) rest)
      else
        (if b = CHR ''('' then strip_comments quoted escaped 1 (mailbox @ [SP]) rest
         else if b = CHR '')'' then None
         else if b = DQUOTE then strip_comments True escaped depth (mailbox @ [b]) rest
         else strip_comments quoted escaped depth (mailbox @ [b]) rest))"

definition mailbox_text :: "bytes \<Rightarrow> bytes option" where
  "mailbox_text v =
     (case unfold_value v of None \<Rightarrow> None
      | Some unfolded \<Rightarrow>
        (case strip_comments False False 0 [] unfolded of None \<Rightarrow> None
         | Some mailbox \<Rightarrow> if utf8_valid mailbox then Some (trim mailbox) else None))"

text \<open>\<open>quoted\<close> and \<open>escaped\<close> are declared once: the comment pass leaves both false, the scan for
  brackets hands them on to the scan for the separator.\<close>

fun find_angles ::
  "bool \<Rightarrow> bool \<Rightarrow> nat option \<Rightarrow> nat option \<Rightarrow> nat \<Rightarrow> bytes
    \<Rightarrow> ((bool \<times> bool) \<times> nat option \<times> nat option) option" where
  "find_angles quoted escaped start end' index [] = Some ((quoted, escaped), start, end')"
| "find_angles quoted escaped start end' index (b # rest) =
     (if escaped then find_angles quoted False start end' (Suc index) rest
      else if quoted \<and> b = BACKSLASH then find_angles quoted True start end' (Suc index) rest
      else if b = DQUOTE then find_angles (\<not> quoted) escaped start end' (Suc index) rest
      else if \<not> quoted then
        (if b = CHR ''<'' \<and> start = None
         then find_angles quoted escaped (Some index) end' (Suc index) rest
         else if b = CHR ''>'' \<and> start \<noteq> None \<and> end' = None
         then find_angles quoted escaped start (Some index) (Suc index) rest
         else if b \<in> set ''<>,:;'' then None
         else find_angles quoted escaped start end' (Suc index) rest)
      else find_angles quoted escaped start end' (Suc index) rest)"

definition find_address :: "bytes \<Rightarrow> ((bool \<times> bool) \<times> bytes) option" where
  "find_address text =
     (case find_angles False False None None 0 text of
        None \<Rightarrow> None
      | Some (flags, Some start, Some end') \<Rightarrow>
          if \<not> display_name (take start text) \<or> trim (drop (end' + 1) text) \<noteq> [] then None
          else Some (flags, trim (take (end' - (start + 1)) (drop (start + 1) text)))
      | Some (flags, None, None) \<Rightarrow> Some (flags, text)
      | Some _ \<Rightarrow> None)"

fun find_separator :: "bool \<Rightarrow> bool \<Rightarrow> nat option \<Rightarrow> nat \<Rightarrow> bytes \<Rightarrow> nat option option" where
  "find_separator quoted escaped separator index [] = Some separator"
| "find_separator quoted escaped separator index (b # rest) =
     (if escaped then find_separator quoted False separator (Suc index) rest
      else if quoted \<and> b = BACKSLASH then find_separator quoted True separator (Suc index) rest
      else if b = DQUOTE then find_separator (\<not> quoted) escaped separator (Suc index) rest
      else if \<not> quoted \<and> b = CHR ''@'' then
        (if separator \<noteq> None then None
         else find_separator quoted escaped (Some index) (Suc index) rest)
      else find_separator quoted escaped separator (Suc index) rest)"

definition domain_byte :: "byte \<Rightarrow> bool" where
  "domain_byte b \<longleftrightarrow> is_ascii_alphanumeric b \<or> b = CHR ''-'' \<or> b = CHR ''.''"

definition address_domain :: "bool \<times> bool \<Rightarrow> bytes \<Rightarrow> bytes option" where
  "address_domain flags address =
     (case find_separator (fst flags) (snd flags) None 0 address of
        None \<Rightarrow> None
      | Some None \<Rightarrow> None
      | Some (Some separator) \<Rightarrow>
          let local = trim (take separator address);
              domain = trim_end_matches CHR ''.'' (trim (drop (separator + 1) address))
          in if \<not> local_part local \<or> domain = [] \<or> \<not> list_all domain_byte domain then None
             else Some (lowercase domain))"

definition from_domain :: "bytes \<Rightarrow> bytes option" where
  "from_domain v =
     (case mailbox_text v of None \<Rightarrow> None
      | Some text \<Rightarrow> (case find_address text of None \<Rightarrow> None
        | Some (flags, address) \<Rightarrow> address_domain flags address))"

section \<open>The shape of the result\<close>

lemma address_domain_Some:
  assumes "address_domain flags address = Some d"
  shows "d \<noteq> []" and "\<forall>b \<in> set d. domain_byte b \<and> \<not> is_ascii_upper b" and "last d \<noteq> CHR ''.''"
proof -
  obtain s where s: "s \<noteq> []" "\<forall>b \<in> set s. domain_byte b" "last s \<noteq> CHR ''.''" "d = lowercase s"
    using assms last_trim_end_matches
    by (auto simp: address_domain_def Let_def list_all_iff split: option.splits if_splits)
  have *: "\<not> is_ascii_alphanumeric CHR ''.''" "\<not> is_ascii_alphanumeric CHR ''-''"
    by (simp_all add: byte_simps)
  then have "last (lowercase s) \<noteq> CHR ''.''"
    using s(1,3) to_ascii_lowercase_eq_iff by (simp add: last_map)
  moreover have "domain_byte (to_ascii_lowercase b) = domain_byte b" for b
    using * by (simp add: domain_byte_def to_ascii_lowercase_eq_iff)
  ultimately show "d \<noteq> []" "\<forall>b \<in> set d. domain_byte b \<and> \<not> is_ascii_upper b" "last d \<noteq> CHR ''.''"
    using s by auto
qed

lemma from_domain_Some:
  "from_domain v = Some d \<Longrightarrow> \<exists>text flags address. mailbox_text v = Some text \<and>
     find_address text = Some (flags, address) \<and> address_domain flags address = Some d"
  by (auto simp: from_domain_def split: option.splits)

section \<open>Only one mailbox\<close>

text \<open>
  The quoting machine every pass after the first runs: its state is (quoted, escaped), a byte
  is plain when it is seen outside quoted strings. Each scan is a fold over the plain bytes
  and their positions.
\<close>

type_synonym quote_state = "bool \<times> bool"

abbreviation neutral :: quote_state where
  "neutral \<equiv> (False, False)"

definition quote_step :: "quote_state \<Rightarrow> byte \<Rightarrow> quote_state" where
  "quote_step st b =
     (case st of (quoted, escaped) \<Rightarrow>
        if escaped then (quoted, False)
        else if quoted \<and> b = BACKSLASH then (quoted, True)
        else if b = DQUOTE then (\<not> quoted, escaped)
        else (quoted, escaped))"

definition plain :: "quote_state \<Rightarrow> byte \<Rightarrow> bool" where
  "plain st b \<longleftrightarrow> st = neutral \<and> b \<noteq> DQUOTE"

abbreviation quoting :: "quote_state \<Rightarrow> bytes \<Rightarrow> quote_state" where
  "quoting \<equiv> foldl quote_step"

primrec plain_at :: "quote_state \<Rightarrow> nat \<Rightarrow> bytes \<Rightarrow> (nat \<times> byte) list" where
  "plain_at st i [] = []"
| "plain_at st i (b # s) =
     (if plain st b then [(i, b)] else []) @ plain_at (quote_step st b) (Suc i) s"

definition plain_bytes :: "bytes \<Rightarrow> bytes" where
  "plain_bytes s = map snd (plain_at neutral 0 s)"

lemma plain_quote_step: "plain st b \<Longrightarrow> quote_step st b = st"
  by (auto simp: plain_def quote_step_def)

lemma plain_at_append: "plain_at st i (s @ t) = plain_at st i s @ plain_at (quoting st s) (i + length s) t"
  by (induction s arbitrary: st i) simp_all

lemma plain_at_shift: "map snd (plain_at st i s) = map snd (plain_at st j s)"
proof (induction s arbitrary: st i j)
  case (Cons b s)
  show ?case
    using Cons [of "quote_step st b" "Suc i" "Suc j"] by simp
qed simp

lemma plain_bytes_append:
  "quoting neutral s = neutral \<Longrightarrow> plain_bytes (s @ t) = plain_bytes s @ plain_bytes t"
  using plain_at_shift [of neutral "length s" t 0] by (simp add: plain_bytes_def plain_at_append)

lemma plain_bytes_Cons: "b \<noteq> DQUOTE \<Longrightarrow> plain_bytes (b # s) = b # plain_bytes s"
  using plain_at_shift [of neutral 1 s 0]
  by (simp add: plain_bytes_def plain_def quote_step_def)

lemma set_plain_at: "(i, b) \<in> set (plain_at st k s) \<Longrightarrow> b \<in> set s"
proof (induction s arbitrary: st k)
  case (Cons a s)
  then show ?case
    using Cons.IH [of "quote_step st a" "Suc k"] by (simp split: if_splits) blast
qed simp

lemma quoting_not_visible: "\<forall>b \<in> set s. \<not> visible b \<Longrightarrow> quoting neutral s = neutral"
  by (induction s) (auto simp: quote_step_def visible_def code_def)

lemma count_not_visible:
  "visible c \<Longrightarrow> \<forall>b \<in> set s. \<not> visible b \<Longrightarrow> count_list (map snd (plain_at st i s)) c = 0"
  by (auto simp: count_list_0_iff dest: set_plain_at)

lemma count_plain_trim:
  assumes "visible c"
  shows "count_list (plain_bytes (trim s)) c = count_list (plain_bytes s) c"
proof -
  obtain p q where s: "s = p @ trim s @ q" and pq: "\<forall>b \<in> set p \<union> set q. \<not> visible b"
    by (rule trim_removes)
  have "count_list (plain_bytes (p @ trim s @ q)) c = count_list (plain_bytes (trim s)) c"
    using pq count_not_visible [OF assms] quoting_not_visible [of p]
    by (simp add: plain_bytes_append) (simp add: plain_bytes_def plain_at_append)
  with s show ?thesis
    by simp
qed

lemma plain_at_split:
  assumes "plain_at st k s = evs @ (i, b) # evs'"
  obtains pre post where "s = pre @ b # post" and "i = k + length pre"
    and "quoting st pre = neutral" and "b \<noteq> DQUOTE"
    and "plain_at st k pre = evs" and "plain_at neutral (Suc i) post = evs'"
  using assms
proof (induction s arbitrary: st k evs thesis)
  case (Cons a s)
  show ?case
  proof (cases "plain st a \<and> evs = []")
    case True
    with Cons.prems(2) Cons.prems(1) [of "[]" s] show ?thesis
      by (auto simp: plain_quote_step) (auto simp: plain_def)
  next
    case False
    define evs1 where "evs1 = (if plain st a then tl evs else evs)"
    have evs: "evs = (if plain st a then [(k, a)] else []) @ evs1"
      "plain_at (quote_step st a) (Suc k) s = evs1 @ (i, b) # evs'"
      using Cons.prems(2) False by (cases evs; auto simp: evs1_def)+
    obtain pre post where "s = pre @ b # post" "i = Suc k + length pre"
      "quoting (quote_step st a) pre = neutral" "b \<noteq> DQUOTE"
      "plain_at (quote_step st a) (Suc k) pre = evs1" "plain_at neutral (Suc i) post = evs'"
      using Cons.IH [OF _ evs(2)] by blast
    then show ?thesis
      using Cons.prems(1) [of "a # pre" post] evs(1) by simp
  qed
qed simp

text \<open>The flags \<open>quoted\<close> and \<open>escaped\<close> are shared by the passes; both are false again after every one.\<close>

lemma strip_comments_quoting:
  assumes "strip_comments q e depth mbox s = Some m"
    and "quoting neutral mbox = (if depth = 0 then (q, e) else neutral)" and "depth \<noteq> 0 \<or> e \<Longrightarrow> q = (depth = 0)"
  shows "quoting neutral m = neutral"
  using assms
  by (induction q e depth mbox s rule: strip_comments.induct)
    (auto simp: quote_step_def split: if_splits option.splits)

lemma quoting_blank_end:
  assumes "quoting (q, e) s = neutral" and "\<forall>b \<in> set s. \<not> visible b" and "e \<Longrightarrow> q"
  shows "\<not> q \<and> \<not> e"
  using assms
proof (induction s arbitrary: e)
  case (Cons b s)
  have "quote_step (q, e) b = (q, False)"
    using Cons.prems(2) by (auto simp: quote_step_def visible_def code_def)
  then show ?case
    using Cons.IH [of False] Cons.prems by auto
qed simp

lemma quoting_escaped: "(snd st \<Longrightarrow> fst st) \<Longrightarrow> snd (quoting st s) \<Longrightarrow> fst (quoting st s)"
  by (induction s arbitrary: st) (auto simp: quote_step_def split: prod.splits if_splits)

lemma passes_start_neutral:
  assumes "mailbox_text v = Some text"
  shows "quoting neutral text = neutral"
proof -
  obtain u m where m: "strip_comments False False 0 [] u = Some m" "text = trim m"
    using assms by (auto simp: mailbox_text_def split: option.splits if_splits)
  have "quoting neutral m = neutral"
    by (rule strip_comments_quoting [OF m(1)]) simp_all
  moreover obtain p q where "m = p @ trim m @ q" "\<forall>b \<in> set p \<union> set q. \<not> visible b"
    by (rule trim_removes)
  moreover from this have "quoting neutral m = quoting (quoting neutral (trim m)) q"
    using quoting_not_visible [of p] by (metis UnCI foldl_append)
  ultimately show ?thesis
    using quoting_blank_end [of "fst (quoting neutral (trim m))" "snd (quoting neutral (trim m))" q]
      quoting_escaped [of neutral "trim m"] m(2)
    by (auto simp: prod_eq_iff)
qed

subsection \<open>The scans as folds over plain bytes\<close>

definition structural :: "byte \<Rightarrow> bool" where
  "structural b \<longleftrightarrow> b \<in> set ''<>,:;''"

fun angle_events :: "nat option \<Rightarrow> nat option \<Rightarrow> (nat \<times> byte) list \<Rightarrow> (nat option \<times> nat option) option" where
  "angle_events start end' [] = Some (start, end')"
| "angle_events start end' ((i, b) # evs) =
     (if b = CHR ''<'' \<and> start = None then angle_events (Some i) end' evs
      else if b = CHR ''>'' \<and> start \<noteq> None \<and> end' = None then angle_events start (Some i) evs
      else None)"

lemma find_angles_events:
  "find_angles q e start end' i s = map_option (Pair (quoting (q, e) s))
     (angle_events start end' (filter (\<lambda>(i, b). structural b) (plain_at (q, e) i s)))"
  by (induction q e start end' i s rule: find_angles.induct)
    (simp_all add: quote_step_def plain_def structural_def)

lemma angle_events_Some:
  assumes "angle_events None None evs = Some (start, end')"
  shows "evs = [] \<and> start = None \<and> end' = None \<or>
    (\<exists>i. evs = [(i, CHR ''<'')] \<and> start = Some i \<and> end' = None) \<or>
    (\<exists>i j. evs = [(i, CHR ''<''), (j, CHR ''>'')] \<and> start = Some i \<and> end' = Some j)"
proof (cases evs)
  case (Cons a evs1)
  show ?thesis
  proof (cases evs1)
    case Nil
    with Cons assms show ?thesis
      by (cases a) (simp split: if_splits)
  next
    case (Cons a1 evs2)
    with \<open>evs = a # evs1\<close> assms show ?thesis
      by (cases a; cases a1; cases evs2) (auto split: if_splits)
  qed
qed (use assms in simp)

fun separator_events :: "nat option \<Rightarrow> nat list \<Rightarrow> nat option option" where
  "separator_events separator [] = Some separator"
| "separator_events separator (i # is) =
     (if separator \<noteq> None then None else separator_events (Some i) is)"

lemma find_separator_events:
  "find_separator q e separator i s =
     separator_events separator (map fst (filter (\<lambda>(i, b). b = CHR ''@'') (plain_at (q, e) i s)))"
  by (induction q e separator i s rule: find_separator.induct)
    (simp_all add: quote_step_def plain_def)

lemma separator_events_Some:
  "separator_events None is = Some (Some i) \<Longrightarrow> is = [i]"
  by (cases "is" rule: remdups_adj.cases) simp_all

lemma count_list_map_snd:
  "count_list (map snd evs) c = length (filter (\<lambda>(i, b). b = c) evs)"
  by (induction evs) auto

lemma address_domain_count:
  assumes "address_domain neutral address = Some d"
  shows "count_list (plain_bytes address) CHR ''@'' = 1"
proof -
  let ?evs = "filter (\<lambda>(i, b). b = CHR ''@'') (plain_at neutral 0 address)"
  obtain i where "find_separator False False None 0 address = Some (Some i)"
    using assms by (auto simp: address_domain_def split: option.splits)
  then have "map fst ?evs = [i]"
    by (simp add: find_separator_events separator_events_Some)
  then have "length ?evs = 1"
    by (metis length_map length_Cons list.size(3) One_nat_def)
  then show ?thesis
    by (simp add: plain_bytes_def count_list_map_snd)
qed

lemma find_separator_split:
  assumes "find_separator q e None 0 address = Some (Some i)"
  obtains a b where "address = a @ CHR ''@'' # b" and "i = length a" and "quoting (q, e) a = neutral"
proof -
  let ?at = "\<lambda>(i, b). b = CHR ''@''"
  from assms have "map fst (filter ?at (plain_at (q, e) 0 address)) = [i]"
    by (simp add: find_separator_events separator_events_Some)
  then have "filter ?at (plain_at (q, e) 0 address) = [(i, CHR ''@'')]"
    using filter_eq_ConsD by fastforce
  then have "(i, CHR ''@'') \<in> set (plain_at (q, e) 0 address)"
    by (metis filter_is_subset list.set_intros(1) subsetD)
  then obtain evs evs' where "plain_at (q, e) 0 address = evs @ (i, CHR ''@'') # evs'"
    by (meson split_list)
  then obtain a b where "address = a @ CHR ''@'' # b" "i = 0 + length a" "quoting (q, e) a = neutral"
    by (rule plain_at_split)
  with that show ?thesis
    by simp
qed

lemma address_domain_split:
  assumes "address_domain neutral address = Some d"
  obtains a b where "address = a @ CHR ''@'' # b" and "quoting neutral a = neutral"
    and "local_part (trim a)" and "d = lowercase (trim_end_matches CHR ''.'' (trim b))"
proof -
  obtain i where sep: "find_separator False False None 0 address = Some (Some i)"
    and i: "local_part (trim (take i address))"
      "d = lowercase (trim_end_matches CHR ''.'' (trim (drop (i + 1) address)))"
    using assms by (auto simp: address_domain_def Let_def split: option.splits if_splits)
  from sep obtain a b where "address = a @ CHR ''@'' # b" "i = length a" "quoting neutral a = neutral"
    by (rule find_separator_split)
  with i that show ?thesis
    by simp
qed

lemma display_loop_plain:
  assumes "display_loop q e s"
  shows "quoting (q, e) s = neutral"
    and "(i, b) \<in> set (plain_at (q, e) k s) \<Longrightarrow>
      atom_byte b \<or> b = CHR ''.'' \<or> is_ascii_whitespace b \<or> \<not> is_ascii b"
  using assms
  by (induction q e s arbitrary: k rule: display_loop.induct)
    (auto simp: quote_step_def plain_def split: if_splits)

lemma plain_bytes_structural:
  "(\<forall>b \<in> set (plain_bytes s). \<not> structural b) \<longleftrightarrow>
     filter (\<lambda>(i, b). structural b) (plain_at neutral 0 s) = []"
  by (auto simp: plain_bytes_def filter_empty_conv)

text \<open>Either there is no bracket, or one pair of them splits the text.\<close>

lemma find_angles_split:
  assumes "find_angles False False None None 0 text = Some (flags, start, end')"
  obtains (whole) "start = None" and "end' = None" and "\<forall>b \<in> set (plain_bytes text). \<not> structural b"
  | (lone) i where "start = Some i" and "end' = None"
  | (angle) pre mid post where "text = pre @ CHR ''<'' # mid @ CHR ''>'' # post"
      and "start = Some (length pre)" and "end' = Some (Suc (length pre + length mid))"
      and "quoting neutral pre = neutral" and "quoting neutral mid = neutral"
      and "\<forall>b \<in> set (plain_bytes pre) \<union> set (plain_bytes mid) \<union> set (plain_bytes post). \<not> structural b"
proof -
  let ?p = "\<lambda>(i, b). structural b"
  let ?evs = "filter ?p (plain_at neutral 0 text)"
  have "angle_events None None ?evs = Some (start, end')"
    using assms by (auto simp: find_angles_events)
  note cases = angle_events_Some [OF this]
  consider "?evs = []" "start = None" "end' = None"
    | i where "start = Some i" "end' = None"
    | i j where "?evs = [(i, CHR ''<''), (j, CHR ''>'')]" "start = Some i" "end' = Some j"
    using cases by blast
  then show ?thesis
  proof cases
    case 1
    then show ?thesis
      using that(1) by (simp add: plain_bytes_structural)
  next
    case 2
    then show ?thesis
      by (rule that(2))
  next
    case (3 i j)
    obtain u v where uv: "plain_at neutral 0 text = u @ (i, CHR ''<'') # v" "filter ?p u = []"
      "filter ?p v = [(j, CHR ''>'')]"
      using 3(1) by (rule filter_eq_Cons_split)
    obtain v1 v2 where v: "v = v1 @ (j, CHR ''>'') # v2" "filter ?p v1 = []" "filter ?p v2 = []"
      using uv(3) by (rule filter_eq_Cons_split)
    obtain pre rest where pre: "text = pre @ CHR ''<'' # rest" "i = 0 + length pre"
      "quoting neutral pre = neutral" "plain_at neutral 0 pre = u" "plain_at neutral (Suc i) rest = v"
      using uv(1) by (rule plain_at_split)
    obtain mid post where mid: "rest = mid @ CHR ''>'' # post" "j = Suc i + length mid"
      "quoting neutral mid = neutral" "plain_at neutral (Suc i) mid = v1"
      "plain_at neutral (Suc j) post = v2"
      using pre(5) v(1) by (metis plain_at_split)
    have clean: "\<forall>b \<in> set (plain_bytes s). \<not> structural b"
      if "filter ?p (plain_at neutral k s) = []" for k s
      using that plain_at_shift [of neutral 0 s k]
      by (auto simp: plain_bytes_def filter_empty_conv)
    show ?thesis
    proof (rule that(3))
      show "text = pre @ CHR ''<'' # mid @ CHR ''>'' # post"
        by (simp only: pre(1) mid(1))
      show "start = Some (length pre)" "end' = Some (Suc (length pre + length mid))"
        using 3(2,3) pre(2) mid(2) by simp_all
      show "\<forall>b \<in> set (plain_bytes pre) \<union> set (plain_bytes mid) \<union> set (plain_bytes post). \<not> structural b"
        using pre(4) mid(4,5) uv(2) v(2,3) clean [of 0 pre] clean [of "Suc i" mid] clean [of "Suc j" post]
        by blast
    qed (fact pre(3) mid(3))+
  qed
qed

text \<open>Either the whole text is the address, or it is what the one pair of brackets holds.\<close>

lemma find_address_Some:
  assumes "find_address text = Some (flags, address)"
  shows "address = text \<and> (\<forall>b \<in> set (plain_bytes text). \<not> structural b) \<or>
    (\<exists>pre mid post. text = pre @ CHR ''<'' # mid @ CHR ''>'' # post \<and>
      quoting neutral pre = neutral \<and> quoting neutral mid = neutral \<and>
      display_name pre \<and> trim post = [] \<and> address = trim mid \<and>
      (\<forall>b \<in> set (plain_bytes pre) \<union> set (plain_bytes mid) \<union> set (plain_bytes post). \<not> structural b))"
proof -
  obtain start end' where se: "find_angles False False None None 0 text = Some (flags, start, end')"
    using assms by (auto simp: find_address_def split: option.splits if_splits)
  then show ?thesis
  proof (cases rule: find_angles_split)
    case (angle pre mid post)
    have "find_address text = (if \<not> display_name pre \<or> trim post \<noteq> [] then None else Some (flags, trim mid))"
      using se angle(1-3) by (simp add: find_address_def)
    with assms have "display_name pre" "trim post = []" "address = trim mid"
      by (auto split: if_splits)
    with angle show ?thesis
      by blast
  qed (use assms se in \<open>simp_all add: find_address_def\<close>)
qed

lemma find_address_flags: "find_address text = Some (flags, address) \<Longrightarrow> flags = quoting neutral text"
  by (auto simp: find_address_def find_angles_events split: option.splits if_splits)

lemma visible_at [simp]: "visible CHR ''@''"
  by (simp add: visible_def code_def)

lemma display_name_no_at:
  assumes "display_name s"
  shows "quoting neutral s = neutral" and "count_list (plain_bytes s) CHR ''@'' = 0"
proof -
  have "\<not> (atom_byte CHR ''@'' \<or> is_ascii_whitespace CHR ''@'' \<or> \<not> is_ascii CHR ''@'')"
    by (simp add: atom_byte_def byte_simps)
  then have "(i, CHR ''@'') \<notin> set (plain_at neutral 0 s)" for i
    using assms display_loop_plain(2) [of False False s i "CHR ''@''" 0]
    by (auto simp: display_name_def)
  then show "count_list (plain_bytes s) CHR ''@'' = 0"
    by (auto simp: count_list_0_iff plain_bytes_def)
qed (use assms display_loop_plain(1) [of False False s] in \<open>simp add: display_name_def\<close>)

lemma trim_Nil_no_visible: "trim s = [] \<Longrightarrow> visible c \<Longrightarrow> count_list (plain_bytes s) c = 0"
  using count_plain_trim [of c s] by (simp add: plain_bytes_def)

lemma find_address_count_at:
  assumes "find_address text = Some (flags, address)"
  shows "count_list (plain_bytes address) CHR ''@'' = count_list (plain_bytes text) CHR ''@''"
  using find_address_Some [OF assms]
proof (elim disjE exE conjE)
  fix pre mid post
  assume parts: "text = pre @ CHR ''<'' # mid @ CHR ''>'' # post"
    and q: "quoting neutral pre = neutral" "quoting neutral mid = neutral"
    and "display_name pre" "trim post = []" "address = trim mid"
  then show ?thesis
    using display_name_no_at(2) [of pre] trim_Nil_no_visible [of post "CHR ''@''"]
    by (simp add: plain_bytes_append plain_bytes_Cons count_plain_trim)
qed simp

text \<open>In the comment-free text, the only structural bytes are one matched pair of angle
  brackets, or none.\<close>

lemma find_address_structural:
  assumes "find_address text = Some (flags, address)"
  shows "filter structural (plain_bytes text) = [] \<or> filter structural (plain_bytes text) = ''<>''"
  using find_address_Some [OF assms]
proof (elim disjE exE conjE)
  fix pre mid post
  assume parts: "text = pre @ CHR ''<'' # mid @ CHR ''>'' # post"
    and q: "quoting neutral pre = neutral" "quoting neutral mid = neutral"
    and "\<forall>b \<in> set (plain_bytes pre) \<union> set (plain_bytes mid) \<union> set (plain_bytes post). \<not> structural b"
  moreover have "structural CHR ''<''" "structural CHR ''>''"
    by (simp_all add: structural_def)
  ultimately show ?thesis
    by (simp add: plain_bytes_append plain_bytes_Cons filter_empty_conv [THEN iffD2] ball_Un)
qed (simp add: filter_empty_conv)

lemma from_domain_single_mailbox:
  assumes "from_domain v = Some d"
  obtains mbox address where "mailbox_text v = Some mbox" and "find_address mbox = Some (neutral, address)"
    and "address_domain neutral address = Some d"
    and "count_list (plain_bytes mbox) CHR ''@'' = 1"
    and "filter structural (plain_bytes mbox) \<in> {[], ''<>''}"
proof -
  obtain mbox flags address where m: "mailbox_text v = Some mbox" "find_address mbox = Some (flags, address)"
    "address_domain flags address = Some d"
    using from_domain_Some [OF assms] by blast
  have "flags = neutral"
    using find_address_flags [OF m(2)] passes_start_neutral [OF m(1)] by simp
  with m have mb: "mailbox_text v = Some mbox" "find_address mbox = Some (neutral, address)"
    "address_domain neutral address = Some d"
    by simp_all
  show ?thesis
    using that mb find_address_structural [OF mb(2)] find_address_count_at [OF mb(2)]
      address_domain_count [OF mb(3)] by auto
qed

section \<open>Plain and named addresses are accepted\<close>

text \<open>Bytes no pass treats specially, apart from the structural ones and the at-sign.\<close>

definition ordinary :: "byte \<Rightarrow> bool" where
  "ordinary b \<longleftrightarrow> is_ascii b \<and> \<not> is_ascii_control b \<and> b \<notin> set ''()'' \<and> b \<noteq> DQUOTE"

lemma unfold_value_ordinary:
  "list_all ordinary s \<Longrightarrow> unfold_value s = Some s"
  by (induction s rule: unfold_value.induct) (auto simp: ordinary_def is_ascii_control_def code_def)

lemma strip_comments_ordinary:
  "list_all ordinary s \<Longrightarrow>
     strip_comments False False 0 mbox (s @ r) = strip_comments False False 0 (mbox @ s) r"
  by (induction s arbitrary: mbox) (auto simp: ordinary_def)

lemma mailbox_text_ordinary:
  assumes "list_all ordinary s"
  shows "mailbox_text s = Some (trim s)"
proof -
  have "utf8_valid s"
    using assms by (intro utf8_valid_ascii) (auto simp: ordinary_def list_all_iff)
  then show ?thesis
    using assms strip_comments_ordinary [OF assms, of "[]" "[]"]
    by (simp add: mailbox_text_def unfold_value_ordinary)
qed

lemma quoting_no_dquote: "DQUOTE \<notin> set s \<Longrightarrow> quoting neutral s = neutral"
  by (induction s) (auto simp: quote_step_def)

lemma plain_at_byte:
  "quoting neutral s = neutral \<Longrightarrow> b \<noteq> DQUOTE \<Longrightarrow>
     plain_at neutral k (s @ b # t) =
     plain_at neutral k s @ (k + length s, b) # plain_at neutral (Suc (k + length s)) t"
  by (simp add: plain_at_append plain_def quote_step_def)

lemma filter_plain_at_none:
  "\<forall>b \<in> set s. \<not> p b \<Longrightarrow> filter (\<lambda>(i, b). p b) (plain_at st k s) = []"
  by (auto simp: filter_empty_conv dest: set_plain_at)

lemma atom_byte_ordinary:
  "atom_byte b \<Longrightarrow> visible b \<and> ordinary b \<and> \<not> structural b \<and> b \<noteq> CHR ''@''"
  by (auto simp: atom_byte_def ordinary_def structural_def visible_def byte_simps)

lemma domain_byte_ordinary:
  "domain_byte b \<Longrightarrow> visible b \<and> ordinary b \<and> \<not> structural b \<and> b \<noteq> CHR ''@''"
  by (auto simp: domain_byte_def ordinary_def structural_def visible_def byte_simps)

definition dot_atom :: "bytes \<Rightarrow> bool" where
  "dot_atom l \<longleftrightarrow> l \<noteq> [] \<and> list_all (\<lambda>part. part \<noteq> [] \<and> list_all atom_byte part) (split_on CHR ''.'' l)"

lemma dot_atom_bytes: "dot_atom l \<Longrightarrow> b \<in> set l \<Longrightarrow> atom_byte b \<or> b = CHR ''.''"
  using set_join_subset [of "''.''" "split_on CHR ''.'' l"]
  by (fastforce simp: dot_atom_def list_all_iff)

lemma dot_byte: "visible CHR ''.''" "ordinary CHR ''.''" "\<not> structural CHR ''.''"
  by (simp_all add: visible_def ordinary_def structural_def byte_simps)

lemma dot_atom_ordinary:
  assumes "dot_atom l"
  shows "\<forall>b \<in> set l. visible b \<and> ordinary b \<and> \<not> structural b \<and> b \<noteq> CHR ''@''"
  using dot_atom_bytes [OF assms] atom_byte_ordinary dot_byte by fastforce

lemma dot_atom_local_part: "dot_atom l \<Longrightarrow> local_part l"
  using dot_atom_ordinary [of l] by (cases l) (auto simp: local_part_def dot_atom_def ordinary_def)

definition host_name :: "bytes \<Rightarrow> bool" where
  "host_name d \<longleftrightarrow> d \<noteq> [] \<and> list_all domain_byte d \<and> last d \<noteq> CHR ''.''"

lemma host_name_ordinary:
  "host_name d \<Longrightarrow> \<forall>b \<in> set d. visible b \<and> ordinary b \<and> \<not> structural b \<and> b \<noteq> CHR ''@''"
  using domain_byte_ordinary by (simp add: host_name_def list_all_iff)

lemma trim_all_visible: "\<forall>b \<in> set s. visible b \<Longrightarrow> trim s = s"
  by (cases "s = []") (simp_all add: trim_visible)

lemma address_domain_addr_spec:
  assumes l: "dot_atom l" and d: "host_name d"
  shows "address_domain neutral (l @ CHR ''@'' # d) = Some (lowercase d)"
proof -
  let ?s = "l @ CHR ''@'' # d"
  note ord = dot_atom_ordinary [OF l] host_name_ordinary [OF d]
  have "DQUOTE \<notin> set l" and "\<forall>b \<in> set l. b \<noteq> CHR ''@''" and "\<forall>b \<in> set d. b \<noteq> CHR ''@''"
    using ord by (auto simp: ordinary_def)
  then have "find_separator False False None 0 ?s = Some (Some (length l))"
    by (simp add: find_separator_events plain_at_byte quoting_no_dquote filter_plain_at_none)
  then show ?thesis
    using ord l d
    by (simp add: address_domain_def trim_all_visible dot_atom_local_part trim_end_matches_id
        host_name_def)
qed

definition bare_bytes :: "bytes \<Rightarrow> bool" where
  "bare_bytes a \<longleftrightarrow> a \<noteq> [] \<and> (\<forall>b \<in> set a. visible b \<and> ordinary b \<and> \<not> structural b)"

lemma from_domain_bare:
  assumes "bare_bytes a"
  shows "from_domain a = address_domain neutral a"
proof -
  have "list_all ordinary a" "\<forall>b \<in> set a. visible b"
    using assms by (simp_all add: bare_bytes_def list_all_iff)
  then have "mailbox_text a = Some a"
    by (simp add: mailbox_text_ordinary trim_all_visible)
  moreover have "quoting neutral a = neutral"
    using assms by (intro quoting_no_dquote) (auto simp: bare_bytes_def ordinary_def)
  then have "find_address a = Some (neutral, a)"
    using assms filter_plain_at_none [of a structural neutral 0]
    by (simp add: find_address_def find_angles_events bare_bytes_def)
  ultimately show ?thesis
    by (simp add: from_domain_def)
qed

definition phrase :: "bytes \<Rightarrow> bool" where
  "phrase p \<longleftrightarrow> list_all (\<lambda>b. atom_byte b \<or> b = CHR ''.'' \<or> b = SP) p \<and> (p = [] \<or> hd p \<noteq> SP)"

lemma phrase_bytes:
  assumes "phrase p"
  shows "\<forall>b \<in> set p. ordinary b \<and> \<not> structural b" and "display_name p"
    and "quoting neutral p = neutral" and "p = [] \<or> visible (hd p)"
proof -
  have "ordinary SP \<and> \<not> structural SP"
    by (simp add: ordinary_def structural_def byte_simps)
  then have "ordinary b \<and> \<not> structural b" if "atom_byte b \<or> b = CHR ''.'' \<or> b = SP" for b
    using that atom_byte_ordinary [of b] dot_byte by blast
  then show *: "\<forall>b \<in> set p. ordinary b \<and> \<not> structural b"
    using assms unfolding phrase_def list_all_iff by blast
  then show "quoting neutral p = neutral"
    by (intro quoting_no_dquote) (auto simp: ordinary_def)
  have "display_loop False False s" if "list_all (\<lambda>b. atom_byte b \<or> b = CHR ''.'' \<or> b = SP) s" for s
    using that atom_byte_ordinary
    by (induction s) (auto simp: is_ascii_whitespace_def ordinary_def)
  then show "display_name p"
    using assms by (simp add: phrase_def display_name_def)
  show "p = [] \<or> visible (hd p)"
    using assms atom_byte_ordinary dot_byte by (cases p) (auto simp: phrase_def)
qed

lemma find_angles_brackets:
  assumes "quoting neutral p = neutral" and "quoting neutral a = neutral"
    and "\<forall>b \<in> set p. \<not> structural b" and "\<forall>b \<in> set a. \<not> structural b"
  shows "find_angles False False None None 0 (p @ CHR ''<'' # a @ CHR ''>'' # []) =
    Some (neutral, Some (length p), Some (length p + length a + 1))"
proof -
  have "structural CHR ''<''" "structural CHR ''>''"
    by (simp_all add: structural_def)
  then show ?thesis
    using assms by (simp add: find_angles_events plain_at_byte filter_plain_at_none quote_step_def)
qed

lemma from_domain_bracketed:
  assumes "phrase p" and "bare_bytes a"
  shows "from_domain (p @ CHR ''<'' # a @ CHR ''>'' # []) = address_domain neutral a"
proof -
  let ?s = "p @ CHR ''<'' # a @ CHR ''>'' # []"
  note p = phrase_bytes [OF assms(1)]
  have br: "visible CHR ''<''" "visible CHR ''>''" "ordinary CHR ''<''" "ordinary CHR ''>''"
    by (simp_all add: visible_def ordinary_def byte_simps)
  have a: "\<forall>b \<in> set a. visible b" "\<forall>b \<in> set a. ordinary b" "\<forall>b \<in> set a. \<not> structural b"
    using assms(2) by (simp_all add: bare_bytes_def)
  have "list_all ordinary ?s"
    using p(1) a(2) br by (simp add: list_all_iff ball_Un)
  moreover have "trim ?s = ?s"
    using p(4) br by (intro trim_visible) (auto simp: hd_append)
  ultimately have "mailbox_text ?s = Some ?s"
    by (simp add: mailbox_text_ordinary)
  moreover have "quoting neutral a = neutral"
    using a(2) by (intro quoting_no_dquote) (auto simp: ordinary_def)
  then have "find_address ?s = Some (neutral, a)"
    using find_angles_brackets [of p a] p a by (simp add: find_address_def trim_all_visible)
  ultimately show ?thesis
    by (simp add: from_domain_def)
qed

lemma addr_spec_bare:
  assumes "dot_atom l" and "host_name d"
  shows "bare_bytes (l @ CHR ''@'' # d)"
proof -
  have "ordinary CHR ''@''" "\<not> structural CHR ''@''"
    by (simp_all add: ordinary_def structural_def byte_simps)
  then show ?thesis
    using dot_atom_ordinary [OF assms(1)] host_name_ordinary [OF assms(2)]
    by (simp add: bare_bytes_def ball_Un)
qed

lemmas from_domain_addr_spec = trans [OF from_domain_bare [OF addr_spec_bare] address_domain_addr_spec]
lemmas from_domain_name_addr =
  trans [OF from_domain_bracketed [OF _ addr_spec_bare] address_domain_addr_spec]

section \<open>A comment is a space\<close>

lemma unfold_value_append:
  "CR \<notin> set a \<Longrightarrow> unfold_value (a @ b) =
     (if list_ex (\<lambda>b. is_ascii_control b \<and> b \<noteq> TAB) a then None
      else map_option (\<lambda>u. a @ u) (unfold_value b))"
  by (cases "unfold_value b"; induction a) auto

lemma strip_comments_outside:
  "DQUOTE \<notin> set a \<Longrightarrow> CHR ''('' \<notin> set a \<Longrightarrow> CHR '')'' \<notin> set a \<Longrightarrow>
     strip_comments False False 0 mbox (a @ r) = strip_comments False False 0 (mbox @ a) r"
  by (induction a arbitrary: mbox) auto

lemma strip_comments_inside:
  "BACKSLASH \<notin> set c \<Longrightarrow> CHR ''('' \<notin> set c \<Longrightarrow> CHR '')'' \<notin> set c \<Longrightarrow>
     strip_comments False False 1 mbox (c @ CHR '')'' # r) = strip_comments False False 0 mbox r"
  by (induction c) auto

lemma from_domain_comment:
  assumes "CR \<notin> set (a @ c)" and "set a \<inter> {DQUOTE, CHR ''('', CHR '')''} = {}"
    and "set c \<inter> {BACKSLASH, CHR ''('', CHR '')''} = {}"
    and "\<not> list_ex (\<lambda>b. is_ascii_control b \<and> b \<noteq> TAB) c"
  shows "from_domain (a @ ''('' @ c @ '')'' @ b) = from_domain (a @ [SP] @ b)"
proof -
  have paren: "\<not> is_ascii_control CHR ''(''" "\<not> is_ascii_control CHR '')''" "\<not> is_ascii_control SP"
    by (simp_all add: byte_simps)
  have "mailbox_text (a @ ''('' @ c @ '')'' @ b) = mailbox_text (a @ [SP] @ b)"
    using assms paren
    by (cases "unfold_value b")
      (auto simp: mailbox_text_def unfold_value_append strip_comments_outside
        strip_comments_inside [simplified])
  then show ?thesis
    by (simp only: from_domain_def)
qed

section \<open>Properties\<close>

text \<open>A domain that \<open>from_domain\<close> returns is a non-empty lower-case string of letters,
  digits, hyphens and dots that does not end in a dot: nothing of it can break out of the
  \<open>d=\<close> comparison.\<close>

theorem from_domain_shape:
  assumes "from_domain v = Some d"
  shows "d \<noteq> [] \<and> (\<forall>b \<in> set d. domain_byte b \<and> \<not> is_ascii_upper b) \<and> last d \<noteq> CHR ''.''"
  using from_domain_Some [OF assms] address_domain_Some by blast

lemma from_domain_shape_witness:
  "''ex.org'' \<noteq> [] \<and> list_all (\<lambda>b. domain_byte b \<and> \<not> is_ascii_upper b) ''ex.org'' \<and> last ''ex.org'' \<noteq> CHR ''.''"
proof -
  have "from_domain ''a@Ex.Org.'' = Some ''ex.org''"
    by code_simp
  from from_domain_shape [OF this] show ?thesis
    unfolding list_all_iff by blast
qed

text \<open>C22: a From field that is accepted holds one mailbox: outside quoted strings, its text has
  exactly one at sign, and no structural punctuation but one pair of angle brackets.\<close>

theorem from_domain_one_mailbox:
  assumes "from_domain v = Some d"
  shows "\<exists>mbox. mailbox_text v = Some mbox \<and> count_list (plain_bytes mbox) CHR ''@'' = 1 \<and>
    filter structural (plain_bytes mbox) \<in> {[], ''<>''}"
  using from_domain_single_mailbox [OF assms] by blast

lemma from_domain_one_mailbox_witness:
  "\<exists>mbox. mailbox_text ''Ann <a@ex.org>'' = Some mbox \<and> count_list (plain_bytes mbox) CHR ''@'' = 1 \<and>
    filter structural (plain_bytes mbox) \<in> {[], ''<>''}"
  by (rule from_domain_one_mailbox [of _ "''ex.org''"]) code_simp

text \<open>C30: every plain mailbox is accepted with its domain in lower case: a dot-atom, an at sign
  and a host name, alone or in angle brackets after a phrase.\<close>

theorem from_domain_accepts:
  assumes "dot_atom l" and "host_name d" and "phrase p"
  shows "from_domain (l @ CHR ''@'' # d) = Some (lowercase d) \<and>
    from_domain (p @ CHR ''<'' # (l @ CHR ''@'' # d) @ CHR ''>'' # []) = Some (lowercase d)"
  using from_domain_addr_spec [OF assms(1,2,1,2)] from_domain_name_addr [OF assms(3,1,2,1,2)] by simp_all

lemma from_domain_accepts_witness:
  "from_domain ''a.b@Ex.org'' = Some (lowercase ''Ex.org'') \<and>
   from_domain ''Ann B. <a.b@Ex.org>'' = Some (lowercase ''Ex.org'')"
proof -
  have "dot_atom ''a.b''" "host_name ''Ex.org''" "phrase ''Ann B. ''"
    by code_simp+
  from from_domain_accepts [OF this] show ?thesis
    by simp
qed

text \<open>A comment counts as one space, so punctuation inside it, an at sign or a second
  address, cannot change the domain that is compared.\<close>

theorem from_domain_comment_space:
  assumes "CR \<notin> set (a @ c)" and "set a \<inter> {DQUOTE, CHR ''('', CHR '')''} = {}"
    and "set c \<inter> {BACKSLASH, CHR ''('', CHR '')''} = {}"
    and "\<not> list_ex (\<lambda>b. is_ascii_control b \<and> b \<noteq> TAB) c"
  shows "from_domain (a @ ''('' @ c @ '')'' @ b) = from_domain (a @ [SP] @ b)"
  using assms by (rule from_domain_comment)

lemma from_domain_comment_space_witness:
  "from_domain (''a@ex.org '' @ ''('' @ ''b@evil.com, <c@d>'' @ '')'' @ []) = from_domain (''a@ex.org '' @ [SP] @ [])"
  by (rule from_domain_comment_space) (simp_all add: byte_simps)

end
