(* ===== verification/Net_Addr.thy ===== *)
theory Net_Addr
  imports Rust_Std
begin

text \<open>
  \<open>std::net::SocketAddr\<close> and its \<open>FromStr\<close> as far as the listen setting uses them: the
  recursive-descent reader of the standard library (\<open>core::net::parser\<close>) for
  \<open>a.b.c.d:port\<close> and \<open>[ipv6%scope]:port\<close>, and \<open>is_loopback\<close>. Every reader either takes a
  prefix of its input or fails and leaves it, and the whole input must be used up. And its
  \<open>Display\<close>, which the error messages use; what it prints of a loopback address is read back.
\<close>

type_synonym octet = nat

datatype ip_addr = V4 octet octet octet octet | V6 "nat list"

record socket_addr =
  sa_ip :: ip_addr
  sa_port :: nat
  sa_scope :: nat

type_synonym 'a reader = "bytes \<Rightarrow> ('a \<times> bytes) option"

definition to_digit :: "nat \<Rightarrow> byte \<Rightarrow> nat option" where
  "to_digit radix b =
     (let d = (if is_ascii_digit b then code b - 48
               else if is_ascii_lower b then code b - 87
               else if is_ascii_upper b then code b - 55
               else radix)
      in if d < radix then Some d else None)"

definition read_given_char :: "byte \<Rightarrow> unit reader" where
  "read_given_char c s = (case s of [] \<Rightarrow> None | b # s' \<Rightarrow> if b = c then Some ((), s') else None)"

text \<open>The digit loop: with \<open>max_digits\<close> a digit too many fails, without it the checked
  arithmetic against \<open>limit\<close> does.\<close>

fun read_digits :: "nat \<Rightarrow> nat option \<Rightarrow> nat \<Rightarrow> nat \<Rightarrow> nat \<Rightarrow> (nat \<times> nat) reader" where
  "read_digits radix max_digits limit count acc [] = Some ((acc, count), [])"
| "read_digits radix max_digits limit count acc (b # s) =
     (case to_digit radix b of
        None \<Rightarrow> Some ((acc, count), b # s)
      | Some d \<Rightarrow>
          let acc' = acc * radix + d; count' = count + 1
          in if (case max_digits of Some m \<Rightarrow> m < count' | None \<Rightarrow> limit < acc') then None
             else read_digits radix max_digits limit count' acc' s)"

definition read_number :: "nat \<Rightarrow> nat option \<Rightarrow> bool \<Rightarrow> nat \<Rightarrow> nat reader" where
  "read_number radix max_digits allow_zero_prefix limit s =
     (case read_digits radix max_digits limit 0 0 s of
        None \<Rightarrow> None
      | Some ((v, count), s') \<Rightarrow>
          if count = 0 then None
          else if \<not> allow_zero_prefix \<and> hd s = CHR ''0'' \<and> 1 < count then None
          else if v \<le> limit then Some (v, s') else None)"

definition read_separator :: "byte \<Rightarrow> nat \<Rightarrow> 'a reader \<Rightarrow> 'a reader" where
  "read_separator sep index inner s =
     (if 0 < index
      then (case read_given_char sep s of None \<Rightarrow> None | Some (_, s') \<Rightarrow> inner s')
      else inner s)"

abbreviation read_octet :: "octet reader" where
  "read_octet \<equiv> read_number 10 (Some 3) False 255"

definition read_ipv4_addr :: "ip_addr reader" where
  "read_ipv4_addr s =
     (case read_separator CHR ''.'' 0 read_octet s of None \<Rightarrow> None
      | Some (a, s) \<Rightarrow> (case read_separator CHR ''.'' 1 read_octet s of None \<Rightarrow> None
      | Some (b, s) \<Rightarrow> (case read_separator CHR ''.'' 2 read_octet s of None \<Rightarrow> None
      | Some (c, s) \<Rightarrow> (case read_separator CHR ''.'' 3 read_octet s of None \<Rightarrow> None
      | Some (d, s) \<Rightarrow> Some (V4 a b c d, s)))))"

text \<open>\<open>read_groups\<close>: up to \<open>left\<close> more groups at index \<open>i\<close>; an embedded IPv4 address ends it.\<close>

fun read_groups :: "nat \<Rightarrow> nat \<Rightarrow> nat list \<Rightarrow> bytes \<Rightarrow> nat list \<times> bool \<times> bytes" where
  "read_groups 0 i groups s = (groups, False, s)"
| "read_groups (Suc left) i groups s =
     (case (if 0 < left then read_separator CHR '':'' i read_ipv4_addr s else None) of
        Some (V4 a b c d, s') \<Rightarrow> (groups @ [a * 256 + b, c * 256 + d], True, s')
      | _ \<Rightarrow>
        (case read_separator CHR '':'' i (read_number 16 (Some 4) True 65535) s of
           None \<Rightarrow> (groups, False, s)
         | Some (g, s') \<Rightarrow> read_groups left (Suc i) (groups @ [g]) s'))"

definition read_ipv6_addr :: "ip_addr reader" where
  "read_ipv6_addr s =
     (case read_groups 8 0 [] s of (head, head_ipv4, s) \<Rightarrow>
        if length head = 8 then Some (V6 head, s)
        else if head_ipv4 then None
        else (case read_given_char CHR '':'' s of None \<Rightarrow> None
        | Some (_, s) \<Rightarrow> (case read_given_char CHR '':'' s of None \<Rightarrow> None
        | Some (_, s) \<Rightarrow>
            (case read_groups (8 - (length head + 1)) 0 [] s of (tail, _, s) \<Rightarrow>
               Some (V6 (head @ replicate (8 - length head - length tail) 0 @ tail), s)))))"

definition read_port :: "nat reader" where
  "read_port s =
     (case read_given_char CHR '':'' s of None \<Rightarrow> None
      | Some (_, s) \<Rightarrow> read_number 10 None True 65535 s)"

definition read_scope_id :: "nat reader" where
  "read_scope_id s =
     (case read_given_char CHR ''%'' s of None \<Rightarrow> None
      | Some (_, s) \<Rightarrow> read_number 10 None True (2 ^ 32 - 1) s)"

definition read_socket_addr_v4 :: "socket_addr reader" where
  "read_socket_addr_v4 s =
     (case read_ipv4_addr s of None \<Rightarrow> None
      | Some (ip, s) \<Rightarrow> (case read_port s of None \<Rightarrow> None
      | Some (port, s) \<Rightarrow> Some (\<lparr>sa_ip = ip, sa_port = port, sa_scope = 0\<rparr>, s)))"

definition read_socket_addr_v6 :: "socket_addr reader" where
  "read_socket_addr_v6 s =
     (case read_given_char CHR ''['' s of None \<Rightarrow> None
      | Some (_, s) \<Rightarrow> (case read_ipv6_addr s of None \<Rightarrow> None
      | Some (ip, s) \<Rightarrow>
          (case (case read_scope_id s of None \<Rightarrow> (0, s) | Some r \<Rightarrow> r) of (scope, s) \<Rightarrow>
             (case read_given_char CHR '']'' s of None \<Rightarrow> None
              | Some (_, s) \<Rightarrow> (case read_port s of None \<Rightarrow> None
              | Some (port, s) \<Rightarrow> Some (\<lparr>sa_ip = ip, sa_port = port, sa_scope = scope\<rparr>, s))))))"

definition parse_socket_addr :: "bytes \<Rightarrow> socket_addr option" where
  "parse_socket_addr s =
     (case (case read_socket_addr_v4 s of None \<Rightarrow> read_socket_addr_v6 s | r \<Rightarrow> r) of
        Some (addr, []) \<Rightarrow> Some addr
      | _ \<Rightarrow> None)"

fun is_loopback :: "ip_addr \<Rightarrow> bool" where
  "is_loopback (V4 a b c d) = (a = 127)"
| "is_loopback (V6 groups) = (groups = [0, 0, 0, 0, 0, 0, 0, 1])"

section \<open>Display\<close>

fun hex :: "nat \<Rightarrow> bytes" where
  "hex n = (if n < 16 then [] else hex (n div 16)) @
     [char_of (if n mod 16 < 10 then 48 + n mod 16 else 87 + n mod 16)]"

declare hex.simps [simp del]

text \<open>The first of the longest runs of zero groups, as its start and length.\<close>

definition longest_zeros :: "nat list \<Rightarrow> nat \<times> nat" where
  "longest_zeros groups =
     fold (\<lambda>i best. let n = length (takeWhile (\<lambda>g. g = 0) (drop i groups)) in if snd best < n then (i, n) else best)
       [0..<length groups] (0, 0)"

definition ipv4_text :: "nat \<Rightarrow> nat \<Rightarrow> nat \<Rightarrow> nat \<Rightarrow> bytes" where
  "ipv4_text a b c d = dec a @ ''.'' @ dec b @ ''.'' @ dec c @ ''.'' @ dec d"

definition groups_text :: "nat list \<Rightarrow> bytes" where
  "groups_text groups = join '':'' (map hex groups)"

fun ip_text :: "ip_addr \<Rightarrow> bytes" where
  "ip_text (V4 a b c d) = ipv4_text a b c d"
| "ip_text (V6 groups) =
     (if take 6 groups = [0, 0, 0, 0, 0, 65535] \<and> length groups = 8
      then ''::ffff:'' @ ipv4_text (groups ! 6 div 256) (groups ! 6 mod 256) (groups ! 7 div 256) (groups ! 7 mod 256)
      else case longest_zeros groups of (start, n) \<Rightarrow>
        if 1 < n then groups_text (take start groups) @ ''::'' @ groups_text (drop (start + n) groups)
        else groups_text groups)"

definition socket_addr_text :: "socket_addr \<Rightarrow> bytes" where
  "socket_addr_text sa =
     (case sa_ip sa of
        V4 _ _ _ _ \<Rightarrow> ip_text (sa_ip sa) @ '':'' @ dec (sa_port sa)
      | V6 _ \<Rightarrow> ''['' @ ip_text (sa_ip sa) @ (if sa_scope sa = 0 then [] else ''%'' @ dec (sa_scope sa)) @ '']:'' @
          dec (sa_port sa))"

section \<open>Reading back what was printed\<close>

text \<open>A tail at which a decimal number ends.\<close>

definition ends_number :: "bytes \<Rightarrow> bool" where
  "ends_number s \<longleftrightarrow> (case s of [] \<Rightarrow> True | b # _ \<Rightarrow> to_digit 10 b = None)"

lemma to_digit_dec: "n < 10 \<Longrightarrow> to_digit 10 (char_of (48 + n)) = Some n" for n :: nat
  by (simp add: to_digit_def is_ascii_digit_def)

lemma read_digits_append:
  assumes "read_digits 10 m limit count acc ds = Some ((v, n), [])"
  shows "read_digits 10 m limit count acc (ds @ s) = read_digits 10 m limit n v s"
  using assms
  by (induction "10 :: nat" m limit count acc ds rule: read_digits.induct)
    (auto simp: Let_def split: option.splits if_splits)

lemma read_digits_end: "ends_number s \<Longrightarrow> read_digits 10 m limit count acc s = Some ((acc, count), s)"
  by (cases s) (auto simp: ends_number_def)

text \<open>The printed number, read with a limit on its value or on its length that it meets.\<close>

lemma read_digits_dec:
  assumes "n \<le> limit" and "case m of Some k \<Rightarrow> length (dec n) \<le> k | None \<Rightarrow> True"
  shows "read_digits 10 m limit 0 0 (dec n) = Some ((n, length (dec n)), [])"
  using assms
proof (induction n rule: dec.induct)
  case (1 n)
  show ?case
  proof (cases "n < 10")
    case True
    then have "dec n = [char_of (48 + n)]"
      by (simp add: dec.simps)
    with True 1 show ?thesis
      by (auto simp: to_digit_dec Let_def split: option.splits)
  next
    case False
    then have d: "dec n = dec (n div 10) @ [char_of (48 + n mod 10)]"
      by (subst dec.simps) simp
    have "read_digits 10 m limit 0 0 (dec (n div 10)) = Some ((n div 10, length (dec (n div 10))), [])"
      using 1 False d by (intro "1.IH") (auto split: option.splits)
    from read_digits_append [OF this] show ?thesis
      using 1(2,3) by (auto simp: d to_digit_dec Let_def split: option.splits)
  qed
qed

lemma dec_head:
  assumes "0 < n"
  shows "hd (dec n) \<noteq> CHR ''0''"
  using assms
proof (induction n rule: dec.induct)
  case (1 n)
  have "char_of (48 + n) \<noteq> CHR ''0''" if "n < 10" "0 < n"
  proof
    assume "char_of (48 + n) = CHR ''0''"
    then have "code (char_of (48 + n)) = code CHR ''0''"
      by simp
    with that show False
      by (simp add: code_char_of del: code_inject) (simp add: code_def)
  qed
  moreover have "dec (n div 10) \<noteq> []"
    by (subst dec.simps) simp
  ultimately show ?case
    using 1 by (subst dec.simps) auto
qed

lemma dec_0: "dec 0 = ''0''"
  by code_simp

lemma dec_not_Nil [simp]: "dec n \<noteq> []"
  by (subst dec.simps) simp

lemma read_number_dec:
  assumes "n \<le> limit" and "case m of Some k \<Rightarrow> length (dec n) \<le> k | None \<Rightarrow> True" and "ends_number s"
  shows "read_number 10 m zero limit (dec n @ s) = Some (n, s)"
proof -
  have "read_digits 10 m limit 0 0 (dec n @ s) = Some ((n, length (dec n)), s)"
    using read_digits_append [OF read_digits_dec [OF assms(1,2)]] read_digits_end [OF assms(3)] by simp
  moreover have "hd (dec n @ s) \<noteq> CHR ''0'' \<or> length (dec n) = 1"
    using dec_head [of n] by (cases "n = 0") (simp_all add: dec_0)
  ultimately show ?thesis
    using assms(1) by (auto simp: read_number_def)
qed

lemma length_dec:
  assumes "n < 10 ^ Suc k"
  shows "length (dec n) \<le> Suc k"
  using assms
proof (induction k arbitrary: n)
  case 0
  then show ?case
    by (simp add: dec.simps)
next
  case (Suc k)
  have "n div 10 < 10 ^ Suc k"
    using Suc.prems by (simp add: less_mult_imp_div_less)
  with Suc.IH [of "n div 10"] show ?case
    by (subst dec.simps) simp
qed

lemma read_octet_dec:
  assumes "n \<le> 255" and "ends_number s"
  shows "read_octet (dec n @ s) = Some (n, s)"
  using assms length_dec [of n 2] by (intro read_number_dec) simp_all

lemma ends_number_simps [simp]:
  "ends_number []" "ends_number (CHR ''.'' # s)" "ends_number (CHR '':'' # s)" "ends_number (CHR '']'' # s)"
  by (simp_all add: ends_number_def to_digit_def byte_simps)

lemma read_ipv4_addr_text:
  assumes "a \<le> 255" "b \<le> 255" "c \<le> 255" "d \<le> 255" and "ends_number s"
  shows "read_ipv4_addr (ipv4_text a b c d @ s) = Some (V4 a b c d, s)"
  using assms by (simp add: read_ipv4_addr_def ipv4_text_def read_separator_def read_given_char_def read_octet_dec)

text \<open>A loopback address, of either family, as the listen setting admits it.\<close>

definition loopback_addr :: "socket_addr \<Rightarrow> bool" where
  "loopback_addr sa \<longleftrightarrow> is_loopback (sa_ip sa) \<and> sa_port sa < 2 ^ 16 \<and>
     (case sa_ip sa of V4 a b c d \<Rightarrow> b \<le> 255 \<and> c \<le> 255 \<and> d \<le> 255 \<and> sa_scope sa = 0
      | V6 _ \<Rightarrow> sa_scope sa < 2 ^ 32)"

lemma read_port_text: "p < 2 ^ 16 \<Longrightarrow> read_port ('':'' @ dec p) = Some (p, [])"
  using read_number_dec [of p 65535 None "[]" True] by (simp add: read_port_def read_given_char_def)

lemma read_scope_text:
  assumes "n < 2 ^ 32"
  shows "read_scope_id (CHR ''%'' # dec n @ CHR '']'' # s) = Some (n, CHR '']'' # s)"
  using assms read_number_dec [of n "2 ^ 32 - 1" None "CHR '']'' # s" True]
  by (simp add: read_scope_id_def read_given_char_def)

lemma ip_text_loopback6: "ip_text (V6 [0, 0, 0, 0, 0, 0, 0, 1]) = ''::1''"
  by code_simp

lemma read_groups_stops:
  assumes "read_separator CHR '':'' i read_ipv4_addr s = None"
    and "read_separator CHR '':'' i (read_number 16 (Some 4) True 65535) s = None"
  shows "read_groups (Suc left) i groups s = (groups, False, s)"
  using assms by simp

text \<open>After the \<open>::1\<close> of a printed loopback address comes a bracket or a scope.\<close>

lemma read_ipv6_loopback:
  assumes "c \<in> {CHR '']'', CHR ''%''}"
  shows "read_ipv6_addr (''::1'' @ c # s) = Some (V6 [0, 0, 0, 0, 0, 0, 0, 1], c # s)"
proof -
  have c: "to_digit 10 c = None" "to_digit 16 c = None" "c \<noteq> CHR '':''" "c \<noteq> CHR ''.''"
    using assms by (auto simp: to_digit_def byte_simps)
  have one: "to_digit 10 CHR ''1'' = Some 1" "to_digit 16 CHR ''1'' = Some 1"
    and colon: "to_digit 10 CHR '':'' = None" "to_digit 16 CHR '':'' = None"
    by code_simp+
  have v4: "read_ipv4_addr (CHR '':'' # t) = None" for t
    by (simp add: read_ipv4_addr_def read_separator_def read_number_def colon)
  have head: "read_groups (Suc 7) 0 [] (''::1'' @ c # s) = ([], False, ''::1'' @ c # s)"
    by (rule read_groups_stops) (simp_all add: v4 read_separator_def read_number_def colon)
  have "read_octet (CHR ''1'' # c # s) = Some (1, c # s)"
    by (simp add: read_number_def one c(1) Let_def)
  then have v4: "read_ipv4_addr (CHR ''1'' # c # s) = None"
    using c(4) by (simp add: read_ipv4_addr_def read_separator_def read_given_char_def)
  have "read_number 16 (Some 4) True 65535 (CHR ''1'' # c # s) = Some (1, c # s)"
    by (simp add: read_number_def one c(2) Let_def)
  then have "read_groups (Suc 6) 0 [] (CHR ''1'' # c # s) = read_groups 6 (Suc 0) [1] (c # s)"
    unfolding read_groups.simps using v4 by (simp add: read_separator_def)
  also have "\<dots> = read_groups (Suc 5) (Suc 0) [1] (c # s)"
    by (simp add: eval_nat_numeral)
  also have "\<dots> = ([1], False, c # s)"
    using c(3) by (intro read_groups_stops) (simp_all add: read_separator_def read_given_char_def)
  finally have tail: "read_groups (Suc 6) 0 [] (CHR ''1'' # c # s) = ([1], False, c # s)" .
  show ?thesis
    using head tail by (simp add: read_ipv6_addr_def read_given_char_def eval_nat_numeral)
qed

lemma parse_socket_addr_text:
  assumes "loopback_addr sa"
  shows "parse_socket_addr (socket_addr_text sa) = Some sa"
proof (cases "sa_ip sa")
  case (V4 a b c d)
  with assms have "socket_addr_text sa = ipv4_text a b c d @ '':'' @ dec (sa_port sa)"
    "sa = \<lparr>sa_ip = V4 a b c d, sa_port = sa_port sa, sa_scope = 0\<rparr>"
    by (simp_all add: socket_addr_text_def loopback_addr_def)
  with assms V4 show ?thesis
    using read_ipv4_addr_text [of a b c d "'':'' @ dec (sa_port sa)"] read_port_text [of "sa_port sa"]
    by (simp add: parse_socket_addr_def read_socket_addr_v4_def loopback_addr_def)
next
  case (V6 groups)
  with assms have ip: "sa_ip sa = V6 [0, 0, 0, 0, 0, 0, 0, 1]"
    by (simp add: loopback_addr_def)
  let ?scope = "if sa_scope sa = 0 then [] else ''%'' @ dec (sa_scope sa)"
  have shown: "socket_addr_text sa = CHR ''['' # (''::1'' @ ?scope @ '']'' @ '':'' @ dec (sa_port sa))"
    using ip ip_text_loopback6 by (simp add: socket_addr_text_def)
  have v4: "read_socket_addr_v4 (socket_addr_text sa) = None"
    by (simp add: shown read_socket_addr_v4_def read_ipv4_addr_def read_separator_def read_number_def to_digit_def byte_simps)
  have "read_ipv6_addr (''::1'' @ ?scope @ '']'' @ '':'' @ dec (sa_port sa)) =
      Some (V6 [0, 0, 0, 0, 0, 0, 0, 1], ?scope @ '']'' @ '':'' @ dec (sa_port sa))"
    using read_ipv6_loopback [of "CHR '']''"] read_ipv6_loopback [of "CHR ''%''"] by simp
  moreover have "read_scope_id (?scope @ '']'' @ t) = (if sa_scope sa = 0 then None else Some (sa_scope sa, '']'' @ t))" for t
    using assms V6 read_scope_text [of "sa_scope sa" t]
    by (simp add: loopback_addr_def) (simp add: read_scope_id_def read_given_char_def)
  ultimately have "read_socket_addr_v6 (socket_addr_text sa) = Some (sa, [])"
    using assms ip read_port_text [of "sa_port sa"]
    by (simp add: shown read_socket_addr_v6_def read_given_char_def loopback_addr_def)
  with v4 show ?thesis
    by (simp add: parse_socket_addr_def)
qed

section \<open>What is read is in range\<close>

lemma read_number_bound: "read_number radix m zero limit s = Some (n, s') \<Longrightarrow> n \<le> limit"
  by (auto simp: read_number_def split: option.splits prod.splits if_splits)

lemma read_ipv4_addr_bound:
  assumes "read_ipv4_addr s = Some (ip, s')"
  shows "\<exists>a b c d. ip = V4 a b c d \<and> a \<le> 255 \<and> b \<le> 255 \<and> c \<le> 255 \<and> d \<le> 255"
  using assms read_number_bound
  by (fastforce simp: read_ipv4_addr_def read_separator_def split: option.splits prod.splits)

lemma read_port_bound: "read_port s = Some (n, s') \<Longrightarrow> n < 2 ^ 16"
  using read_number_bound by (fastforce simp: read_port_def split: option.splits prod.splits)

lemma read_scope_bound: "read_scope_id s = Some (n, s') \<Longrightarrow> n < 2 ^ 32"
  using read_number_bound by (fastforce simp: read_scope_id_def split: option.splits prod.splits)

lemma read_ipv6_addr_V6: "read_ipv6_addr s = Some (ip, s') \<Longrightarrow> \<exists>groups. ip = V6 groups"
  by (auto simp: read_ipv6_addr_def split: option.splits prod.splits if_splits)

lemma parse_socket_addr_loopback:
  assumes "parse_socket_addr s = Some sa" and "is_loopback (sa_ip sa)"
  shows "loopback_addr sa"
proof -
  have "(\<exists>a b c d. sa_ip sa = V4 a b c d \<and> a \<le> 255 \<and> b \<le> 255 \<and> c \<le> 255 \<and> d \<le> 255) \<and>
      sa_port sa < 2 ^ 16 \<and> sa_scope sa = 0" if "read_socket_addr_v4 s = Some (sa, t)" for t
    using that read_ipv4_addr_bound read_port_bound
    by (fastforce simp: read_socket_addr_v4_def split: option.splits prod.splits)
  moreover have "(\<exists>groups. sa_ip sa = V6 groups) \<and> sa_port sa < 2 ^ 16 \<and> sa_scope sa < 2 ^ 32"
    if "read_socket_addr_v6 s = Some (sa, t)" for t
    using that read_ipv6_addr_V6 read_port_bound read_scope_bound
    by (fastforce simp: read_socket_addr_v6_def split: option.splits prod.splits)
  ultimately show ?thesis
    using assms by (fastforce simp: parse_socket_addr_def loopback_addr_def split: option.splits list.splits prod.splits)
qed

end
