(* ===== verification/Config.thy ===== *)
theory Config
  imports Openssl Net_Addr
begin

text \<open>
  src/config.rs: the runtime configuration, its parser \<open>RuntimeConfig::load\<close>, the checks of
  key, DNS names and listen address, and the FIPS gate.

  The file system and OpenSSL are arguments. The lemmas show what a loaded configuration
  guarantees (valid lower-case names, absolute key path, an RSA key of 256 to 512 bytes that
  signs, a loopback or Unix listener), that FIPS is required unless the file turns it off,
  that a setting given twice is refused, and that the FIPS gate opens only when kernel and
  OpenSSL both confirm.
\<close>

section \<open>Data\<close>

datatype listen_addr = Unix_Addr bytes | Tcp_Addr socket_addr

record 'k runtime_config =
  cfg_domain :: bytes
  cfg_selector :: bytes
  cfg_private_key :: bytes
  cfg_listen :: listen_addr
  cfg_require_fips :: bool
  cfg_key :: 'k

text \<open>One constructor per error message; numbers are line numbers.\<close>

datatype config_error =
    Cannot_Read bytes bytes
  | Expected_Assignment nat
  | Empty_Value nat bytes
  | Duplicate_Setting nat bytes
  | Bad_Require_Fips nat
  | Unknown_Setting nat bytes
  | Invalid_Name bytes bytes
  | Unix_Path_Not_Absolute
  | Invalid_Tcp_Address bytes
  | Tcp_Not_Loopback
  | Listen_Without_Scheme
  | Missing_Setting bytes
  | Key_Path_Not_Absolute
  | Cannot_Read_Key bytes bytes
  | Cannot_Parse_Key bytes
  | Key_Not_Rsa
  | Key_Too_Small nat
  | Key_Too_Large nat
  | Signer_Unavailable bytes
  | Self_Test_Failed bytes
  | Fips_Openssl_Off
  | Fips_Kernel_Off
  | Fips_Unexpected_Status bytes
  | Fips_Unreadable bytes

section \<open>Checks\<close>

definition valid_label :: "bytes \<Rightarrow> bool" where
  "valid_label label \<longleftrightarrow>
     label \<noteq> [] \<and> length label \<le> 63 \<and> hd label \<noteq> CHR ''-'' \<and> last label \<noteq> CHR ''-'' \<and>
     list_all (\<lambda>b. is_ascii_alphanumeric b \<or> b = CHR ''-'') label"

definition validate_dns_name :: "bytes \<Rightarrow> bytes \<Rightarrow> config_error + bytes" where
  "validate_dns_name kind v =
     (let v = lowercase (trim_end_matches CHR ''.'' v)
      in if v = [] \<or> 253 < length v \<or> \<not> list_all valid_label (split_on CHR ''.'' v)
         then Inl (Invalid_Name kind v)
         else Inr v)"

definition parse_listen :: "bytes \<Rightarrow> config_error + listen_addr" where
  "parse_listen v =
     (case strip_prefix ''unix:'' v of
        Some path \<Rightarrow>
          if \<not> starts_with ''/'' path \<or> NUL \<in> set path then Inl Unix_Path_Not_Absolute
          else Inr (Unix_Addr path)
      | None \<Rightarrow>
          (case strip_prefix ''tcp:'' v of
             Some addr \<Rightarrow>
               (case parse_socket_addr addr of
                  None \<Rightarrow> Inl (Invalid_Tcp_Address addr)
                | Some sa \<Rightarrow> if is_loopback (sa_ip sa) then Inr (Tcp_Addr sa) else Inl Tcp_Not_Loopback)
           | None \<Rightarrow> Inl Listen_Without_Scheme))"

definition validate_key :: "('h, 'k, 's) openssl \<Rightarrow> 'k \<Rightarrow> config_error + unit" where
  "validate_key ossl key =
     (case rsa_size ossl key of None \<Rightarrow> Inl Key_Not_Rsa
      | Some n \<Rightarrow>
          if n * 8 < 2048 then Inl (Key_Too_Small (n * 8))
          else if 4096 < n * 8 then Inl (Key_Too_Large (n * 8))
          else (case signer_new ossl key of Inl e \<Rightarrow> Inl (Signer_Unavailable e)
          | Inr signer \<Rightarrow>
              (case signer_update ossl signer ''dkim-lite startup self-test'' of
                 Inl e \<Rightarrow> Inl (Self_Test_Failed e)
               | Inr signer \<Rightarrow>
                   (case sign_to_vec ossl signer of Inl e \<Rightarrow> Inl (Self_Test_Failed e)
                    | Inr _ \<Rightarrow> Inr ()))))"

section \<open>Loading\<close>

text \<open>The local variables of \<open>load\<close> during the line loop.\<close>

record draft =
  d_seen :: "bytes list"
  d_domain :: "bytes option"
  d_selector :: "bytes option"
  d_private_key :: "bytes option"
  d_listen :: "listen_addr option"
  d_require_fips :: bool

definition empty_draft :: draft where
  "empty_draft = \<lparr>d_seen = [], d_domain = None, d_selector = None, d_private_key = None,
     d_listen = None, d_require_fips = True\<rparr>"

definition load_setting :: "nat \<Rightarrow> bytes \<Rightarrow> bytes \<Rightarrow> draft \<Rightarrow> config_error + draft" where
  "load_setting n name v d =
     (if name = ''domain'' then map_sum id (\<lambda>x. d\<lparr>d_domain := Some x\<rparr>) (validate_dns_name ''domain'' v)
      else if name = ''selector''
      then map_sum id (\<lambda>x. d\<lparr>d_selector := Some x\<rparr>) (validate_dns_name ''selector'' v)
      else if name = ''private_key'' then Inr (d\<lparr>d_private_key := Some v\<rparr>)
      else if name = ''listen'' then map_sum id (\<lambda>x. d\<lparr>d_listen := Some x\<rparr>) (parse_listen v)
      else if name = ''require_fips''
      then (if v = ''true'' then Inr (d\<lparr>d_require_fips := True\<rparr>)
            else if v = ''false'' then Inr (d\<lparr>d_require_fips := False\<rparr>)
            else Inl (Bad_Require_Fips n))
      else Inl (Unknown_Setting n name))"

definition load_line :: "nat \<Rightarrow> bytes \<Rightarrow> draft \<Rightarrow> config_error + draft" where
  "load_line n raw d =
     (let line = trim raw
      in if line = [] \<or> starts_with ''#'' line then Inr d
         else (case split_once CHR ''='' line of None \<Rightarrow> Inl (Expected_Assignment n)
         | Some (name, v) \<Rightarrow>
             let name = trim name; v = trim v
             in if v = [] then Inl (Empty_Value n name)
                else if name \<in> set (d_seen d) then Inl (Duplicate_Setting n name)
                else load_setting n name v (d\<lparr>d_seen := name # d_seen d\<rparr>)))"

fun load_lines :: "nat \<Rightarrow> bytes list \<Rightarrow> draft \<Rightarrow> config_error + draft" where
  "load_lines n [] d = Inr d"
| "load_lines n (raw # raws) d =
     (case load_line n raw d of Inl e \<Rightarrow> Inl e | Inr d' \<Rightarrow> load_lines (Suc n) raws d')"

definition ok_or :: "'a option \<Rightarrow> 'e \<Rightarrow> 'e + 'a" where
  "ok_or x e = (case x of None \<Rightarrow> Inl e | Some a \<Rightarrow> Inr a)"

definition and_then :: "'e + 'a \<Rightarrow> ('a \<Rightarrow> 'e + 'b) \<Rightarrow> 'e + 'b" where
  "and_then r f = (case r of Inl e \<Rightarrow> Inl e | Inr a \<Rightarrow> f a)"

text \<open>\<open>read\<close> is the file system: the text of the error, or the bytes of the file.\<close>

definition read_to_string :: "(bytes \<Rightarrow> bytes + bytes) \<Rightarrow> bytes \<Rightarrow> bytes + bytes" where
  "read_to_string read path =
     (case read path of Inl e \<Rightarrow> Inl e
      | Inr s \<Rightarrow> if utf8_valid s then Inr s else Inl ''stream did not contain valid UTF-8'')"

definition finish_load ::
  "('h, 'k, 's) openssl \<Rightarrow> (bytes \<Rightarrow> bytes + bytes) \<Rightarrow> draft \<Rightarrow> config_error + 'k runtime_config" where
  "finish_load ossl read d =
     and_then (ok_or (d_domain d) (Missing_Setting ''domain'')) (\<lambda>domain.
     and_then (ok_or (d_selector d) (Missing_Setting ''selector'')) (\<lambda>selector.
     and_then (ok_or (d_private_key d) (Missing_Setting ''private_key'')) (\<lambda>private_key.
     if \<not> starts_with ''/'' private_key then Inl Key_Path_Not_Absolute else
     and_then (ok_or (d_listen d) (Missing_Setting ''listen'')) (\<lambda>listen.
     and_then (map_sum (Cannot_Read_Key private_key) id (read private_key)) (\<lambda>key_bytes.
     and_then (map_sum Cannot_Parse_Key id (private_key_from_pem ossl key_bytes)) (\<lambda>key.
     and_then (validate_key ossl key) (\<lambda>_.
       Inr \<lparr>cfg_domain = domain, cfg_selector = selector, cfg_private_key = private_key,
            cfg_listen = listen, cfg_require_fips = d_require_fips d, cfg_key = key\<rparr>)))))))"

definition load ::
  "('h, 'k, 's) openssl \<Rightarrow> (bytes \<Rightarrow> bytes + bytes) \<Rightarrow> bytes \<Rightarrow> config_error + 'k runtime_config" where
  "load ossl read path =
     and_then (map_sum (Cannot_Read path) id (read_to_string read path)) (\<lambda>input.
     and_then (load_lines 1 (str_lines input) empty_draft) (finish_load ossl read))"

section \<open>The FIPS gate\<close>

text \<open>The two environment queries: the kernel's status file, and \<open>openssl_fips_enabled\<close>.\<close>

definition check_fips_environment_with :: "bool \<Rightarrow> bytes + bytes \<Rightarrow> bool \<Rightarrow> config_error + unit" where
  "check_fips_environment_with required kernel_status openssl_is_fips =
     (if \<not> required then Inr ()
      else (case kernel_status of
          Inr v \<Rightarrow>
            if trim v = ''1''
            then (if openssl_is_fips then Inr () else Inl Fips_Openssl_Off)
            else if trim v = ''0'' then Inl Fips_Kernel_Off
            else Inl (Fips_Unexpected_Status v)
        | Inl e \<Rightarrow> Inl (Fips_Unreadable e)))"

text \<open>\<open>dlsym\<close> finds OpenSSL 3's query or, failing that, the FIPS module's of 1.1.1; each
  argument is the C function's result where the symbol exists.\<close>

definition openssl_fips_enabled :: "int option \<Rightarrow> int option \<Rightarrow> bool" where
  "openssl_fips_enabled default_properties fips_mode =
     (case default_properties of Some r \<Rightarrow> r = 1
      | None \<Rightarrow> (case fips_mode of Some r \<Rightarrow> r = 1 | None \<Rightarrow> False))"

definition check_fips_environment ::
  "bool \<Rightarrow> (bytes \<Rightarrow> bytes + bytes) \<Rightarrow> int option \<Rightarrow> int option \<Rightarrow> config_error + unit" where
  "check_fips_environment required read default_properties fips_mode =
     check_fips_environment_with required
       (read_to_string read ''/proc/sys/crypto/fips_enabled'')
       (openssl_fips_enabled default_properties fips_mode)"

section \<open>Results of the checks\<close>

lemma and_then_Inr [simp]: "and_then r f = Inr y \<longleftrightarrow> (\<exists>a. r = Inr a \<and> f a = Inr y)"
  by (cases r) (simp_all add: and_then_def)

lemma ok_or_Inr [simp]: "ok_or x e = Inr a \<longleftrightarrow> x = Some a"
  by (cases x) (simp_all add: ok_or_def)

lemma map_sum_Inr [simp]: "map_sum f g r = Inr y \<longleftrightarrow> (\<exists>a. r = Inr a \<and> y = g a)"
  by (cases r) auto

definition dns_name :: "bytes \<Rightarrow> bool" where
  "dns_name v \<longleftrightarrow> v \<noteq> [] \<and> length v \<le> 253 \<and> list_all valid_label (split_on CHR ''.'' v) \<and>
     lowercase v = v"

lemma validate_dns_name_Inr: "validate_dns_name kind v = Inr w \<Longrightarrow> dns_name w"
  by (auto simp: validate_dns_name_def dns_name_def Let_def split: if_splits)

lemma last_split_on_snoc: "split_on c (u @ [c]) = split_on c u @ [[]]"
  by (induction u) (auto split: list.splits)

lemma dns_name_last: "dns_name v \<Longrightarrow> last v \<noteq> CHR ''.''"
  using last_split_on_snoc [of "CHR ''.''" "butlast v"]
  by (cases v rule: rev_cases) (auto simp: dns_name_def valid_label_def)

lemma validate_dns_name_fixpoint: "dns_name v \<Longrightarrow> validate_dns_name kind v = Inr v"
  using dns_name_last [of v]
  by (simp add: validate_dns_name_def dns_name_def trim_end_matches_id)

lemma dns_name_bytes:
  assumes "dns_name v" and "b \<in> set v"
  shows "is_ascii_alphanumeric b \<or> b = CHR ''-'' \<or> b = CHR ''.''"
  using assms set_join_subset [of "''.''" "split_on CHR ''.'' v"]
  by (fastforce simp: dns_name_def valid_label_def list_all_iff)

definition listen_ok :: "listen_addr \<Rightarrow> bool" where
  "listen_ok l =
     (case l of Unix_Addr path \<Rightarrow> starts_with ''/'' path \<and> NUL \<notin> set path
      | Tcp_Addr sa \<Rightarrow> is_loopback (sa_ip sa))"

lemma parse_listen_Inr: "parse_listen v = Inr l \<Longrightarrow> listen_ok l"
  by (auto simp: parse_listen_def listen_ok_def split: option.splits if_splits)

text \<open>The key is RSA and its modulus takes 256 to 512 bytes. The size is that of \<open>RSA_size\<close>, in whole bytes
  and rounded up, so that this is a modulus of 2041 to 4096 bits.\<close>

definition key_ok :: "('h, 'k, 's) openssl \<Rightarrow> 'k \<Rightarrow> bool" where
  "key_ok ossl key \<longleftrightarrow> (\<exists>n. rsa_size ossl key = Some n \<and> 256 \<le> n \<and> n \<le> 512)"

lemma key_ok_bits:
  "key_ok ossl key \<Longrightarrow> rsa_size ossl key = Some ((bits + 7) div 8) \<Longrightarrow> 2041 \<le> bits \<and> bits \<le> 4096"
  by (auto simp: key_ok_def)

lemma validate_key_Inr: "validate_key ossl key = Inr u \<Longrightarrow> key_ok ossl key"
  by (auto simp: validate_key_def key_ok_def split: option.splits if_splits)

section \<open>What a loaded configuration guarantees\<close>

definition config_ok :: "('h, 'k, 's) openssl \<Rightarrow> 'k runtime_config \<Rightarrow> bool" where
  "config_ok ossl c \<longleftrightarrow>
     dns_name (cfg_domain c) \<and> dns_name (cfg_selector c) \<and> starts_with ''/'' (cfg_private_key c) \<and>
     listen_ok (cfg_listen c) \<and> key_ok ossl (cfg_key c)"

definition draft_ok :: "draft \<Rightarrow> bool" where
  "draft_ok d \<longleftrightarrow>
     pred_option dns_name (d_domain d) \<and> pred_option dns_name (d_selector d) \<and>
     pred_option listen_ok (d_listen d)"

lemma load_setting_ok: "load_setting n name v d = Inr d' \<Longrightarrow> draft_ok d \<Longrightarrow> draft_ok d'"
  by (auto simp: load_setting_def draft_ok_def split: if_splits
      dest: validate_dns_name_Inr parse_listen_Inr)

lemma load_line_ok: "load_line n raw d = Inr d' \<Longrightarrow> draft_ok d \<Longrightarrow> draft_ok d'"
  by (auto simp: load_line_def Let_def draft_ok_def split: if_splits option.splits
      dest!: load_setting_ok)

lemma load_lines_ok: "load_lines n raws d = Inr d' \<Longrightarrow> draft_ok d \<Longrightarrow> draft_ok d'"
  by (induction raws arbitrary: n d) (auto split: sum.splits dest: load_line_ok)

lemma finish_load_ok: "finish_load ossl read d = Inr c \<Longrightarrow> draft_ok d \<Longrightarrow> config_ok ossl c"
  by (auto simp: finish_load_def config_ok_def draft_ok_def split: if_splits dest!: validate_key_Inr)

lemma load_Inr:
  assumes "load ossl read path = Inr c"
  obtains input d where "read path = Inr input" and "load_lines 1 (str_lines input) empty_draft = Inr d"
    and "finish_load ossl read d = Inr c"
  using assms by (auto simp: load_def read_to_string_def split: sum.splits if_splits)

lemma load_config_ok: "load ossl read path = Inr c \<Longrightarrow> config_ok ossl c"
  by (elim load_Inr) (auto dest!: load_lines_ok finish_load_ok simp: draft_ok_def empty_draft_def)

section \<open>The settings of a file\<close>

text \<open>The assignment a line makes, if it makes one.\<close>

definition assignment :: "bytes \<Rightarrow> (bytes \<times> bytes) option" where
  "assignment raw =
     (let line = trim raw
      in if line = [] \<or> starts_with ''#'' line then None
         else map_option (\<lambda>(name, v). (trim name, trim v)) (split_once CHR ''='' line))"

definition assignments :: "bytes list \<Rightarrow> (bytes \<times> bytes) list" where
  "assignments raws = List.map_filter assignment raws"

definition known_settings :: "bytes list" where
  "known_settings = [''domain'', ''selector'', ''private_key'', ''listen'', ''require_fips'']"

text \<open>What a draft holds after the assignment of \<open>v\<close> to a name, and that a name's slot is unchanged.\<close>

definition stored :: "draft \<Rightarrow> bytes \<Rightarrow> bytes \<Rightarrow> bool" where
  "stored d name v \<longleftrightarrow>
     (name = ''domain'' \<longrightarrow> (\<exists>x. validate_dns_name ''domain'' v = Inr x \<and> d_domain d = Some x)) \<and>
     (name = ''selector'' \<longrightarrow> (\<exists>x. validate_dns_name ''selector'' v = Inr x \<and> d_selector d = Some x)) \<and>
     (name = ''private_key'' \<longrightarrow> d_private_key d = Some v) \<and>
     (name = ''listen'' \<longrightarrow> (\<exists>x. parse_listen v = Inr x \<and> d_listen d = Some x)) \<and>
     (name = ''require_fips'' \<longrightarrow> v \<in> {''true'', ''false''} \<and> d_require_fips d = (v \<noteq> ''false''))"

definition same_slot :: "bytes \<Rightarrow> draft \<Rightarrow> draft \<Rightarrow> bool" where
  "same_slot name d d' \<longleftrightarrow>
     (name = ''domain'' \<longrightarrow> d_domain d' = d_domain d) \<and>
     (name = ''selector'' \<longrightarrow> d_selector d' = d_selector d) \<and>
     (name = ''private_key'' \<longrightarrow> d_private_key d' = d_private_key d) \<and>
     (name = ''listen'' \<longrightarrow> d_listen d' = d_listen d) \<and>
     (name = ''require_fips'' \<longrightarrow> d_require_fips d' = d_require_fips d)"

lemma stored_same_slot: "stored d name v \<Longrightarrow> same_slot name d d' \<Longrightarrow> stored d' name v"
  by (simp add: stored_def same_slot_def)

lemma same_slot_refl [simp]: "same_slot name d d"
  by (simp add: same_slot_def)

lemma same_slot_trans: "same_slot name d d' \<Longrightarrow> same_slot name d' d'' \<Longrightarrow> same_slot name d d''"
  by (simp add: same_slot_def)

lemma load_setting_Inr:
  assumes "load_setting n name v d = Inr d'"
  shows "name \<in> set known_settings" and "d_seen d' = d_seen d" and "stored d' name v"
    and "m \<noteq> name \<Longrightarrow> same_slot m d d'"
  using assms
  by (auto simp: load_setting_def known_settings_def stored_def same_slot_def split: if_splits)

text \<open>A line that loads either makes no assignment and changes nothing, or makes a new one.\<close>

lemma load_line_Inr:
  assumes "load_line n raw d = Inr d'"
  shows "case assignment raw of
      None \<Rightarrow> d' = d
    | Some (name, v) \<Rightarrow> name \<notin> set (d_seen d) \<and> v \<noteq> [] \<and>
        load_setting n name v (d\<lparr>d_seen := name # d_seen d\<rparr>) = Inr d'"
  using assms
  by (auto simp: load_line_def assignment_def Let_def split: if_splits option.splits)

text \<open>\<open>settle A d d'\<close>: the assignments \<open>A\<close>, of new known names, take the draft \<open>d\<close> to \<open>d'\<close>.\<close>

definition settle :: "(bytes \<times> bytes) list \<Rightarrow> draft \<Rightarrow> draft \<Rightarrow> bool" where
  "settle A d d' \<longleftrightarrow>
     distinct (map fst A) \<and> set (map fst A) \<subseteq> set known_settings \<and>
     set (map fst A) \<inter> set (d_seen d) = {} \<and>
     (\<forall>(name, v) \<in> set A. stored d' name v) \<and>
     (\<forall>name. name \<notin> set (map fst A) \<longrightarrow> same_slot name d d')"

lemma settle_Cons:
  assumes "settle A d1 d'" and "load_setting n name v (d\<lparr>d_seen := name # d_seen d\<rparr>) = Inr d1"
    and "name \<notin> set (d_seen d)"
  shows "settle ((name, v) # A) d d'"
proof -
  note s = load_setting_Inr [OF assms(2)]
  have slot: "same_slot m d d1" if "m \<noteq> name" for m
    using s(4) [OF that] by (simp add: same_slot_def)
  have new: "name \<notin> set (map fst A)" "set (map fst A) \<inter> set (d_seen d) = {}"
    using assms(1) s(2) by (auto simp: settle_def)
  have "same_slot m d d'" if "m \<notin> set (map fst ((name, v) # A))" for m
    using that assms(1) slot [of m] same_slot_trans [of m d d1 d'] by (simp add: settle_def)
  moreover have "stored d' name v"
    using assms(1) new(1) stored_same_slot [OF s(3), of d'] by (simp add: settle_def)
  ultimately show ?thesis
    using assms(1,3) new s(1) by (simp add: settle_def)
qed

lemma load_lines_settle: "load_lines n raws d = Inr d' \<Longrightarrow> settle (assignments raws) d d'"
proof (induction raws arbitrary: n d)
  case Nil
  then show ?case
    by (simp add: assignments_def map_filter_simps settle_def)
next
  case (Cons raw raws)
  then obtain d1 where d1: "load_line n raw d = Inr d1" "load_lines (Suc n) raws d1 = Inr d'"
    by (auto split: sum.splits)
  have IH: "settle (assignments raws) d1 d'"
    by (rule Cons.IH [OF d1(2)])
  show ?case
  proof (cases "assignment raw")
    case None
    with load_line_Inr [OF d1(1)] have "d1 = d"
      by simp
    with IH None show ?thesis
      unfolding assignments_def by (simp add: map_filter_simps)
  next
    case (Some nv)
    with IH load_line_Inr [OF d1(1)] settle_Cons [of "assignments raws" d1 d' n "fst nv" "snd nv" d]
    show ?thesis
      by (simp add: assignments_def map_filter_simps split: prod.splits)
  qed
qed

lemma settle_member: "settle A d d' \<Longrightarrow> (name, v) \<in> set A \<Longrightarrow> stored d' name v"
  by (auto simp: settle_def)

lemma settle_slot:
  assumes "settle A d d'"
  obtains v where "(name, v) \<in> set A" and "stored d' name v" | "same_slot name d d'"
  using assms settle_member [OF assms] by (force simp: settle_def)

text \<open>The values of a loaded configuration, traced back to the lines of its file.\<close>

definition configured :: "(bytes \<times> bytes) list \<Rightarrow> 'k runtime_config \<Rightarrow> bool" where
  "configured A c \<longleftrightarrow>
     distinct (map fst A) \<and> set (map fst A) \<subseteq> set known_settings \<and>
     (\<exists>v. (''domain'', v) \<in> set A \<and> validate_dns_name ''domain'' v = Inr (cfg_domain c)) \<and>
     (\<exists>v. (''selector'', v) \<in> set A \<and> validate_dns_name ''selector'' v = Inr (cfg_selector c)) \<and>
     (\<exists>v. (''listen'', v) \<in> set A \<and> parse_listen v = Inr (cfg_listen c)) \<and>
     (''private_key'', cfg_private_key c) \<in> set A \<and>
     (cfg_require_fips c \<longleftrightarrow> (''require_fips'', ''false'') \<notin> set A)"

lemma finish_load_Inr:
  assumes "finish_load ossl read d = Inr c"
  shows "d_domain d = Some (cfg_domain c)" and "d_selector d = Some (cfg_selector c)"
    and "d_private_key d = Some (cfg_private_key c)" and "d_listen d = Some (cfg_listen c)"
    and "cfg_require_fips c = d_require_fips d"
    and "\<exists>pem. read (cfg_private_key c) = Inr pem \<and> private_key_from_pem ossl pem = Inr (cfg_key c)"
  using assms by (auto simp: finish_load_def split: if_splits)

lemma settle_configured:
  assumes "settle A empty_draft d" and "finish_load ossl read d = Inr c"
  shows "configured A c"
proof -
  note f = finish_load_Inr [OF assms(2)]
  have "\<exists>v. (''domain'', v) \<in> set A \<and> validate_dns_name ''domain'' v = Inr (cfg_domain c)"
    using settle_slot [OF assms(1), of "''domain''"] f(1)
    by (auto simp: stored_def same_slot_def empty_draft_def)
  moreover have "\<exists>v. (''selector'', v) \<in> set A \<and> validate_dns_name ''selector'' v = Inr (cfg_selector c)"
    using settle_slot [OF assms(1), of "''selector''"] f(2)
    by (auto simp: stored_def same_slot_def empty_draft_def)
  moreover have "\<exists>v. (''listen'', v) \<in> set A \<and> parse_listen v = Inr (cfg_listen c)"
    using settle_slot [OF assms(1), of "''listen''"] f(4)
    by (auto simp: stored_def same_slot_def empty_draft_def)
  moreover have "(''private_key'', cfg_private_key c) \<in> set A"
    using settle_slot [OF assms(1), of "''private_key''"] f(3)
    by (auto simp: stored_def same_slot_def empty_draft_def)
  moreover have "cfg_require_fips c \<longleftrightarrow> (''require_fips'', ''false'') \<notin> set A"
    using settle_slot [OF assms(1), of "''require_fips''"] settle_member [OF assms(1), of "''require_fips''" "''false''"] f(5)
    by (auto simp: stored_def same_slot_def empty_draft_def)
  ultimately show ?thesis
    using assms(1) by (simp add: configured_def settle_def)
qed

lemma load_configured:
  assumes "load ossl read path = Inr c"
  obtains input where "read path = Inr input" and "configured (assignments (str_lines input)) c"
  using assms by (elim load_Inr) (auto dest!: load_lines_settle settle_configured)

lemma check_fips_Inr_iff:
  "check_fips_environment_with required status openssl = Inr () \<longleftrightarrow>
     (required \<longrightarrow> (\<exists>v. status = Inr v \<and> trim v = ''1'') \<and> openssl)"
  by (auto simp: check_fips_environment_with_def split: sum.splits)

section \<open>Properties\<close>

text \<open>A configuration file and a file system to load it from.\<close>

definition sample_config_file :: bytes where
  "sample_config_file =
     ''# dkim-lite'' @ [LF] @ ''domain = Ex.org.'' @ [LF] @ ''selector=s1'' @ CRLF @
     ''private_key = /k'' @ [LF] @ ''listen = tcp:127.0.0.1:8891'' @ [LF] @ ''require_fips = false'' @ [LF]"

definition sample_read :: "bytes \<Rightarrow> bytes + bytes" where
  "sample_read path =
     (if path = ''/c'' then Inr sample_config_file
      else if path = ''/k'' then Inr ''PEM'' else Inl ''not found'')"

definition sample_config :: "unit runtime_config" where
  "sample_config =
     \<lparr>cfg_domain = ''ex.org'', cfg_selector = ''s1'', cfg_private_key = ''/k'',
      cfg_listen = Tcp_Addr \<lparr>sa_ip = V4 127 0 0 1, sa_port = 8891, sa_scope = 0\<rparr>,
      cfg_require_fips = False, cfg_key = ()\<rparr>"

lemma load_sample: "load sample_openssl sample_read ''/c'' = Inr sample_config"
  by code_simp

text \<open>C17: a configuration that loads is sound: both DNS names are valid and in lower case, the key
  path is absolute, the listener is a Unix socket with an absolute path or a loopback TCP address, and the
  key is RSA with a modulus of 256 to 512 bytes. In bits that is 2041 to 4096, not 2048 to 4096, since the size
  of a modulus of \<open>bits\<close> bits is rounded up to whole bytes.\<close>

theorem load_sound:
  assumes "load ossl read path = Inr c"
  shows "config_ok ossl c \<and>
    (\<forall>bits. rsa_size ossl (cfg_key c) = Some ((bits + 7) div 8) \<longrightarrow> 2041 \<le> bits \<and> bits \<le> 4096)"
  using load_config_ok [OF assms] key_ok_bits [of ossl "cfg_key c"] by (simp add: config_ok_def)

lemma load_sound_witness: "config_ok sample_openssl sample_config"
  using load_sound [OF load_sample] by (rule conjunct1)

text \<open>The shortest modulus is accepted: a key of 2041 bits passes the test for at least 2048.\<close>

theorem short_key_accepted:
  assumes "rsa_size ossl key = Some ((2041 + 7) div 8)" and "signer_new ossl key = Inr s"
    and "signer_update ossl s ''dkim-lite startup self-test'' = Inr s'" and "sign_to_vec ossl s' = Inr sig"
  shows "validate_key ossl key = Inr ()"
  using assms by (simp add: validate_key_def)

lemma short_key_accepted_witness: "validate_key sample_openssl () = Inr ()"
proof -
  obtain s s' sig where "signer_new sample_openssl () = Inr s"
    "signer_update sample_openssl s ''dkim-lite startup self-test'' = Inr s'" "sign_to_vec sample_openssl s' = Inr sig"
    by (simp add: sample_openssl_def transcript_openssl_def)
  then show ?thesis
    by (rule short_key_accepted [rotated]) (simp add: sample_openssl_def transcript_openssl_def)
qed

text \<open>C18: every value of a loaded configuration comes from the one line of the file that assigns
  it; no setting is assigned twice and none is unknown; FIPS is required unless the file says
  \<open>require_fips = false\<close>.\<close>

theorem load_settings_traced:
  assumes "load ossl read path = Inr c"
  shows "\<exists>input. read path = Inr input \<and> configured (assignments (str_lines input)) c"
  using assms by (rule load_configured) blast

lemma load_settings_traced_witness:
  "\<exists>input. sample_read ''/c'' = Inr input \<and> configured (assignments (str_lines input)) sample_config"
  by (rule load_settings_traced [OF load_sample])

text \<open>Name validation returns a valid DNS name in lower case, and validating the result
  again changes nothing.\<close>

theorem validate_dns_name_stable:
  assumes "validate_dns_name kind v = Inr w"
  shows "dns_name w \<and> validate_dns_name kind' w = Inr w"
  using validate_dns_name_Inr [OF assms] validate_dns_name_fixpoint by blast

lemma validate_dns_name_stable_witness:
  "dns_name ''mail.ex.org'' \<and> validate_dns_name ''selector'' ''mail.ex.org'' = Inr ''mail.ex.org''"
  by (rule validate_dns_name_stable [of "''domain''" "''Mail.EX.org.''"]) code_simp

text \<open>A failing line loop reports the first line that fails, by its number in the file, after
  all lines before it loaded.\<close>

theorem load_lines_first_error:
  assumes "load_lines n raws d = Inl e"
  shows "\<exists>pre raw post d'. raws = pre @ raw # post \<and> load_lines n pre d = Inr d' \<and>
    load_line (n + length pre) raw d' = Inl e"
  using assms
proof (induction raws arbitrary: n d)
  case (Cons raw raws)
  show ?case
  proof (cases "load_line n raw d")
    case (Inl x)
    with Cons.prems show ?thesis
      by (intro exI [of _ "[]"] exI [of _ raw] exI [of _ raws] exI [of _ d]) simp
  next
    case (Inr d1)
    with Cons.prems obtain pre r post d' where "raws = pre @ r # post" "load_lines (Suc n) pre d1 = Inr d'"
      "load_line (Suc n + length pre) r d' = Inl e"
      using Cons.IH [of "Suc n" d1] by auto
    with Inr show ?thesis
      by (intro exI [of _ "raw # pre"] exI [of _ r] exI [of _ post] exI [of _ d']) simp
  qed
qed simp

lemma load_lines_first_error_witness:
  "\<exists>pre raw post d'. [''domain = ex.org'', ''domain = ex.net''] = pre @ raw # post \<and>
    load_lines 1 pre empty_draft = Inr d' \<and>
    load_line (1 + length pre) raw d' = Inl (Duplicate_Setting 2 ''domain'')"
  by (rule load_lines_first_error) code_simp

text \<open>With FIPS required, the gate opens only when the kernel's status file reads 1 and
  OpenSSL's query (version 3's if present, else version 1.1.1's) answers 1; everything else is an
  error.\<close>

theorem fips_gate:
  "check_fips_environment required read default_properties fips_mode = Inr () \<longleftrightarrow>
     (required \<longrightarrow>
       (\<exists>v. read ''/proc/sys/crypto/fips_enabled'' = Inr v \<and> utf8_valid v \<and> trim v = ''1'') \<and>
       (default_properties = Some 1 \<or> default_properties = None \<and> fips_mode = Some 1))"
  by (auto simp: check_fips_environment_def check_fips_Inr_iff read_to_string_def openssl_fips_enabled_def
      split: sum.splits option.splits)

lemma fips_gate_witness:
  "check_fips_environment True (\<lambda>_. Inr (''1'' @ [LF])) (Some 1) None = Inr () \<and>
   check_fips_environment True (\<lambda>_. Inr (''1'' @ [LF])) (Some 0) (Some 1) \<noteq> Inr ()"
proof -
  have v: "utf8_valid (''1'' @ [LF])" "trim (''1'' @ [LF]) = ''1''"
    by code_simp+
  then show ?thesis
    using fips_gate [of True "\<lambda>_. Inr (''1'' @ [LF])" "Some 1" None]
      fips_gate [of True "\<lambda>_. Inr (''1'' @ [LF])" "Some 0" "Some 1"] by simp
qed

text \<open>Every TCP address that the listen setting admits can be printed and read back: \<open>tcp:\<close> with what
  \<open>Display\<close> makes of the address, as in the error messages, is a listen setting for the same address.\<close>

theorem listen_text_roundtrip:
  assumes "parse_listen v = Inr (Tcp_Addr sa)"
  shows "parse_listen (''tcp:'' @ socket_addr_text sa) = Inr (Tcp_Addr sa)"
proof -
  obtain s where "parse_socket_addr s = Some sa" and loopback: "is_loopback (sa_ip sa)"
    using assms by (auto simp: parse_listen_def split: option.splits if_splits)
  then have "parse_socket_addr (socket_addr_text sa) = Some sa"
    using parse_socket_addr_loopback parse_socket_addr_text by blast
  with loopback show ?thesis
    by (simp add: parse_listen_def strip_prefix_def starts_with_def)
qed

lemma listen_text_roundtrip_witness:
  "parse_listen (''tcp:'' @ socket_addr_text \<lparr>sa_ip = V6 [0, 0, 0, 0, 0, 0, 0, 1], sa_port = 8891, sa_scope = 7\<rparr>) =
     Inr (Tcp_Addr \<lparr>sa_ip = V6 [0, 0, 0, 0, 0, 0, 0, 1], sa_port = 8891, sa_scope = 7\<rparr>) \<and>
   socket_addr_text \<lparr>sa_ip = V6 [0, 0, 0, 0, 0, 0, 0, 1], sa_port = 8891, sa_scope = 7\<rparr> = ''[::1%7]:8891''"
proof (rule conjI)
  have "parse_listen ''tcp:[0:0:0::1%0007]:08891'' =
      Inr (Tcp_Addr \<lparr>sa_ip = V6 [0, 0, 0, 0, 0, 0, 0, 1], sa_port = 8891, sa_scope = 7\<rparr>)"
    by code_simp
  from listen_text_roundtrip [OF this]
  show "parse_listen (''tcp:'' @ socket_addr_text \<lparr>sa_ip = V6 [0, 0, 0, 0, 0, 0, 0, 1], sa_port = 8891, sa_scope = 7\<rparr>) =
     Inr (Tcp_Addr \<lparr>sa_ip = V6 [0, 0, 0, 0, 0, 0, 0, 1], sa_port = 8891, sa_scope = 7\<rparr>)" .
qed code_simp

end
