(* ===== verification/Sign.thy ===== *)
theory Sign
  imports Config From_Domain Header
begin

text \<open>
  \<open>sign\<close> of src/dkim.rs: the header selection with From oversigned, the unsigned
  DKIM-Signature value, the signing of the canonical headers and the folded result, with
  every error branch.

  The specification side is the receiver of RFC 6376: its tag-list parser (section 3.2), its
  choice of header instances from the bottom up (section 5.4.2), the emptying of the
  \<open>b=\<close> tag and the bytes it verifies (section 3.7).
\<close>

section \<open>The code\<close>

definition signed_headers :: "bytes list" where
  "signed_headers =
     [''from'', ''sender'', ''reply-to'', ''subject'', ''date'', ''message-id'', ''to'', ''cc'',
      ''mime-version'', ''content-type'', ''content-transfer-encoding'', ''in-reply-to'',
      ''references'']"

datatype sign_error =
    Not_One_From
  | No_From_Domain
  | From_Domain_Mismatch bytes
  | Clock_Before_Epoch
  | Signer_Init bytes
  | Hash_Header bytes
  | Hash_Signature bytes
  | Signing_Failed bytes

definition last_instance :: "header list \<Rightarrow> bytes \<Rightarrow> header option" where
  "last_instance headers name = List.find (\<lambda>h. header_is h name) (rev headers)"

text \<open>One round of the selection loop on \<open>(selected, h_names)\<close>.\<close>

definition select_step :: "header list \<Rightarrow> header list \<times> bytes list \<Rightarrow> bytes \<Rightarrow> header list \<times> bytes list" where
  "select_step headers sel name =
     (let (selected, h_names) =
        (case last_instance headers name of
           Some header \<Rightarrow> (fst sel @ [header], snd sel @ [name])
         | None \<Rightarrow> sel)
      in (selected, if name = ''from'' then h_names @ [''from''] else h_names))"

definition select_headers :: "header list \<Rightarrow> header list \<times> bytes list" where
  "select_headers headers = foldl (select_step headers) ([], []) signed_headers"

definition unsigned_value :: "'k runtime_config \<Rightarrow> nat \<Rightarrow> bytes list \<Rightarrow> bytes \<Rightarrow> bytes" where
  "unsigned_value config timestamp h_names body_hash =
     ''v=1; a=rsa-sha256; c=relaxed/relaxed; d='' @ cfg_domain config @
     ''; s='' @ cfg_selector config @ ''; t='' @ dec timestamp @
     ''; h='' @ join '':'' h_names @ ''; bh='' @ body_hash @ ''; b=''"

text \<open>The checks of the From field, before anything is signed.\<close>

definition check_from :: "'k runtime_config \<Rightarrow> header list \<Rightarrow> sign_error + unit" where
  "check_from config headers =
     (case filter (\<lambda>h. header_is h ''from'') headers of
        [h] \<Rightarrow>
          (case from_domain (hdr_value h) of None \<Rightarrow> Inl No_From_Domain
           | Some d \<Rightarrow>
               if eq_ignore_ascii_case d (cfg_domain config) then Inr ()
               else Inl (From_Domain_Mismatch d))
      | _ \<Rightarrow> Inl Not_One_From)"

text \<open>\<open>now\<close> is the system clock in seconds since the epoch.\<close>

definition sign ::
  "('h, 'k, 's) openssl \<Rightarrow> int \<Rightarrow> 'k runtime_config \<Rightarrow> header list \<Rightarrow> bytes \<Rightarrow> sign_error + bytes" where
  "sign ossl now config headers body_hash =
     and_then (check_from config headers) (\<lambda>_.
     let (selected, h_names) = select_headers headers
     in if now < 0 then Inl Clock_Before_Epoch else
     let unsigned = unsigned_value config (nat now) h_names (encode_block ossl body_hash)
     in and_then (map_sum Signer_Init id (signer_new ossl (cfg_key config))) (\<lambda>signer.
     and_then (map_sum Hash_Header id
       (feed_all (signer_update ossl) signer
         (map (\<lambda>h. canonicalize_header (hdr_name h) (hdr_value h)) selected))) (\<lambda>signer.
     and_then (map_sum Hash_Signature id
       (signer_update ossl signer (canonicalize_signature_header unsigned))) (\<lambda>signer.
     and_then (map_sum Signing_Failed id (sign_to_vec ossl signer)) (\<lambda>signature.
       Inr (fold_signature (unsigned @ encode_block ossl signature)))))))"

section \<open>The receiver of RFC 6376\<close>

definition trim_fws :: "bytes \<Rightarrow> bytes" where
  "trim_fws v = rev (dropWhile is_fws (rev (dropWhile is_fws v)))"

text \<open>Section 3.2: tags are separated by semicolons; white space around names and values is
  dropped.\<close>

definition tag :: "bytes \<Rightarrow> bytes \<times> bytes" where
  "tag t = (case split_once CHR ''='' t of
      None \<Rightarrow> (trim_fws t, []) | Some (n, v) \<Rightarrow> (trim_fws n, trim_fws v))"

definition tags :: "bytes \<Rightarrow> (bytes \<times> bytes) list" where
  "tags v = map tag (split_on CHR '';'' v)"

text \<open>Section 3.7: the value of the \<open>b=\<close> tag is deleted.\<close>

definition empty_b_tag :: "bytes \<Rightarrow> bytes" where
  "empty_b_tag t = (if fst (tag t) = ''b'' then takeWhile (\<lambda>c. c \<noteq> CHR ''='') t @ ''='' else t)"

definition empty_b :: "bytes \<Rightarrow> bytes" where
  "empty_b v = join '';'' (map empty_b_tag (split_on CHR '';'' v))"

text \<open>Section 5.4.2: each name of \<open>h=\<close> takes the last instance that is still unused.\<close>

fun take_last :: "bytes \<Rightarrow> header list \<Rightarrow> (header \<times> header list) option" where
  "take_last name [] = None"
| "take_last name (h # hs) =
     (case take_last name hs of
        Some (x, rest) \<Rightarrow> Some (x, h # rest)
      | None \<Rightarrow> if header_is h name then Some (h, hs) else None)"

fun receiver_select :: "bytes list \<Rightarrow> header list \<Rightarrow> header list" where
  "receiver_select [] hs = []"
| "receiver_select (n # ns) hs =
     (case take_last n hs of
        None \<Rightarrow> receiver_select ns hs
      | Some (h, rest) \<Rightarrow> h # receiver_select ns rest)"

definition receiver_h_names :: "bytes \<Rightarrow> bytes list" where
  "receiver_h_names field =
     (case map_of (tags field) ''h'' of None \<Rightarrow> [] | Some v \<Rightarrow> map trim_fws (split_on CHR '':'' v))"

text \<open>The bytes whose signature the receiver checks, for a DKIM-Signature value and the
  header fields of the message it received.\<close>

definition receiver_input :: "bytes \<Rightarrow> header list \<Rightarrow> bytes" where
  "receiver_input field headers =
     concat (map (\<lambda>h. relaxed_header (hdr_name h) (hdr_value h) @ CRLF)
       (receiver_select (receiver_h_names field) headers)) @
     relaxed_header ''DKIM-Signature'' (empty_b field)"

text \<open>\<open>verify m b\<close> checks the base64 signature \<open>b\<close> of the bytes \<open>m\<close> under the key the
  receiver fetched for the \<open>d=\<close> and \<open>s=\<close> tags; \<open>bh\<close> is the base64 hash of the body it
  received.\<close>

definition receiver_accepts ::
  "(bytes \<Rightarrow> bytes \<Rightarrow> bool) \<Rightarrow> bytes \<Rightarrow> header list \<Rightarrow> bytes \<Rightarrow> bool" where
  "receiver_accepts verify field headers bh \<longleftrightarrow>
     map_of (tags field) ''v'' = Some ''1'' \<and>
     map_of (tags field) ''a'' = Some ''rsa-sha256'' \<and>
     map_of (tags field) ''c'' = Some ''relaxed/relaxed'' \<and>
     map_of (tags field) ''bh'' = Some bh \<and>
     ''from'' \<in> set (receiver_h_names field) \<and>
     (case map_of (tags field) ''b'' of None \<Rightarrow> False
      | Some b \<Rightarrow> verify (receiver_input field headers) b)"

definition signature_header :: "bytes \<Rightarrow> header" where
  "signature_header field = \<lparr>hdr_name = ''DKIM-Signature'', hdr_value = field\<rparr>"

section \<open>Selection\<close>

lemma header_is_lower: "lowercase n = n \<Longrightarrow> header_is h n \<longleftrightarrow> lowercase (hdr_name h) = n"
  by (simp add: header_is_def eq_ignore_ascii_case_def)

lemma lowercase_signed_headers: "n \<in> set signed_headers \<Longrightarrow> lowercase n = n"
  by (auto simp: signed_headers_def to_ascii_lowercase_def byte_simps)

lemma distinct_signed_headers: "distinct signed_headers"
  by (simp add: signed_headers_def)

lemma last_instance_filter:
  "last_instance hs n =
     (if filter (\<lambda>h. header_is h n) hs = [] then None else Some (last (filter (\<lambda>h. header_is h n) hs)))"
proof (induction hs rule: rev_induct)
  case (snoc h hs)
  then show ?case
    by (auto simp: last_instance_def split: list.splits)
qed (simp add: last_instance_def)

lemma take_last_None: "take_last n hs = None \<longleftrightarrow> filter (\<lambda>h. header_is h n) hs = []"
  by (induction hs) (auto split: option.splits)

lemma take_last_Some:
  "take_last n hs = Some (x, rest) \<Longrightarrow>
     \<exists>us vs. hs = us @ x # vs \<and> rest = us @ vs \<and> header_is x n \<and> filter (\<lambda>h. header_is h n) vs = []"
proof (induction hs arbitrary: rest)
  case (Cons h hs)
  show ?case
  proof (cases "take_last n hs")
    case None
    with Cons.prems have "x = h" "rest = hs" "header_is h n"
      by (auto split: if_splits)
    with None show ?thesis
      by (intro exI [of _ "[]"] exI [of _ hs]) (simp add: take_last_None)
  next
    case (Some xr)
    then obtain rest' where "take_last n hs = Some (x, rest')" "rest = h # rest'"
      using Cons.prems by (auto split: prod.splits)
    with Cons.IH [of rest'] show ?thesis
      by (metis append_Cons)
  qed
qed simp

lemma take_last_instance: "take_last n hs = Some (x, rest) \<Longrightarrow> last_instance hs n = Some x"
  by (drule take_last_Some) (auto simp: last_instance_filter)

lemma last_instance_None: "last_instance hs n = None \<longleftrightarrow> filter (\<lambda>h. header_is h n) hs = []"
  by (simp add: last_instance_filter)

text \<open>Taking instances of one name does not touch those of another.\<close>

lemma take_last_other:
  assumes "take_last n hs = Some (x, rest)" and "lowercase n = n" "lowercase m = m" "m \<noteq> n"
  shows "filter (\<lambda>h. header_is h m) rest = filter (\<lambda>h. header_is h m) hs"
  using take_last_Some [OF assms(1)] assms(2-4) by (auto simp: header_is_lower)

lemma last_instance_cong:
  "filter (\<lambda>h. header_is h n) hs = filter (\<lambda>h. header_is h n) hs' \<Longrightarrow>
     last_instance hs n = last_instance hs' n"
  by (simp add: last_instance_filter)

lemma receiver_select_instances:
  assumes "distinct ns" and "\<forall>n \<in> set ns. lowercase n = n"
    and "\<forall>n \<in> set ns. filter (\<lambda>h. header_is h n) hs' = filter (\<lambda>h. header_is h n) hs"
  shows "receiver_select (filter (\<lambda>n. last_instance hs n \<noteq> None) ns) hs' =
     List.map_filter (last_instance hs) ns"
  using assms
proof (induction ns arbitrary: hs')
  case (Cons n ns)
  have eq: "last_instance hs' n = last_instance hs n"
    using Cons.prems(3) by (intro last_instance_cong) simp
  show ?case
  proof (cases "take_last n hs'")
    case None
    then have "last_instance hs n = None"
      using eq last_instance_None [of hs' n] by (simp add: take_last_None)
    with Cons show ?thesis
      by (simp add: map_filter_simps)
  next
    case (Some xr)
    then obtain x rest where xr: "take_last n hs' = Some (x, rest)"
      by (cases xr) simp
    have "\<forall>m \<in> set ns. filter (\<lambda>h. header_is h m) rest = filter (\<lambda>h. header_is h m) hs"
    proof
      fix m assume m: "m \<in> set ns"
      then have "m \<noteq> n" "lowercase m = m" "lowercase n = n"
        using Cons.prems(1,2) by auto
      then show "filter (\<lambda>h. header_is h m) rest = filter (\<lambda>h. header_is h m) hs"
        using take_last_other [OF xr] Cons.prems(3) m by simp
    qed
    then have "receiver_select (filter (\<lambda>n. last_instance hs n \<noteq> None) ns) rest =
        List.map_filter (last_instance hs) ns"
      using Cons.prems(1,2) by (intro Cons.IH) simp_all
    moreover have "last_instance hs n = Some x"
      using take_last_instance [OF xr] eq by simp
    ultimately show ?thesis
      using xr by (simp add: map_filter_simps)
  qed
qed (simp add: map_filter_simps)

lemma select_steps:
  "''from'' \<notin> set ns \<Longrightarrow>
     foldl (select_step hs) (sel, nm) ns =
       (sel @ List.map_filter (last_instance hs) ns, nm @ filter (\<lambda>n. last_instance hs n \<noteq> None) ns)"
  by (induction ns arbitrary: sel nm) (auto simp: map_filter_simps select_step_def split: option.splits)

text \<open>Everything but From, in the order of the code's table.\<close>

definition other_headers :: "bytes list" where
  "other_headers = tl signed_headers"

lemma signed_headers_from: "signed_headers = ''from'' # other_headers"
  by (simp add: other_headers_def signed_headers_def)

lemma from_notin_other_headers: "''from'' \<notin> set other_headers"
  using distinct_signed_headers by (simp add: signed_headers_from)

lemma select_headers_single_from:
  assumes "filter (\<lambda>h. header_is h ''from'') hs = [f]"
  shows "select_headers hs =
     (f # List.map_filter (last_instance hs) other_headers,
      ''from'' # ''from'' # filter (\<lambda>n. last_instance hs n \<noteq> None) other_headers)"
proof -
  have "last_instance hs ''from'' = Some f"
    using assms by (simp add: last_instance_filter)
  then show ?thesis
    by (simp add: select_headers_def signed_headers_from select_steps from_notin_other_headers
        select_step_def)
qed

lemma receiver_select_ignores:
  assumes "\<forall>n \<in> set ns. \<not> header_is x n"
  shows "receiver_select ns (x # hs) = receiver_select ns hs"
  using assms
proof (induction ns arbitrary: hs)
  case (Cons n ns)
  then show ?case
    by (cases "take_last n hs") (auto split: prod.splits)
qed simp

text \<open>The receiver takes the instances the signer took: the last of each name, the oversigned
  second From adding nothing.\<close>

lemma receiver_select_select_headers:
  assumes "filter (\<lambda>h. header_is h ''from'') hs = [f]"
  shows "receiver_select (snd (select_headers hs)) hs = fst (select_headers hs)"
proof -
  have "take_last ''from'' hs \<noteq> None"
    using assms by (simp add: take_last_None)
  then obtain x rest where t: "take_last ''from'' hs = Some (x, rest)"
    by auto
  from take_last_Some [OF t] obtain us vs where uv: "hs = us @ x # vs" "rest = us @ vs"
    "header_is x ''from''"
    by blast
  then have "x = f" "filter (\<lambda>h. header_is h ''from'') rest = []"
    using assms by (auto simp: append_eq_Cons_conv)
  moreover have "receiver_select (filter (\<lambda>n. last_instance hs n \<noteq> None) other_headers) rest =
      List.map_filter (last_instance hs) other_headers"
  proof (rule receiver_select_instances)
    show "distinct other_headers" "\<forall>n \<in> set other_headers. lowercase n = n"
      using distinct_signed_headers lowercase_signed_headers by (simp_all add: signed_headers_from)
    show "\<forall>n \<in> set other_headers. filter (\<lambda>h. header_is h n) rest = filter (\<lambda>h. header_is h n) hs"
    proof
      fix n assume "n \<in> set other_headers"
      then have "n \<noteq> ''from''" "lowercase n = n"
        using from_notin_other_headers lowercase_signed_headers by (auto simp: signed_headers_from)
      then show "filter (\<lambda>h. header_is h n) rest = filter (\<lambda>h. header_is h n) hs"
        using take_last_other [OF t] lowercase_signed_headers [of "''from''"]
        by (simp add: signed_headers_from)
    qed
  qed
  moreover have "take_last ''from'' rest = None"
    using calculation(2) by (simp add: take_last_None)
  ultimately show ?thesis
    using t by (simp add: select_headers_single_from [OF assms])
qed

section \<open>The folded field, tag by tag\<close>

text \<open>What folding puts between two tags.\<close>

definition fold_sep :: "bytes \<Rightarrow> bool" where
  "fold_sep sep \<longleftrightarrow> sep = [SP] \<or> sep = CRLF @ [TAB]"

lemma fold_sep_clean: "fold_sep sep \<Longrightarrow> c \<in> set sep \<Longrightarrow> is_fws c"
  by (auto simp: fold_sep_def)

lemma fws_not_structural [simp]:
  "\<not> is_fws CHR '';''" "\<not> is_fws CHR ''=''" "\<not> is_fws CHR '':''"
  by (simp_all add: is_fws_def)

lemma split_fold_loop:
  assumes "\<forall>t \<in> set (ts @ [l]). CHR '';'' \<notin> set t" and "0 < column"
  shows "\<exists>seps. length seps = Suc (length ts) \<and> (\<forall>s \<in> set seps. fold_sep s) \<and>
    split_on CHR '';'' (fold_loop [] column (map (\<lambda>t. t @ '';'') ts @ [l])) = map2 (@) seps (ts @ [l])"
  using assms
proof (induction ts arbitrary: column)
  case Nil
  have sep: "split_on CHR '';'' (fold_loop [] column [l]) =
      [(if fold_limit < column + length l + 1 then CRLF @ [TAB] else [SP]) @ l]"
    using Nil by (simp add: fold_loop_token)
  show ?case
    by (rule exI [of _ "[if fold_limit < column + length l + 1 then CRLF @ [TAB] else [SP]]"])
      (use sep in \<open>simp add: fold_sep_def\<close>)
next
  case (Cons t ts)
  define sep where "sep = (if fold_limit < column + length t + 2 then CRLF @ [TAB] else [SP])"
  define column' where "column' = (if fold_limit < column + length t + 2 then length t + 2
    else column + length t + 2)"
  have "\<exists>seps. length seps = Suc (length ts) \<and> (\<forall>s \<in> set seps. fold_sep s) \<and>
      split_on CHR '';'' (fold_loop [] column' (map (\<lambda>t. t @ '';'') ts @ [l])) = map2 (@) seps (ts @ [l])"
    using Cons.prems by (intro Cons.IH) (auto simp: column'_def)
  then obtain seps where seps: "length seps = Suc (length ts)" "\<forall>s \<in> set seps. fold_sep s"
    "split_on CHR '';'' (fold_loop [] column' (map (\<lambda>t. t @ '';'') ts @ [l])) = map2 (@) seps (ts @ [l])"
    by blast
  have fold: "fold_loop [] column (map (\<lambda>t. t @ '';'') (t # ts) @ [l]) =
      (sep @ t) @ CHR '';'' # fold_loop [] column' (map (\<lambda>t. t @ '';'') ts @ [l])"
    using Cons.prems(2) by (simp add: fold_loop_token sep_def column'_def)
  have clean: "CHR '';'' \<notin> set (sep @ t)"
    using Cons.prems(1) by (simp add: sep_def)
  have "split_on CHR '';'' (fold_loop [] column (map (\<lambda>t. t @ '';'') (t # ts) @ [l])) =
      (sep @ t) # map2 (@) seps (ts @ [l])"
    unfolding fold by (simp only: split_on_append [OF clean] seps(3))
  with seps show ?case
    by (intro exI [of _ "sep # seps"]) (simp add: fold_sep_def sep_def)
qed

text \<open>A field made of tags \<open>ts\<close> and a last tag \<open>l\<close>, before folding.\<close>

definition tag_list :: "bytes list \<Rightarrow> bytes \<Rightarrow> bytes" where
  "tag_list ts l = join [SP] (map (\<lambda>t. t @ '';'') ts @ [l])"

lemma split_tag_list:
  assumes "\<forall>t \<in> set (ts @ [l]). CHR '';'' \<notin> set t \<and> SP \<notin> set t" and "ts \<noteq> []"
  shows "\<exists>seps. length seps = length ts \<and> (\<forall>s \<in> set seps. fold_sep s) \<and>
    split_on CHR '';'' (fold_signature (tag_list ts l)) = map2 (@) ([] # seps) (ts @ [l])"
proof -
  obtain t us where ts: "ts = t # us"
    using assms(2) by (cases ts) auto
  have "split_on SP (tag_list ts l) = map (\<lambda>t. t @ '';'') ts @ [l]"
    unfolding tag_list_def using assms(1) by (intro split_on_join) auto
  then have "fold_signature (tag_list ts l) =
      t @ CHR '';'' # fold_loop [] (Suc (length t)) (map (\<lambda>t. t @ '';'') us @ [l])"
    by (simp add: fold_signature_def ts fold_loop_token)
  moreover obtain seps where "length seps = Suc (length us)" "\<forall>s \<in> set seps. fold_sep s"
    "split_on CHR '';'' (fold_loop [] (Suc (length t)) (map (\<lambda>t. t @ '';'') us @ [l])) =
      map2 (@) seps (us @ [l])"
    using split_fold_loop [of us l "Suc (length t)"] assms(1) ts by auto
  ultimately show ?thesis
    using assms(1) ts by (auto simp: split_on_append)
qed

lemma trim_fws_sep: "\<forall>c \<in> set sep. is_fws c \<Longrightarrow> trim_fws (sep @ v) = trim_fws v"
  by (simp add: trim_fws_def dropWhile_append)

lemma trim_fws_id:
  assumes "\<forall>c \<in> set v. \<not> is_fws c"
  shows "trim_fws v = v"
proof -
  have "dropWhile is_fws u = u" if "\<forall>c \<in> set u. \<not> is_fws c" for u
    using that by (cases u) auto
  from this [of v] this [of "rev v"] assms show ?thesis
    by (simp add: trim_fws_def)
qed

lemma split_once_sep: "CHR ''='' \<notin> set sep \<Longrightarrow> split_once CHR ''='' (sep @ t) =
    map_option (\<lambda>(n, v). (sep @ n, v)) (split_once CHR ''='' t)"
  by (auto simp: split_once_def takeWhile_append dropWhile_append)

lemma tag_sep:
  assumes "\<forall>c \<in> set sep. is_fws c"
  shows "tag (sep @ t) = tag t"
proof -
  have "CHR ''='' \<notin> set sep"
    using assms by auto
  then show ?thesis
    using assms by (auto simp: tag_def split_once_sep trim_fws_sep split: option.splits)
qed

lemma map_map2_cong:
  assumes "length xs = length ys" and "\<And>x y. x \<in> set xs \<Longrightarrow> y \<in> set ys \<Longrightarrow> f (g x y) = h y"
  shows "map f (map2 g xs ys) = map h ys"
  using assms
proof (induction xs ys rule: list_induct2)
  case (Cons x xs y ys)
  then show ?case
    by simp
qed simp

lemma tags_fold_tag_list:
  assumes "\<forall>t \<in> set (ts @ [l]). CHR '';'' \<notin> set t \<and> SP \<notin> set t" and "ts \<noteq> []"
  shows "tags (fold_signature (tag_list ts l)) = map tag (ts @ [l])"
proof -
  obtain seps where s: "length seps = length ts" "\<forall>s \<in> set seps. fold_sep s"
    "split_on CHR '';'' (fold_signature (tag_list ts l)) = map2 (@) ([] # seps) (ts @ [l])"
    using split_tag_list [OF assms] by blast
  show ?thesis
    unfolding tags_def s(3)
    by (rule map_map2_cong) (use s(1,2) fold_sep_clean in \<open>auto intro!: tag_sep\<close>)
qed

lemma words_fold_sep: "fold_sep sep \<Longrightarrow> words (u @ sep @ v) = words u @ words v"
  by (auto simp: fold_sep_def words_append_fws)

lemma words_tag_list:
  assumes "length seps = length ts" and "\<forall>s \<in> set seps. fold_sep s" and "ts \<noteq> []"
  shows "words (join '';'' (map2 (@) ([] # seps) (ts @ [l]))) = words (tag_list ts l)"
proof -
  have "words (u @ join '';'' (map2 (@) (sep # seps) (ts @ [l]))) = words u @ words (tag_list ts l)"
    if "length seps = length ts" and "\<forall>s \<in> set (sep # seps). fold_sep s" for u sep seps ts
    using that
  proof (induction ts arbitrary: u sep seps)
    case Nil
    then show ?case
      by (simp add: tag_list_def words_fold_sep)
  next
    case (Cons t ts)
    then obtain sep' seps' where s: "seps = sep' # seps'"
      by (cases seps) auto
    have "join '';'' (map2 (@) (sep # seps) ((t # ts) @ [l])) =
        sep @ (t @ '';'') @ join '';'' (map2 (@) seps (ts @ [l]))"
      using s by (cases ts) (simp_all add: join_Cons)
    moreover have "words (u @ sep @ (t @ '';'') @ join '';'' (map2 (@) seps (ts @ [l]))) =
        words u @ words ((t @ '';'') @ join '';'' (map2 (@) seps (ts @ [l])))"
      using Cons.prems(2) by (intro words_fold_sep) simp
    moreover have "words ((t @ '';'') @ join '';'' (map2 (@) seps (ts @ [l]))) =
        words (t @ '';'') @ words (tag_list ts l)"
      using Cons.IH [of seps' sep' "t @ '';''"] Cons.prems s by simp
    moreover have "words (tag_list (t # ts) l) = words (t @ '';'') @ words (tag_list ts l)"
      using words_append_fws [of SP "t @ '';''"] by (simp add: tag_list_def join_Cons)
    ultimately show ?case
      by simp
  qed
  note rest = this
  obtain t us sep seps' where "ts = t # us" "seps = sep # seps'"
    using assms by (cases ts; cases seps) auto
  then show ?thesis
    using rest [of seps' us sep "t @ '';''"] assms words_append_fws [of SP "t @ '';''"]
    by (simp add: join_Cons tag_list_def)
qed

text \<open>Emptying the last tag, \<open>b=\<close>, of the folded field leaves the words of the unsigned value.\<close>

lemma words_empty_b:
  assumes "\<forall>t \<in> set ts. CHR '';'' \<notin> set t \<and> SP \<notin> set t \<and> fst (tag t) \<noteq> ''b''" and "ts \<noteq> []"
    and "CHR '';'' \<notin> set s" "SP \<notin> set s"
  shows "words (empty_b (fold_signature (tag_list ts (''b='' @ s)))) = words (tag_list ts ''b='')"
proof -
  obtain seps where seps: "length seps = length ts" "\<forall>s \<in> set seps. fold_sep s"
    "split_on CHR '';'' (fold_signature (tag_list ts (''b='' @ s))) = map2 (@) ([] # seps) (ts @ [''b='' @ s])"
    using split_tag_list [of ts "''b='' @ s"] assms by auto
  have "map empty_b_tag (map2 (@) ss (us @ [''b='' @ s])) = map2 (@) ss (us @ [''b=''])"
    if "length ss = Suc (length us)" and "\<forall>s \<in> set ss. s = [] \<or> fold_sep s"
      and "\<forall>t \<in> set us. fst (tag t) \<noteq> ''b''" for ss us
    using that
  proof (induction us arbitrary: ss)
    case Nil
    then obtain sep where sep: "ss = [sep]" "sep = [] \<or> fold_sep sep"
      by (cases ss) auto
    then have "tag (sep @ ''b='' @ s) = tag (''b='' @ s)"
      using fold_sep_clean [of sep] by (intro tag_sep) auto
    then have "fst (tag (sep @ ''b='' @ s)) = ''b''"
      by (simp add: tag_def split_once_def trim_fws_def is_fws_def)
    with sep show ?case
      by (auto simp: empty_b_tag_def fold_sep_def)
  next
    case (Cons t us)
    then obtain sep ss' where ss: "ss = sep # ss'" "sep = [] \<or> fold_sep sep"
      by (cases ss) auto
    then have "tag (sep @ t) = tag t"
      using fold_sep_clean [of sep] by (intro tag_sep) auto
    with Cons ss(1) show ?case
      by (simp add: empty_b_tag_def)
  qed
  then have "empty_b (fold_signature (tag_list ts (''b='' @ s))) = join '';'' (map2 (@) ([] # seps) (ts @ [''b='']))"
    using seps assms(1) by (simp add: empty_b_def del: zip_Cons_Cons)
  then show ?thesis
    using words_tag_list [OF seps(1,2) assms(2)] by simp
qed

section \<open>The tags of the generated field\<close>

definition tag_texts :: "'k runtime_config \<Rightarrow> nat \<Rightarrow> bytes list \<Rightarrow> bytes \<Rightarrow> bytes list" where
  "tag_texts config timestamp h_names body_hash =
     [''v=1'', ''a=rsa-sha256'', ''c=relaxed/relaxed'', ''d='' @ cfg_domain config,
      ''s='' @ cfg_selector config, ''t='' @ dec timestamp, ''h='' @ join '':'' h_names,
      ''bh='' @ body_hash]"

lemma unsigned_value_tag_list:
  "unsigned_value config t h_names bh @ s = tag_list (tag_texts config t h_names bh) (''b='' @ s)"
  by (simp add: unsigned_value_def tag_list_def tag_texts_def)

definition plain :: "bytes \<Rightarrow> bool" where
  "plain v \<longleftrightarrow> (\<forall>c \<in> set v. \<not> is_fws c \<and> c \<noteq> CHR '';'')"

lemma plain_simps [simp]:
  "plain []" "plain (c # v) \<longleftrightarrow> \<not> is_fws c \<and> c \<noteq> CHR '';'' \<and> plain v"
  "plain (u @ v) \<longleftrightarrow> plain u \<and> plain v"
  by (auto simp: plain_def)

lemma plain_clean: "plain v \<Longrightarrow> CHR '';'' \<notin> set v \<and> SP \<notin> set v"
  unfolding plain_def using is_fws_simps(1) by blast

lemma plain_trim: "plain v \<Longrightarrow> trim_fws v = v"
  by (simp add: plain_def trim_fws_id)

lemma tag_plain:
  "CHR ''='' \<notin> set n \<Longrightarrow> plain n \<Longrightarrow> plain v \<Longrightarrow> tag (n @ CHR ''='' # v) = (n, v)"
  by (simp add: tag_def split_once_Some_iff [THEN iffD2] plain_trim)

lemma plain_byte:
  "is_ascii_alphanumeric b \<or> b = CHR ''-'' \<or> b = CHR ''.'' \<Longrightarrow> \<not> is_fws b \<and> b \<noteq> CHR '';''"
  by (auto simp: is_fws_def byte_simps)

lemma digit_alphanumeric: "is_ascii_alphanumeric (char_of (48 + n mod (10 :: nat)))"
proof -
  have "n mod 10 < 10"
    by simp
  then have "code (char_of (48 + n mod 10)) = 48 + n mod 10"
    by (intro code_char_of) linarith
  with \<open>n mod 10 < 10\<close> show ?thesis
    unfolding is_ascii_alphanumeric_def is_ascii_digit_def by linarith
qed

lemma plain_dec: "plain (dec n)"
proof (induction n rule: dec.induct)
  case (1 n)
  have "plain [char_of (48 + n mod 10)]"
    using plain_byte [OF disjI1 [OF digit_alphanumeric]] by simp
  with 1 show ?case
    by (subst dec.simps) simp
qed

lemma plain_dns_name: "dns_name v \<Longrightarrow> plain v"
  using dns_name_bytes [of v] plain_byte by (auto simp: plain_def)

lemma plain_signed_headers: "n \<in> set signed_headers \<Longrightarrow> plain n \<and> CHR '':'' \<notin> set n"
  by (auto simp: signed_headers_def is_fws_def)

lemma plain_join: "\<forall>p \<in> set ps. plain p \<Longrightarrow> plain (join '':'' ps)"
  by (induction "'':''" ps rule: join.induct) simp_all

lemma select_step_names: "set (snd (select_step hs sel n)) \<subseteq> insert n (set (snd sel))"
  by (cases sel) (auto simp: select_step_def split: option.splits if_splits)

lemma select_headers_names: "set (snd (select_headers hs)) \<subseteq> set signed_headers"
proof -
  have "set (snd (foldl (select_step hs) sel ns)) \<subseteq> set (snd sel) \<union> set ns" for sel ns
  proof (induction ns arbitrary: sel)
    case (Cons n ns)
    show ?case
      using Cons.IH [of "select_step hs sel n"] select_step_names [of hs sel n] by auto
  qed simp
  from this [of "([], [])" signed_headers] show ?thesis
    by (simp add: select_headers_def)
qed

lemma tags_of_parts:
  assumes "plain d" "plain s" "plain bh" "plain b" "plain h" "plain t"
  shows "map tag [''v=1'', ''a=rsa-sha256'', ''c=relaxed/relaxed'', ''d='' @ d, ''s='' @ s,
      ''t='' @ t, ''h='' @ h, ''bh='' @ bh, ''b='' @ b] =
    [(''v'', ''1''), (''a'', ''rsa-sha256''), (''c'', ''relaxed/relaxed''), (''d'', d), (''s'', s),
     (''t'', t), (''h'', h), (''bh'', bh), (''b'', b)]"
  using assms tag_plain [of "''v''" "''1''"] tag_plain [of "''a''" "''rsa-sha256''"]
    tag_plain [of "''c''" "''relaxed/relaxed''"] tag_plain [of "''d''" d] tag_plain [of "''s''" s]
    tag_plain [of "''t''" t] tag_plain [of "''h''" h] tag_plain [of "''bh''" bh] tag_plain [of "''b''" b]
  by (simp add: is_fws_def)

section \<open>What a returned field consists of\<close>

lemma check_from_Inr:
  assumes "check_from config hs = Inr u"
  obtains f d where "filter (\<lambda>h. header_is h ''from'') hs = [f]" and "from_domain (hdr_value f) = Some d"
    and "eq_ignore_ascii_case d (cfg_domain config)"
  using assms by (auto simp: check_from_def split: list.splits option.splits if_splits)

lemma sign_Inr:
  assumes "sign ossl now c hs bh = Inr field"
  obtains s0 s1 s2 sig where "check_from c hs = Inr ()" and "0 \<le> now"
    and "signer_new ossl (cfg_key c) = Inr s0"
    and "feed_all (signer_update ossl) s0
      (map (\<lambda>h. canonicalize_header (hdr_name h) (hdr_value h)) (fst (select_headers hs))) = Inr s1"
    and "signer_update ossl s1 (canonicalize_signature_header
      (unsigned_value c (nat now) (snd (select_headers hs)) (encode_block ossl bh))) = Inr s2"
    and "sign_to_vec ossl s2 = Inr sig"
    and "field = fold_signature (unsigned_value c (nat now) (snd (select_headers hs)) (encode_block ossl bh) @
      encode_block ossl sig)"
  using assms by (auto simp: sign_def Let_def split: prod.splits if_splits)

text \<open>The receiver's check is complete for the key: whatever the key signs, verifies.\<close>

definition signatures_verify ::
  "('h, 'k, 's) openssl \<Rightarrow> 'k \<Rightarrow> (bytes \<Rightarrow> bytes \<Rightarrow> bool) \<Rightarrow> bool" where
  "signatures_verify ossl key verify \<longleftrightarrow>
     (\<forall>s m s' sig. signer_new ossl key = Inr s \<and> signer_update ossl s m = Inr s' \<and>
        sign_to_vec ossl s' = Inr sig \<longrightarrow> verify m (encode_block ossl sig))"

text \<open>What the program needs of OpenSSL for its signatures.\<close>

locale dkim_signing = fallible_consumer "signer_update ossl" + base64_encoding "encode_block ossl"
  for ossl :: "('h, 'k, 's) openssl"
begin

lemma plain_encode: "plain (encode_block ossl bs)"
  using clean [of _ bs] by (auto simp: plain_def is_fws_def)

lemma plain_parts:
  assumes "config_ok o' c"
  shows "plain (cfg_domain c)" and "plain (cfg_selector c)" and "plain (dec t)"
    and "plain (join '':'' (snd (select_headers hs)))" and "plain (encode_block ossl bs)"
proof -
  show "plain (join '':'' (snd (select_headers hs)))"
    using plain_signed_headers select_headers_names by (blast intro: plain_join)
qed (use assms in \<open>simp_all add: config_ok_def plain_dns_name plain_dec plain_encode\<close>)

text \<open>The tags a receiver reads from the field, whatever the folding.\<close>

lemma tags_field:
  assumes "config_ok o' c"
  shows "tags (fold_signature (unsigned_value c t (snd (select_headers hs)) (encode_block ossl bh) @
      encode_block ossl sig)) =
    [(''v'', ''1''), (''a'', ''rsa-sha256''), (''c'', ''relaxed/relaxed''), (''d'', cfg_domain c),
     (''s'', cfg_selector c), (''t'', dec t), (''h'', join '':'' (snd (select_headers hs))),
     (''bh'', encode_block ossl bh), (''b'', encode_block ossl sig)]"
proof -
  let ?ts = "tag_texts c t (snd (select_headers hs)) (encode_block ossl bh)"
  let ?l = "''b='' @ encode_block ossl sig"
  note parts = plain_parts [OF assms]
  have "\<forall>u \<in> set (?ts @ [?l]). plain u"
    using parts by (simp add: tag_texts_def is_fws_def)
  then have "\<forall>u \<in> set (?ts @ [?l]). CHR '';'' \<notin> set u \<and> SP \<notin> set u"
    using plain_clean by blast
  then have "tags (fold_signature (tag_list ?ts ?l)) = map tag (?ts @ [?l])"
    by (rule tags_fold_tag_list) (simp add: tag_texts_def)
  also have "\<dots> = [(''v'', ''1''), (''a'', ''rsa-sha256''), (''c'', ''relaxed/relaxed''), (''d'', cfg_domain c),
     (''s'', cfg_selector c), (''t'', dec t), (''h'', join '':'' (snd (select_headers hs))),
     (''bh'', encode_block ossl bh), (''b'', encode_block ossl sig)]"
    using tags_of_parts [OF parts(1,2,5,5,4,3)] by (simp add: tag_texts_def)
  finally show ?thesis
    by (simp add: unsigned_value_tag_list)
qed

text \<open>The receiver empties \<open>b=\<close> and is left with what the signer signed.\<close>

lemma empty_b_field:
  assumes "config_ok o' c"
  shows "relaxed_header ''DKIM-Signature'' (empty_b (fold_signature
      (unsigned_value c t (snd (select_headers hs)) (encode_block ossl bh) @ encode_block ossl sig))) =
    canonicalize_signature_header (unsigned_value c t (snd (select_headers hs)) (encode_block ossl bh))"
proof -
  let ?ts = "tag_texts c t (snd (select_headers hs)) (encode_block ossl bh)"
  note parts = plain_parts [OF assms]
  have plain_unsigned: "tag_list ?ts ''b='' =
      unsigned_value c t (snd (select_headers hs)) (encode_block ossl bh)"
    using unsigned_value_tag_list [of c t _ _ "[]"] by simp
  have "map fst (map tag (?ts @ [''b='' @ []])) = [''v'', ''a'', ''c'', ''d'', ''s'', ''t'', ''h'', ''bh'', ''b'']"
    using tags_of_parts [OF parts(1,2,5) plain_simps(1) parts(4,3)] by (simp add: tag_texts_def)
  then have "''b'' \<notin> set (map fst (map tag ?ts))"
    by (simp add: tag_texts_def)
  then have names: "\<forall>u \<in> set ?ts. fst (tag u) \<noteq> ''b''"
    by (metis image_eqI list.set_map)
  have "\<forall>u \<in> set ?ts. plain u"
    using parts by (simp add: tag_texts_def is_fws_def)
  then have "\<forall>u \<in> set ?ts. CHR '';'' \<notin> set u \<and> SP \<notin> set u \<and> fst (tag u) \<noteq> ''b''"
    using names plain_clean by blast
  moreover have "CHR '';'' \<notin> set (encode_block ossl sig)" "SP \<notin> set (encode_block ossl sig)"
    using plain_clean [OF plain_encode [of sig]] by simp_all
  ultimately have "words (empty_b (fold_signature (tag_list ?ts (''b='' @ encode_block ossl sig)))) =
      words (tag_list ?ts ''b='')"
    using words_empty_b [of ?ts "encode_block ossl sig"] by (simp add: tag_texts_def)
  then show ?thesis
    unfolding unsigned_value_tag_list [symmetric] plain_unsigned canonicalize_signature_header_relaxed
    by (rule relaxed_header_words)
qed

lemma h_names_field:
  assumes "config_ok o' c" and "filter (\<lambda>h. header_is h ''from'') hs = [f]"
  shows "receiver_h_names (fold_signature (unsigned_value c t (snd (select_headers hs)) (encode_block ossl bh) @
      encode_block ossl sig)) = snd (select_headers hs)"
proof -
  let ?ns = "snd (select_headers hs)"
  have "?ns \<noteq> []"
    by (simp add: select_headers_single_from [OF assms(2)])
  then have "split_on CHR '':'' (join '':'' ?ns) = ?ns"
    using plain_signed_headers select_headers_names by (intro split_on_join) blast+
  moreover have "map trim_fws ?ns = ?ns"
    using plain_signed_headers select_headers_names [of hs] plain_trim by (intro map_idI) blast
  ultimately show ?thesis
    by (simp add: receiver_h_names_def tags_field [OF assms(1)])
qed

text \<open>The receiver finds in the field the names the signer chose, and takes the same instances.\<close>

lemma field_selection:
  assumes "sign ossl now c hs bh = Inr field" and "config_ok o' c"
  shows "receiver_h_names field = snd (select_headers hs)"
    and "receiver_select (receiver_h_names field) (signature_header field # hs) = fst (select_headers hs)"
proof -
  let ?u = "unsigned_value c (nat now) (snd (select_headers hs)) (encode_block ossl bh)"
  obtain s0 s1 s2 sig where r: "check_from c hs = Inr ()" "field = fold_signature (?u @ encode_block ossl sig)"
    using assms(1) by (rule sign_Inr)
  obtain f where f: "filter (\<lambda>h. header_is h ''from'') hs = [f]"
    using r(1) by (rule check_from_Inr)
  show names: "receiver_h_names field = snd (select_headers hs)"
    using h_names_field [OF assms(2) f] r(2) by simp
  have "\<forall>n \<in> set (snd (select_headers hs)). \<not> header_is (signature_header field) n"
  proof
    fix n assume "n \<in> set (snd (select_headers hs))"
    then have "n \<in> set signed_headers"
      using select_headers_names by blast
    then show "\<not> header_is (signature_header field) n"
      by (auto simp: signed_headers_def signature_header_def header_is_def eq_ignore_ascii_case_def
          to_ascii_lowercase_def byte_simps)
  qed
  then show "receiver_select (receiver_h_names field) (signature_header field # hs) =
      fst (select_headers hs)"
    by (simp add: names receiver_select_ignores receiver_select_select_headers [OF f])
qed

text \<open>The bytes fed to the signer are the bytes the receiver verifies.\<close>

lemma signed_bytes:
  assumes "sign ossl now c hs bh = Inr field" and "config_ok o' c"
  obtains s0 s2 sig where "signer_new ossl (cfg_key c) = Inr s0"
    and "signer_update ossl s0 (receiver_input field (signature_header field # hs)) = Inr s2"
    and "sign_to_vec ossl s2 = Inr sig"
    and "tags field = [(''v'', ''1''), (''a'', ''rsa-sha256''), (''c'', ''relaxed/relaxed''),
      (''d'', cfg_domain c), (''s'', cfg_selector c), (''t'', dec (nat now)),
      (''h'', join '':'' (snd (select_headers hs))), (''bh'', encode_block ossl bh),
      (''b'', encode_block ossl sig)]"
proof -
  let ?u = "unsigned_value c (nat now) (snd (select_headers hs)) (encode_block ossl bh)"
  obtain s0 s1 s2 sig where r: "signer_new ossl (cfg_key c) = Inr s0"
    "feed_all (signer_update ossl) s0
      (map (\<lambda>h. canonicalize_header (hdr_name h) (hdr_value h)) (fst (select_headers hs))) = Inr s1"
    "signer_update ossl s1 (canonicalize_signature_header ?u) = Inr s2"
    "sign_to_vec ossl s2 = Inr sig" "field = fold_signature (?u @ encode_block ossl sig)"
    using assms(1) by (rule sign_Inr)
  have "receiver_input field (signature_header field # hs) =
      concat (map (\<lambda>h. canonicalize_header (hdr_name h) (hdr_value h)) (fst (select_headers hs))) @
      canonicalize_signature_header ?u"
    using empty_b_field [OF assms(2)] field_selection [OF assms] r(5)
    by (simp add: receiver_input_def canonicalize_header_relaxed)
  then have "signer_update ossl s0 (receiver_input field (signature_header field # hs)) = Inr s2"
    using feed_append [OF feed_all_concat [OF r(2)]] r(3) by simp
  with r tags_field [OF assms(2)] show ?thesis
    by (intro that) simp_all
qed

text \<open>The From domain is the signing domain.\<close>

lemma signed_domain:
  assumes "sign ossl now c hs bh = Inr field" and "config_ok o' c"
  shows "\<exists>f. filter (\<lambda>h. header_is h ''from'') hs = [f] \<and> from_domain (hdr_value f) = Some (cfg_domain c)"
proof -
  obtain s0 s1 s2 sig where "check_from c hs = Inr ()"
    using assms(1) by (rule sign_Inr)
  then obtain f d where f: "filter (\<lambda>h. header_is h ''from'') hs = [f]" "from_domain (hdr_value f) = Some d"
    "eq_ignore_ascii_case d (cfg_domain c)"
    by (rule check_from_Inr)
  have "address_domain st a = Some d \<Longrightarrow> lowercase d = d" for st a
    using address_domain_Some(2) [of st a d] by (intro map_idI) (simp add: to_ascii_lowercase_id)
  then have "lowercase d = d"
    using from_domain_Some [OF f(2)] by blast
  moreover have "lowercase (cfg_domain c) = cfg_domain c"
    using assms(2) by (simp add: config_ok_def dns_name_def)
  ultimately show ?thesis
    using f by (simp add: eq_ignore_ascii_case_lower)
qed

text \<open>So a receiver accepts the field, when signatures made with the key verify.\<close>

lemma sign_accepted:
  assumes "sign ossl now c hs bh = Inr field" and "config_ok o' c"
    and "signatures_verify ossl (cfg_key c) verify"
  shows "receiver_accepts verify field (signature_header field # hs) (encode_block ossl bh)"
proof -
  obtain s0 s1 s2 sig where "check_from c hs = Inr ()"
    using assms(1) by (rule sign_Inr)
  then obtain f where f: "filter (\<lambda>h. header_is h ''from'') hs = [f]"
    by (rule check_from_Inr)
  obtain s0 s2 sig where r: "signer_new ossl (cfg_key c) = Inr s0"
    "signer_update ossl s0 (receiver_input field (signature_header field # hs)) = Inr s2"
    "sign_to_vec ossl s2 = Inr sig"
    "tags field = [(''v'', ''1''), (''a'', ''rsa-sha256''), (''c'', ''relaxed/relaxed''),
      (''d'', cfg_domain c), (''s'', cfg_selector c), (''t'', dec (nat now)),
      (''h'', join '':'' (snd (select_headers hs))), (''bh'', encode_block ossl bh),
      (''b'', encode_block ossl sig)]"
    using signed_bytes [OF assms(1,2)] by blast
  have "verify (receiver_input field (signature_header field # hs)) (encode_block ossl sig)"
    using assms(3) r(1-3) by (simp add: signatures_verify_def)
  with r(4) field_selection(1) [OF assms(1,2)] show ?thesis
    by (simp add: receiver_accepts_def select_headers_single_from [OF f])
qed

end

interpretation transcript_signing: dkim_signing "transcript_openssl H R P Z"
  by (intro dkim_signing.intro transcript_signer.fallible_consumer_axioms
      transcript_base64.base64_encoding_axioms)

section \<open>Oversigning\<close>

text \<open>The first line of the signed bytes.\<close>

lemma first_line:
  assumes "a @ CRLF @ x = b @ CRLF @ y" and "LF \<notin> set a" and "LF \<notin> set b"
  shows "a = b \<and> x = y"
proof -
  have "(a @ [CR]) @ LF # x = (b @ [CR]) @ LF # y"
    using assms(1) by simp
  moreover have "LF \<notin> set (a @ [CR])" "LF \<notin> set (b @ [CR])"
    using assms(2,3) by simp_all
  ultimately have "Some (a @ [CR], x) = Some (b @ [CR], y)"
    by (metis split_once_Some_iff)
  then show ?thesis
    by simp
qed

lemma header_is_lowercase: "n \<in> set signed_headers \<Longrightarrow> header_is h n \<longleftrightarrow> lowercase (hdr_name h) = n"
  using header_is_lower lowercase_signed_headers by blast

lemma relaxed_header_clean:
  assumes "LF \<notin> set (lowercase name)"
  shows "LF \<notin> set (relaxed_header name v)"
  using set_relaxed_value [of v] assms by (auto simp: relaxed_header_def)

lemma signed_names_clean: "n \<in> set signed_headers \<Longrightarrow> LF \<notin> set n \<and> CHR '':'' \<notin> set n"
  by (auto simp: signed_headers_def)

definition header_line :: "header \<Rightarrow> bytes" where
  "header_line h = relaxed_header (hdr_name h) (hdr_value h) @ CRLF"

lemma receiver_input_lines:
  "receiver_input field hs = concat (map header_line (receiver_select (receiver_h_names field) hs)) @
     relaxed_header ''DKIM-Signature'' (empty_b field)"
  by (simp add: receiver_input_def header_line_def [abs_def])

lemma header_line_starts:
  assumes "header_is h n" and "n \<in> set signed_headers"
  shows "\<exists>v. header_line h = n @ '':'' @ v @ CRLF \<and> LF \<notin> set (n @ '':'' @ v)"
proof -
  have n: "lowercase (hdr_name h) = n"
    using assms header_is_lowercase by blast
  then have "LF \<notin> set (relaxed_header (hdr_name h) (hdr_value h))"
    using signed_names_clean [OF assms(2)] by (intro relaxed_header_clean) simp
  with n show ?thesis
    by (auto simp: header_line_def relaxed_header_def)
qed

text \<open>Text that begins with a given field name.\<close>

definition begins_field :: "bytes \<Rightarrow> bytes \<Rightarrow> bool" where
  "begins_field n s \<longleftrightarrow> (\<exists>r. s = n @ '':'' @ r)"

lemma begins_field_unique:
  assumes "begins_field n s" and "begins_field m s" and "CHR '':'' \<notin> set n" and "CHR '':'' \<notin> set m"
  shows "n = m"
proof -
  obtain r where r: "s = n @ CHR '':'' # r"
    using assms(1) by (auto simp: begins_field_def)
  obtain r' where r': "s = m @ CHR '':'' # r'"
    using assms(2) by (auto simp: begins_field_def)
  have "split_once CHR '':'' s = Some (n, r)"
    using r assms(3) by (simp add: split_once_Some_iff)
  moreover have "split_once CHR '':'' s = Some (m, r')"
    unfolding split_once_Some_iff using r' assms(4) by simp
  ultimately show ?thesis
    by simp
qed

lemma from_in_signed_headers: "''from'' \<in> set signed_headers"
  by (simp add: signed_headers_def)

lemma header_line_begins: "header_is h n \<Longrightarrow> n \<in> set signed_headers \<Longrightarrow> begins_field n (header_line h @ s)"
  using header_line_starts [of h n] by (auto simp: begins_field_def)

text \<open>After the one From line the signed bytes go on with another field.\<close>

lemma after_single_from:
  assumes "set hs' \<subseteq> {h. \<exists>n \<in> set other_headers. header_is h n}"
  shows "\<not> begins_field ''from'' (concat (map header_line hs') @ relaxed_header ''DKIM-Signature'' v)"
proof (cases hs')
  case Nil
  have "lowercase ''DKIM-Signature'' = ''dkim-signature''"
    by code_simp
  then have "begins_field ''dkim-signature'' (relaxed_header ''DKIM-Signature'' v)"
    by (simp only: begins_field_def relaxed_header_def) blast
  then show ?thesis
    using begins_field_unique [of "''dkim-signature''" _ "''from''"] Nil by auto
next
  case (Cons h rest)
  then obtain n where n: "n \<in> set other_headers" "header_is h n"
    using assms by auto
  then have "n \<in> set signed_headers" "n \<noteq> ''from''"
    using from_notin_other_headers by (auto simp: signed_headers_from)
  moreover have "begins_field n (concat (map header_line hs') @ relaxed_header ''DKIM-Signature'' v)"
    using header_line_begins [OF n(2) calculation(1)] Cons by simp
  ultimately show ?thesis
    using begins_field_unique [of n _ "''from''"] signed_names_clean from_in_signed_headers by blast
qed

lemma map_filter_instances:
  "h \<in> set (List.map_filter (last_instance hs) ns) \<Longrightarrow> \<exists>n \<in> set ns. header_is h n"
proof (induction ns)
  case (Cons n ns)
  have "last_instance hs n = Some h \<Longrightarrow> header_is h n"
    using filter_is_subset [of "\<lambda>h. header_is h n" hs]
    by (auto simp: last_instance_filter split: if_splits)
      (metis (mono_tags, lifting) last_in_set mem_Collect_eq set_filter)
  with Cons show ?case
    by (auto simp: map_filter_simps split: option.splits)
qed (simp add: map_filter_simps)

text \<open>A second From field changes the bytes the receiver verifies.\<close>

lemma extra_from_changes_input:
  assumes "filter (\<lambda>h. header_is h ''from'') hs = [f]"
    and "2 \<le> length (filter (\<lambda>h. header_is h ''from'') hs')"
    and "receiver_h_names field = snd (select_headers hs)"
    and "receiver_select (receiver_h_names field) hs0 = fst (select_headers hs)"
  shows "receiver_input field hs' \<noteq> receiver_input field hs0"
proof
  assume eq: "receiver_input field hs' = receiver_input field hs0"
  let ?sig = "relaxed_header ''DKIM-Signature'' (empty_b field)"
  let ?ns = "filter (\<lambda>n. last_instance hs n \<noteq> None) other_headers"
  obtain x1 r1 where 1: "take_last ''from'' hs' = Some (x1, r1)"
    using assms(2) by (cases "take_last ''from'' hs'") (auto simp: take_last_None)
  from take_last_Some [OF 1] have x1: "header_is x1 ''from''"
    and count: "length (filter (\<lambda>h. header_is h ''from'') hs') = Suc (length (filter (\<lambda>h. header_is h ''from'') r1))"
    by auto
  then obtain x2 r2 where 2: "take_last ''from'' r1 = Some (x2, r2)"
    using assms(2) by (cases "take_last ''from'' r1") (auto simp: take_last_None)
  from take_last_Some [OF 2] have x2: "header_is x2 ''from''"
    by auto
  have f: "header_is f ''from''"
    using assms(1) by (metis (mono_tags, lifting) list.set_intros(1) mem_Collect_eq set_filter)
  obtain v1 where v1: "header_line x1 = ''from'' @ '':'' @ v1 @ CRLF" "LF \<notin> set (''from'' @ '':'' @ v1)"
    using header_line_starts [OF x1 from_in_signed_headers] by blast
  obtain vf where vf: "header_line f = ''from'' @ '':'' @ vf @ CRLF" "LF \<notin> set (''from'' @ '':'' @ vf)"
    using header_line_starts [OF f from_in_signed_headers] by blast
  have "receiver_input field hs' = header_line x1 @ header_line x2 @
      concat (map header_line (receiver_select ?ns r2)) @ ?sig"
    using 1 2 assms(3) by (simp add: receiver_input_lines select_headers_single_from [OF assms(1)])
  moreover have "receiver_input field hs0 = header_line f @
      concat (map header_line (List.map_filter (last_instance hs) other_headers)) @ ?sig"
    using assms(4) by (simp add: receiver_input_lines select_headers_single_from [OF assms(1)])
  ultimately have "header_line x2 @ concat (map header_line (receiver_select ?ns r2)) @ ?sig =
      concat (map header_line (List.map_filter (last_instance hs) other_headers)) @ ?sig"
    using eq first_line [OF _ v1(2) vf(2)] v1(1) vf(1) by (metis append.assoc)
  moreover have "begins_field ''from'' (header_line x2 @ concat (map header_line (receiver_select ?ns r2)) @ ?sig)"
    using header_line_begins [OF x2 from_in_signed_headers] .
  moreover have "\<not> begins_field ''from''
      (concat (map header_line (List.map_filter (last_instance hs) other_headers)) @ ?sig)"
    using map_filter_instances by (intro after_single_from) blast
  ultimately show False
    by metis
qed

section \<open>Properties\<close>

lemma signed_tags_domain:
  "map_of [(''v'', v), (''a'', a), (''c'', r), (''d'', d), (''s'', s), (''t'', t), (''h'', h), (''bh'', bh), (''b'', b)]
     ''d'' = Some d"
  by simp

definition sample_headers :: "header list" where
  "sample_headers =
     [\<lparr>hdr_name = ''Subject'', hdr_value = ''old''\<rparr>, \<lparr>hdr_name = ''From'', hdr_value = ''Ann <a@ex.org>''\<rparr>,
      \<lparr>hdr_name = ''SUBJECT'', hdr_value = ''a  b''\<rparr>]"

definition sample_field :: bytes where
  "sample_field = (case sign sample_openssl 7 sample_config sample_headers ''hash'' of Inr f \<Rightarrow> f | Inl e \<Rightarrow> [])"

lemma sample_sign: "sign sample_openssl 7 sample_config sample_headers ''hash'' = Inr sample_field"
proof -
  have "\<exists>f. sign sample_openssl 7 sample_config sample_headers ''hash'' = Inr f"
  proof -
    have "(case sign sample_openssl 7 sample_config sample_headers ''hash'' of Inr f \<Rightarrow> True | Inl e \<Rightarrow> False)"
      by code_simp
    then show ?thesis
      by (simp split: sum.splits)
  qed
  then show ?thesis
    by (auto simp: sample_field_def)
qed

lemma sample_dkim_signing: "dkim_signing sample_openssl"
  by (intro dkim_signing.intro sample_openssl_laws)

lemma sample_config_ok: "config_ok sample_openssl sample_config"
  using load_config_ok [OF load_sample] .

text \<open>C3: the bytes that \<open>sign\<close> feeds to the RSA signer, selected header fields and unsigned
  DKIM-Signature, are exactly the bytes an RFC 6376 receiver reconstructs from the folded field it
  returns and the header fields of the message; and the field's tags are the configured ones.\<close>

theorem sign_receiver_input:
  assumes "dkim_signing ossl" and "config_ok o' c" and "sign ossl now c hs bh = Inr field"
  shows "\<exists>s0 s2 sig. signer_new ossl (cfg_key c) = Inr s0 \<and>
    signer_update ossl s0 (receiver_input field (signature_header field # hs)) = Inr s2 \<and>
    sign_to_vec ossl s2 = Inr sig \<and>
    tags field = [(''v'', ''1''), (''a'', ''rsa-sha256''), (''c'', ''relaxed/relaxed''),
      (''d'', cfg_domain c), (''s'', cfg_selector c), (''t'', dec (nat now)),
      (''h'', join '':'' (snd (select_headers hs))), (''bh'', encode_block ossl bh),
      (''b'', encode_block ossl sig)]"
  using dkim_signing.signed_bytes [OF assms(1,3,2)] by metis

lemma sign_receiver_input_witness:
  "\<exists>s0 s2 sig. signer_new sample_openssl (cfg_key sample_config) = Inr s0 \<and>
    signer_update sample_openssl s0 (receiver_input sample_field (signature_header sample_field # sample_headers)) = Inr s2 \<and>
    sign_to_vec sample_openssl s2 = Inr sig \<and>
    tags sample_field = [(''v'', ''1''), (''a'', ''rsa-sha256''), (''c'', ''relaxed/relaxed''),
      (''d'', cfg_domain sample_config), (''s'', cfg_selector sample_config), (''t'', dec (nat 7)),
      (''h'', join '':'' (snd (select_headers sample_headers))), (''bh'', encode_block sample_openssl ''hash''),
      (''b'', encode_block sample_openssl sig)]"
  by (rule sign_receiver_input [OF sample_dkim_signing sample_config_ok sample_sign])

text \<open>C5: a message is signed only if it has exactly one From field, whose single mailbox is in
  the configured domain, and the signing domain \<open>d=\<close> is that domain: the signature is always aligned
  with the visible sender.\<close>

theorem sign_aligned:
  assumes "dkim_signing ossl" and "config_ok o' c" and "sign ossl now c hs bh = Inr field"
  shows "\<exists>f. filter (\<lambda>h. header_is h ''from'') hs = [f] \<and>
    from_domain (hdr_value f) = Some (cfg_domain c) \<and> map_of (tags field) ''d'' = Some (cfg_domain c)"
proof -
  have "map_of (tags field) ''d'' = Some (cfg_domain c)"
    using dkim_signing.signed_bytes [OF assms(1,3,2)] by (metis signed_tags_domain)
  then show ?thesis
    using dkim_signing.signed_domain [OF assms(1,3,2)] by simp
qed

lemma sign_aligned_witness:
  "\<exists>f. filter (\<lambda>h. header_is h ''from'') sample_headers = [f] \<and>
    from_domain (hdr_value f) = Some ''ex.org'' \<and> map_of (tags sample_field) ''d'' = Some ''ex.org''"
  using sign_aligned [OF sample_dkim_signing sample_config_ok sample_sign] by (simp add: sample_config_def)

text \<open>C7: From is oversigned: if a relay adds a From field to the signed message, the bytes the
  receiver verifies change.\<close>

theorem sign_oversigns_from:
  assumes "dkim_signing ossl" and "config_ok o' c" and "sign ossl now c hs bh = Inr field"
    and "2 \<le> length (filter (\<lambda>h. header_is h ''from'') hs')"
  shows "receiver_input field hs' \<noteq> receiver_input field (signature_header field # hs)"
proof -
  obtain f where "filter (\<lambda>h. header_is h ''from'') hs = [f]"
    using dkim_signing.signed_domain [OF assms(1,3,2)] by blast
  then show ?thesis
    using dkim_signing.field_selection [OF assms(1,3,2)] assms(4) by (intro extra_from_changes_input)
qed

lemma sign_oversigns_from_witness:
  "receiver_input sample_field (\<lparr>hdr_name = ''from'', hdr_value = ''x@evil.com''\<rparr> # sample_headers) \<noteq>
   receiver_input sample_field (signature_header sample_field # sample_headers)"
proof (rule sign_oversigns_from [OF sample_dkim_signing sample_config_ok sample_sign])
  show "2 \<le> length (filter (\<lambda>h. header_is h ''from'')
      (\<lparr>hdr_name = ''from'', hdr_value = ''x@evil.com''\<rparr> # sample_headers))"
    by code_simp
qed

end
