(* ===== verification/Io.thy ===== *)
theory Io
  imports Prelude "HOL-Library.Sublist"
begin

text \<open>
  Fallible, stateful operations: \<open>Result<T, E>\<close> returned by code that changes a world \<open>'w\<close>,
  with the \<open>?\<close> operator as bind; the kinds of \<open>std::io::Error\<close> the program distinguishes;
  and the interface of a byte sink, which is all that the milter's protocol code knows of
  its connection when it writes.
\<close>

section \<open>Errors\<close>

text \<open>\<open>Other_Error\<close> stands for every kind the program treats alike, by its message.\<close>

datatype io_error =
    Interrupted
  | Timed_Out
  | Would_Block
  | Unexpected_Eof
  | Write_Zero
  | Invalid_Data
  | Already_Exists
  | Other_Error bytes

section \<open>Operations\<close>

type_synonym ('w, 'e, 'a) act = "'w \<Rightarrow> ('e + 'a) \<times> 'w"

definition ok :: "'a \<Rightarrow> ('w, 'e, 'a) act" where
  "ok a w = (Inr a, w)"

definition err :: "'e \<Rightarrow> ('w, 'e, 'a) act" where
  "err e w = (Inl e, w)"

text \<open>\<open>m?\<close> followed by the rest.\<close>

definition bind_act :: "('w, 'e, 'a) act \<Rightarrow> ('a \<Rightarrow> ('w, 'e, 'b) act) \<Rightarrow> ('w, 'e, 'b) act" where
  "bind_act m f w = (case m w of (Inl e, w') \<Rightarrow> (Inl e, w') | (Inr a, w') \<Rightarrow> f a w')"

definition map_err :: "('e \<Rightarrow> 'f) \<Rightarrow> ('w, 'e, 'a) act \<Rightarrow> ('w, 'f, 'a) act" where
  "map_err h m w = (case m w of (Inl e, w') \<Rightarrow> (Inl (h e), w') | (Inr a, w') \<Rightarrow> (Inr a, w'))"

named_theorems act_simps \<open>unfolding of operations\<close>

lemmas [act_simps] = ok_def err_def bind_act_def map_err_def

section \<open>The interface of a byte sink\<close>

text \<open>\<open>w_put\<close> is \<open>write_all\<close> followed by \<open>flush\<close>; \<open>w_log\<close> is a line on standard error.\<close>

record ('w, 'l) writer =
  w_put :: "bytes \<Rightarrow> ('w, io_error, unit) act"
  w_log :: "'l \<Rightarrow> 'w \<Rightarrow> 'w"

text \<open>A sink sends what it is given, or a prefix of it and an error.\<close>

locale byte_sink =
  fixes wr :: "('w, 'l) writer" and sent :: "'w \<Rightarrow> bytes" and logged :: "'w \<Rightarrow> 'l list"
  assumes put_ok: "w_put wr bs w = (Inr u, w') \<Longrightarrow> sent w' = sent w @ bs"
    and put_err: "w_put wr bs w = (Inl e, w') \<Longrightarrow> \<exists>p. prefix p bs \<and> sent w' = sent w @ p"
    and put_logged: "logged (snd (w_put wr bs w)) = logged w"
    and log_sent: "sent (w_log wr l w) = sent w"
    and log_logged: "logged (w_log wr l w) = logged w @ [l]"

text \<open>A transcript of the writes, each one successful.\<close>

record 'l tape =
  t_sent :: bytes
  t_log :: "'l list"

definition tape_writer :: "('l tape, 'l) writer" where
  "tape_writer =
     \<lparr>w_put = (\<lambda>bs t. (Inr (), t\<lparr>t_sent := t_sent t @ bs\<rparr>)),
      w_log = (\<lambda>l t. t\<lparr>t_log := t_log t @ [l]\<rparr>)\<rparr>"

interpretation tape: byte_sink tape_writer t_sent t_log
  by unfold_locales (auto simp: tape_writer_def)

end
