(* ===== verification/Frame.thy ===== *)
theory Frame
  imports Io
begin

text \<open>
  The milter wire format of src/milter.rs: limits, action and protocol flags, big-endian
  numbers, \<open>no_reply_flag\<close>, and the writing of responses. The reading of packets needs the
  socket and is in theory Connection; \<open>parse_frames\<close> here is its specification.
\<close>

unbundle bit_operations_syntax

section \<open>Constants\<close>

definition MAX_PACKET :: nat where "MAX_PACKET = 1024 * 1024"
definition MAX_HEADERS :: nat where "MAX_HEADERS = 1000"
definition MAX_HEADER_BYTES :: nat where "MAX_HEADER_BYTES = 1024 * 1024"

definition ACTION_ADD_HEADER :: u32 where "ACTION_ADD_HEADER = 0x1"
definition ACTION_CHANGE_HEADER :: u32 where "ACTION_CHANGE_HEADER = 0x10"

definition PROTOCOL_NR_HEADER :: u32 where "PROTOCOL_NR_HEADER = 0x80"
definition PROTOCOL_NR_CONNECT :: u32 where "PROTOCOL_NR_CONNECT = 0x1000"
definition PROTOCOL_NR_HELO :: u32 where "PROTOCOL_NR_HELO = 0x2000"
definition PROTOCOL_NR_MAIL :: u32 where "PROTOCOL_NR_MAIL = 0x4000"
definition PROTOCOL_NR_RCPT :: u32 where "PROTOCOL_NR_RCPT = 0x8000"
definition PROTOCOL_NR_DATA :: u32 where "PROTOCOL_NR_DATA = 0x10000"
definition PROTOCOL_NR_UNKNOWN :: u32 where "PROTOCOL_NR_UNKNOWN = 0x20000"
definition PROTOCOL_NR_EOH :: u32 where "PROTOCOL_NR_EOH = 0x40000"
definition PROTOCOL_NR_BODY :: u32 where "PROTOCOL_NR_BODY = 0x80000"

definition SUPPORTED_NO_REPLY :: u32 where
  "SUPPORTED_NO_REPLY =
     PROTOCOL_NR_HEADER OR PROTOCOL_NR_CONNECT OR PROTOCOL_NR_HELO OR PROTOCOL_NR_MAIL OR
     PROTOCOL_NR_RCPT OR PROTOCOL_NR_DATA OR PROTOCOL_NR_UNKNOWN OR PROTOCOL_NR_EOH OR
     PROTOCOL_NR_BODY"

lemmas flag_defs =
  ACTION_ADD_HEADER_def ACTION_CHANGE_HEADER_def PROTOCOL_NR_HEADER_def PROTOCOL_NR_CONNECT_def
  PROTOCOL_NR_HELO_def PROTOCOL_NR_MAIL_def PROTOCOL_NR_RCPT_def PROTOCOL_NR_DATA_def
  PROTOCOL_NR_UNKNOWN_def PROTOCOL_NR_EOH_def PROTOCOL_NR_BODY_def SUPPORTED_NO_REPLY_def

definition no_reply_flag :: "byte \<Rightarrow> u32" where
  "no_reply_flag command =
     (if command = CHR ''C'' then PROTOCOL_NR_CONNECT
      else if command = CHR ''H'' then PROTOCOL_NR_HELO
      else if command = CHR ''M'' then PROTOCOL_NR_MAIL
      else if command = CHR ''R'' then PROTOCOL_NR_RCPT
      else if command = CHR ''T'' then PROTOCOL_NR_DATA
      else if command = CHR ''U'' then PROTOCOL_NR_UNKNOWN
      else if command = CHR ''L'' then PROTOCOL_NR_HEADER
      else if command = CHR ''N'' then PROTOCOL_NR_EOH
      else if command = CHR ''B'' then PROTOCOL_NR_BODY
      else 0)"

section \<open>Big-endian numbers\<close>

definition to_be_bytes :: "u32 \<Rightarrow> bytes" where
  "to_be_bytes w =
     (let n = unat w in
      [char_of (n div 2 ^ 24), char_of (n div 2 ^ 16 mod 256), char_of (n div 2 ^ 8 mod 256),
       char_of (n mod 256)])"

fun from_be_bytes :: "bytes \<Rightarrow> u32" where
  "from_be_bytes bs = word_of_nat (foldl (\<lambda>n b. 256 * n + code b) 0 bs)"

lemma length_to_be_bytes [simp]: "length (to_be_bytes w) = 4"
  by (simp add: to_be_bytes_def Let_def)

lemma from_to_be_bytes [simp]: "from_be_bytes (to_be_bytes w) = w"
proof -
  have "unat w < 2 ^ 32"
    using unsigned_less [of w] by simp
  then have "unat w div 2 ^ 24 < 256"
    by (simp add: less_mult_imp_div_less)
  moreover have "256 * (256 * (256 * (n div 2 ^ 24) + n div 2 ^ 16 mod 256) + n div 2 ^ 8 mod 256) + n mod 256 = n"
    for n :: nat
  proof -
    have "n div 2 ^ 24 = n div 256 div 256 div 256" "n div 2 ^ 16 = n div 256 div 256" "n div 2 ^ 8 = n div 256"
      by (simp_all add: div_mult2_eq [symmetric])
    then show ?thesis
      by (simp only: mult_div_mod_eq)
  qed
  ultimately have "foldl (\<lambda>n b. 256 * n + code b) 0 (to_be_bytes w) = unat w"
    by (simp add: to_be_bytes_def Let_def code_def)
  then show ?thesis
    by simp
qed

text \<open>The length prefix of a packet of up to \<open>2 ^ 32 - 1\<close> bytes reads back.\<close>

lemma unat_from_be_bytes: "n < 2 ^ 32 \<Longrightarrow> unat (from_be_bytes (to_be_bytes (word_of_nat n))) = n"
  by (simp del: from_be_bytes.simps add: unat_of_nat)

declare from_be_bytes.simps [simp del]

section \<open>Writing\<close>

text \<open>A packet on the wire.\<close>

definition frame :: "bytes \<Rightarrow> bytes" where
  "frame packet = to_be_bytes (word_of_nat (length packet)) @ packet"

datatype write_error = Write_Error io_error | Response_Too_Large

definition write_status :: "('w, 'l) writer \<Rightarrow> byte \<Rightarrow> ('w, write_error, unit) act" where
  "write_status wr status = map_err Write_Error (w_put wr [CHR 0x00, CHR 0x00, CHR 0x00, CHR 0x01, status])"

definition write_packet :: "('w, 'l) writer \<Rightarrow> byte \<Rightarrow> bytes \<Rightarrow> ('w, write_error, unit) act" where
  "write_packet wr command payload =
     (case checked_add 1 (length payload) of
        None \<Rightarrow> err Response_Too_Large
      | Some len \<Rightarrow>
          if 2 ^ 32 \<le> len then err Response_Too_Large
          else map_err Write_Error (w_put wr (to_be_bytes (word_of_nat len) @ [command] @ payload)))"

definition write_continue_if_needed :: "('w, 'l) writer \<Rightarrow> u32 \<Rightarrow> byte \<Rightarrow> ('w, write_error, unit) act" where
  "write_continue_if_needed wr protocol command =
     (if protocol AND no_reply_flag command = 0 then write_status wr CHR ''c'' else ok ())"

lemma status_frame: "[CHR 0x00, CHR 0x00, CHR 0x00, CHR 0x01, status] = frame [status]"
  by (simp add: frame_def to_be_bytes_def Let_def char_of_def bit_0)

lemma write_status_frame: "write_status wr status = map_err Write_Error (w_put wr (frame [status]))"
  by (simp only: write_status_def status_frame)

lemma write_packet_frame:
  "Suc (length payload) < 2 ^ 32 \<Longrightarrow>
     write_packet wr command payload = map_err Write_Error (w_put wr (frame (command # payload)))"
  by (simp add: write_packet_def checked_add_def usize_max_def frame_def)

section \<open>The packets of a byte stream\<close>

text \<open>How a peer reads a stream: the packets up to the end, or up to a length of zero or above
  the limit, and what is left.\<close>

function parse_frames :: "nat \<Rightarrow> bytes \<Rightarrow> bytes list \<times> bytes" where
  "parse_frames limit bs =
     (let n = unat (from_be_bytes (take 4 bs)) in
      if length bs < 4 \<or> n = 0 \<or> limit < n \<or> length bs < 4 + n then ([], bs)
      else (let (ps, rest) = parse_frames limit (drop (4 + n) bs) in (take n (drop 4 bs) # ps, rest)))"
  by auto
termination
  by (relation "measure (length \<circ> snd)") auto

declare parse_frames.simps [simp del]

lemma parse_frames_packet:
  assumes "length header = 4" and "unat (from_be_bytes header) = length p" and "p \<noteq> []" and "length p \<le> limit"
  shows "parse_frames limit (header @ p @ bs) =
    (p # fst (parse_frames limit bs), snd (parse_frames limit bs))"
  using assms by (subst parse_frames.simps) (simp add: Let_def split: prod.splits)

lemma parse_frames_frame:
  assumes "p \<noteq> []" and "length p \<le> limit" and "length p < 2 ^ 32"
  shows "parse_frames limit (frame p @ bs) =
    (p # fst (parse_frames limit bs), snd (parse_frames limit bs))"
  using parse_frames_packet [of "to_be_bytes (word_of_nat (length p))" p limit bs] assms
    unat_from_be_bytes [of "length p"]
  by (simp add: frame_def)

lemma parse_frames_concat:
  assumes "\<forall>p \<in> set ps. p \<noteq> [] \<and> length p \<le> limit \<and> length p < 2 ^ 32"
  shows "parse_frames limit (concat (map frame ps)) = (ps, [])"
  using assms
proof (induction ps)
  case Nil
  show ?case
    by (simp add: parse_frames.simps)
next
  case (Cons p ps)
  then show ?case
    by (simp add: parse_frames_frame)
qed

section \<open>Properties\<close>

text \<open>C36: what the program writes is what a peer reads: after any packets already sent, a written
  packet adds exactly one packet with its command and payload to the peer's parse.\<close>

theorem write_packet_roundtrip:
  assumes "\<forall>p \<in> set ps. p \<noteq> [] \<and> length p < 2 ^ 32" and "Suc (length payload) < 2 ^ 32"
    and "t_sent t = concat (map frame ps)"
  shows "parse_frames (2 ^ 32 - 1) (t_sent (snd (write_packet tape_writer command payload t))) =
    (ps @ [command # payload], [])"
proof -
  have "t_sent (snd (write_packet tape_writer command payload t)) = concat (map frame (ps @ [command # payload]))"
    using assms(2,3) by (simp add: write_packet_frame map_err_def tape_writer_def)
  moreover have "\<forall>p \<in> set (ps @ [command # payload]). p \<noteq> [] \<and> length p \<le> 2 ^ 32 - 1 \<and> length p < 2 ^ 32"
    using assms(1,2) by auto
  ultimately show ?thesis
    using parse_frames_concat [of "ps @ [command # payload]" "2 ^ 32 - 1"] by simp
qed

lemma write_packet_roundtrip_witness:
  "parse_frames (2 ^ 32 - 1) (t_sent (snd (write_packet tape_writer CHR ''h'' ''x''
     \<lparr>t_sent = concat (map frame [''c'']), t_log = []\<rparr>))) = ([''c''] @ [CHR ''h'' # ''x''], [])"
  by (rule write_packet_roundtrip) simp_all

end
