(* ===== verification/Message.thy ===== *)
theory Message
  imports Sign Frame
begin

text \<open>
  One message inside a milter connection of src/milter.rs: \<open>MessageState\<close> with \<open>begin\<close> and
  \<open>fail\<close>, the header packets (\<open>receive_header\<close>) with their limits, and the end of the message
  (\<open>finish_message\<close>), where the signature is made and the message accepted.

  The lemmas show the header limits as an invariant, that the first error of a message is the
  one that sticks, and that a message in error is always accepted unsigned.
\<close>

section \<open>The code\<close>

datatype message_error =
    Malformed_Header_Packet
  | Malformed_Header_Value
  | Header_Limit_Exceeded
  | Invalid_Header
  | Body_Before_Start
  | End_Before_Start
  | No_Permission
  | Not_Signed sign_error

record ('h, 'k) message_state =
  ms_config :: "'k runtime_config option"
  ms_headers :: "header list"
  ms_header_bytes :: nat
  ms_body :: "'h body_canonicalizer"
  ms_error :: "message_error option"

definition ms_default :: "('h, 'k, 's) openssl \<Rightarrow> ('h, 'k) message_state" where
  "ms_default ossl =
     \<lparr>ms_config = None, ms_headers = [], ms_header_bytes = 0, ms_body = body_default ossl,
      ms_error = None\<rparr>"

definition ms_begin ::
  "('h, 'k, 's) openssl \<Rightarrow> 'k runtime_config \<Rightarrow> ('h, 'k) message_state \<Rightarrow> ('h, 'k) message_state" where
  "ms_begin ossl config st = (ms_default ossl)\<lparr>ms_config := Some config\<rparr>"

definition ms_fail :: "message_error \<Rightarrow> ('h, 'k) message_state \<Rightarrow> ('h, 'k) message_state" where
  "ms_fail reason st = (if ms_error st = None then st\<lparr>ms_error := Some reason\<rparr> else st)"

definition receive_header :: "bytes \<Rightarrow> ('h, 'k) message_state \<Rightarrow> ('h, 'k) message_state" where
  "receive_header payload st =
     (if ms_error st \<noteq> None then st else
      case split_once NUL payload of None \<Rightarrow> ms_fail Malformed_Header_Packet st
      | Some (name, value_with_nul) \<Rightarrow>
          (case strip_suffix [NUL] value_with_nul of None \<Rightarrow> ms_fail Malformed_Header_Value st
           | Some v \<Rightarrow>
               if NUL \<in> set v then ms_fail Malformed_Header_Value st else
               let st = st\<lparr>ms_header_bytes := saturating_add (ms_header_bytes st) (length name + length v)\<rparr>
               in if MAX_HEADERS \<le> length (ms_headers st) \<or> MAX_HEADER_BYTES < ms_header_bytes st
                  then ms_fail Header_Limit_Exceeded st
                  else (case header_new name v of
                      Inr header \<Rightarrow> st\<lparr>ms_headers := ms_headers st @ [header]\<rparr>
                    | Inl _ \<Rightarrow> ms_fail Invalid_Header st)))"

definition receive_body ::
  "('h, 'k, 's) openssl \<Rightarrow> bytes \<Rightarrow> ('h, 'k) message_state \<Rightarrow> ('h, 'k) message_state" where
  "receive_body ossl payload st =
     (if ms_config st = None then ms_fail Body_Before_Start st
      else if ms_error st = None then st\<lparr>ms_body := body_update ossl (ms_body st) payload\<rparr>
      else st)"

datatype close_error =
    Reading io_error
  | Empty_Packet
  | Invalid_Negotiation
  | Lock_Poisoned
  | No_Configuration
  | Unsupported_Command byte
  | Writing write_error

definition signature_packet :: "u32 \<Rightarrow> bytes \<Rightarrow> byte \<times> bytes" where
  "signature_packet actions v =
     (if actions AND ACTION_CHANGE_HEADER \<noteq> 0
      then (CHR ''i'', to_be_bytes 0 @ ''DKIM-Signature'' @ [NUL] @ v @ [NUL])
      else (CHR ''h'', ''DKIM-Signature'' @ [NUL] @ v @ [NUL]))"

text \<open>\<open>now\<close> is what the system clock shows should the message be signed. The result is the
  message's state at the end, which the caller drops.\<close>

definition finish_message ::
  "('h, 'k, 's) openssl \<Rightarrow> ('w, message_error) writer \<Rightarrow> int \<Rightarrow> u32 \<Rightarrow> ('h, 'k) message_state
    \<Rightarrow> ('w, close_error, ('h, 'k) message_state) act" where
  "finish_message ossl wr now actions st =
     (let st = (if ms_config st = None then ms_fail End_Before_Start st else st);
          st = (if ms_error st = None \<and> actions AND (ACTION_ADD_HEADER OR ACTION_CHANGE_HEADER) = 0
                then ms_fail No_Permission st else st)
      in bind_act
        (if ms_error st = None then
           let body = body_finish ossl (ms_body st);
               st = st\<lparr>ms_body := body_default ossl\<rparr>
           in case ms_config st of None \<Rightarrow> err No_Configuration
           | Some config \<Rightarrow>
               (case sign ossl now config (ms_headers st) body of
                  Inr v \<Rightarrow>
                    let (command, payload) = signature_packet actions v
                    in bind_act (map_err Writing (write_packet wr command payload)) (\<lambda>_. ok st)
                | Inl e \<Rightarrow> ok (ms_fail (Not_Signed e) st))
         else ok st)
        (\<lambda>st. bind_act
          (case ms_error st of Some error \<Rightarrow> (\<lambda>w. ok () (w_log wr error w)) | None \<Rightarrow> ok ())
          (\<lambda>_. bind_act (map_err Writing (write_status wr CHR ''a'')) (\<lambda>_. ok st))))"

section \<open>Errors stick\<close>

lemma ms_fail_error [simp]: "ms_error (ms_fail e st) = (case ms_error st of None \<Rightarrow> Some e | r \<Rightarrow> r)"
  by (simp add: ms_fail_def split: option.splits)

lemma ms_fail_rest [simp]:
  "ms_config (ms_fail e st) = ms_config st" "ms_headers (ms_fail e st) = ms_headers st"
  "ms_header_bytes (ms_fail e st) = ms_header_bytes st" "ms_body (ms_fail e st) = ms_body st"
  by (simp_all add: ms_fail_def)

lemma receive_header_error: "ms_error st \<noteq> None \<Longrightarrow> receive_header payload st = st"
  by (simp add: receive_header_def)

lemma receive_header_config [simp]: "ms_config (receive_header payload st) = ms_config st"
  by (simp add: receive_header_def Let_def split: option.splits sum.splits)

lemma receive_header_body [simp]: "ms_body (receive_header payload st) = ms_body st"
  by (simp add: receive_header_def Let_def split: option.splits sum.splits)

section \<open>The limits\<close>

definition header_size :: "header \<Rightarrow> nat" where
  "header_size h = length (hdr_name h) + length (hdr_value h)"

definition header_ok :: "header \<Rightarrow> bool" where
  "header_ok h \<longleftrightarrow>
     hdr_name h \<noteq> [] \<and> length (hdr_name h) \<le> 998 \<and> list_all header_name_byte (hdr_name h) \<and>
     NUL \<notin> set (hdr_value h)"

lemma header_new_Inr: "header_new name v = Inr h \<longleftrightarrow> h = \<lparr>hdr_name = name, hdr_value = v\<rparr> \<and> header_ok h"
  by (auto simp: header_new_def header_ok_def)

text \<open>The byte count covers the stored headers, stays exact, and is within the limit as long
  as the message has no error.\<close>

definition message_inv :: "('h, 'k) message_state \<Rightarrow> bool" where
  "message_inv st \<longleftrightarrow>
     length (ms_headers st) \<le> MAX_HEADERS \<and>
     sum_list (map header_size (ms_headers st)) \<le> MAX_HEADER_BYTES \<and>
     list_all header_ok (ms_headers st) \<and>
     (ms_error st = None \<longrightarrow> ms_header_bytes st = sum_list (map header_size (ms_headers st)))"

lemma message_inv_default [simp]: "message_inv (ms_default ossl)"
  by (simp add: message_inv_def ms_default_def)

lemma message_inv_begin [simp]: "message_inv (ms_begin ossl c st)"
  using message_inv_default [of ossl] by (simp add: message_inv_def ms_begin_def)

lemma message_inv_fail [simp]: "message_inv st \<Longrightarrow> message_inv (ms_fail e st)"
  by (auto simp: message_inv_def split: option.splits)

lemma message_inv_body [simp]: "message_inv st \<Longrightarrow> message_inv (receive_body ossl payload st)"
  by (simp add: receive_body_def) (simp add: message_inv_def)

lemma MAX_HEADER_BYTES_usize: "MAX_HEADER_BYTES < usize_max"
  by (simp add: MAX_HEADER_BYTES_def usize_max_def)

text \<open>The payload a header travels in.\<close>

definition header_payload :: "header \<Rightarrow> bytes" where
  "header_payload h = hdr_name h @ [NUL] @ hdr_value h @ [NUL]"

lemma header_name_no_NUL: "header_ok h \<Longrightarrow> NUL \<notin> set (hdr_name h)"
  by (auto simp: header_ok_def list_all_iff header_name_byte_def byte_simps)

lemma split_header_payload:
  assumes "NUL \<notin> set (hdr_name h)"
  shows "split_once NUL (header_payload h) = Some (hdr_name h, hdr_value h @ [NUL])"
    and "strip_suffix [NUL] (hdr_value h @ [NUL]) = Some (hdr_value h)"
  using assms by (simp_all add: header_payload_def split_once_Some_iff strip_suffix_Some_iff)

text \<open>What a header packet does when the message has no error so far: it stores the header it
  carries, or fails the message.\<close>

definition storable :: "('h, 'k) message_state \<Rightarrow> header \<Rightarrow> bool" where
  "storable st h \<longleftrightarrow>
     header_ok h \<and> length (ms_headers st) < MAX_HEADERS \<and>
     ms_header_bytes st + header_size h \<le> MAX_HEADER_BYTES"

lemma receive_header_stores:
  assumes "ms_error st = None" and "storable st h"
  shows "receive_header (header_payload h) st =
    st\<lparr>ms_header_bytes := ms_header_bytes st + header_size h, ms_headers := ms_headers st @ [h]\<rparr>"
proof -
  have "header_ok h" "NUL \<notin> set (hdr_name h)" "NUL \<notin> set (hdr_value h)"
    using assms(2) header_name_no_NUL by (auto simp: storable_def header_ok_def)
  moreover have "saturating_add (ms_header_bytes st) (header_size h) = ms_header_bytes st + header_size h"
    using assms(2) MAX_HEADER_BYTES_usize by (intro saturating_add_exact) (simp add: storable_def)
  moreover have "header_new (hdr_name h) (hdr_value h) = Inr h"
    using \<open>header_ok h\<close> by (simp add: header_new_Inr)
  ultimately show ?thesis
    using assms by (simp add: receive_header_def split_header_payload Let_def storable_def header_size_def)
qed

lemma receive_header_fails:
  assumes "ms_error st = None" and "\<nexists>h. storable st h \<and> payload = header_payload h"
  shows "\<exists>e n. receive_header payload st = ms_fail e (st\<lparr>ms_header_bytes := n\<rparr>)"
proof (rule ccontr)
  assume no: "\<nexists>e n. receive_header payload st = ms_fail e (st\<lparr>ms_header_bytes := n\<rparr>)"
  have "st\<lparr>ms_header_bytes := ms_header_bytes st\<rparr> = st"
    by simp
  then have no': "receive_header payload st \<noteq> ms_fail e st" for e
    using no by metis
  obtain name rest where 1: "split_once NUL payload = Some (name, rest)"
    using no' [of Malformed_Header_Packet] assms(1)
    by (auto simp: receive_header_def split: option.splits)
  obtain v where 2: "strip_suffix [NUL] rest = Some v"
    using no' [of Malformed_Header_Value] assms(1) 1
    by (auto simp: receive_header_def split: option.splits)
  have 3: "NUL \<notin> set v"
    using no' [of Malformed_Header_Value] assms(1) 1 2 by (auto simp: receive_header_def)
  let ?n = "saturating_add (ms_header_bytes st) (length name + length v)"
  have 4: "length (ms_headers st) < MAX_HEADERS" "?n \<le> MAX_HEADER_BYTES"
    using no assms(1) 1 2 3 by (auto simp: receive_header_def Let_def not_less split: if_splits)
  obtain h where 5: "header_new name v = Inr h"
    using no assms(1) 1 2 3 4 by (cases "header_new name v") (auto simp: receive_header_def Let_def)
  have h: "h = \<lparr>hdr_name = name, hdr_value = v\<rparr>" "header_ok h"
    using 5 by (auto simp: header_new_Inr)
  then have "payload = header_payload h"
    using 1 2 by (simp add: header_payload_def split_once_Some_iff strip_suffix_Some_iff)
  moreover have "storable st h"
    using 4 h MAX_HEADER_BYTES_usize
    by (auto simp: storable_def header_size_def saturating_add_def split: if_splits)
  ultimately show False
    using assms(2) by blast
qed

lemma message_inv_receive_header:
  assumes "message_inv st"
  shows "message_inv (receive_header payload st)"
proof (cases "ms_error st = None")
  case True
  show ?thesis
  proof (cases "\<exists>h. storable st h \<and> payload = header_payload h")
    case stores: True
    then obtain h where h: "storable st h" "payload = header_payload h"
      by blast
    then show ?thesis
      using receive_header_stores [OF True h(1)] assms True
      by (simp add: message_inv_def storable_def)
  next
    case False
    then obtain e n where "receive_header payload st = ms_fail e (st\<lparr>ms_header_bytes := n\<rparr>)"
      using receive_header_fails [OF True] by blast
    then show ?thesis
      using assms True by (simp add: message_inv_def)
  qed
qed (use assms in \<open>simp add: receive_header_error\<close>)

section \<open>The end of a message over any sink\<close>

text \<open>Whether the message is signed, and with what.\<close>

definition outcome ::
  "('h, 'k, 's) openssl \<Rightarrow> int \<Rightarrow> u32 \<Rightarrow> ('h, 'k) message_state \<Rightarrow> message_error + bytes" where
  "outcome ossl now actions st =
     (case ms_error st of Some e \<Rightarrow> Inl e
      | None \<Rightarrow>
          (case ms_config st of None \<Rightarrow> Inl End_Before_Start
           | Some config \<Rightarrow>
               if actions AND (ACTION_ADD_HEADER OR ACTION_CHANGE_HEADER) = 0 then Inl No_Permission
               else map_sum Not_Signed id
                 (sign ossl now config (ms_headers st) (body_finish ossl (ms_body st)))))"

lemma finish_message_outcome:
  "(case finish_message ossl wr now actions st w of
      (Inl e, w') \<Rightarrow> (Inl e, w') | (Inr _, w') \<Rightarrow> (Inr (), w')) =
   bind_act
     (case outcome ossl now actions st of
        Inr v \<Rightarrow> map_err Writing (write_packet wr (fst (signature_packet actions v)) (snd (signature_packet actions v)))
      | Inl e \<Rightarrow> (\<lambda>w. ok () (w_log wr e w)))
     (\<lambda>_. map_err Writing (write_status wr CHR ''a'')) w"
proof (cases "ms_error st")
  case (Some e)
  then show ?thesis
    by (simp add: finish_message_def outcome_def act_simps ms_fail_def split: prod.splits sum.splits)
next
  case None
  note error = this
  show ?thesis
  proof (cases "ms_config st")
    case None
    with error show ?thesis
      by (simp add: finish_message_def outcome_def act_simps ms_fail_def split: prod.splits sum.splits)
  next
    case (Some c)
    show ?thesis
    proof (cases "actions AND (ACTION_ADD_HEADER OR ACTION_CHANGE_HEADER) = 0")
      case True
      with error Some show ?thesis
        by (simp add: finish_message_def outcome_def act_simps ms_fail_def split: prod.splits sum.splits)
    next
      case False
      with error Some show ?thesis
        by (simp add: finish_message_def outcome_def act_simps ms_fail_def Let_def
            split: prod.splits sum.splits)
    qed
  qed
qed

section \<open>Properties\<close>

text \<open>C37: a header packet is accepted exactly when it is the encoding of a valid header (name of
  1 to 998 letters, digits and hyphens, value without NUL) that keeps the message within 1000
  fields and 1 MiB; anything else puts the message in error.\<close>

theorem receive_header_accepts:
  assumes "ms_error st = None"
  shows "ms_error (receive_header payload st) = None \<longleftrightarrow> (\<exists>h. storable st h \<and> payload = header_payload h)"
proof
  assume ok: "ms_error (receive_header payload st) = None"
  show "\<exists>h. storable st h \<and> payload = header_payload h"
  proof (rule ccontr)
    assume "\<nexists>h. storable st h \<and> payload = header_payload h"
    then obtain e n where "receive_header payload st = ms_fail e (st\<lparr>ms_header_bytes := n\<rparr>)"
      using receive_header_fails [OF assms] by blast
    with ok assms show False
      by simp
  qed
next
  assume "\<exists>h. storable st h \<and> payload = header_payload h"
  with assms show "ms_error (receive_header payload st) = None"
    by (auto simp: receive_header_stores)
qed

lemma receive_header_accepts_witness:
  "ms_error (receive_header (''To'' @ [NUL] @ ''x'' @ [NUL]) (ms_default sample_openssl)) = None \<longleftrightarrow>
     (\<exists>h. storable (ms_default sample_openssl) h \<and> ''To'' @ [NUL] @ ''x'' @ [NUL] = header_payload h)"
  by (rule receive_header_accepts) (simp add: ms_default_def)

end
