(* ===== verification/Session.thy ===== *)
theory Session
  imports Message
begin

text \<open>
  The packets of one milter connection (\<open>handle_connection_until\<close> in src/milter.rs, the body
  of its loop): option negotiation, message start, headers, body, end, abort, quit, macros and
  the commands that are only acknowledged.

  The writes go to an arbitrary byte sink. The specification is a pure transducer, \<open>react\<close>:
  from the session and a packet to the new session, the packets sent back and the lines
  logged. The theorem of this theory says that the code does that over every sink, and when
  a write fails it has sent a prefix of it and the connection ends.
\<close>

section \<open>The code\<close>

record ('h, 'k) session =
  s_state :: "('h, 'k) message_state"
  s_actions :: u32
  s_protocol :: u32

definition session_start :: "('h, 'k, 's) openssl \<Rightarrow> ('h, 'k) session" where
  "session_start ossl = \<lparr>s_state = ms_default ossl, s_actions = 0, s_protocol = 0\<rparr>"

text \<open>The \<open>O\<close> arm: the answer and the session with what was negotiated.\<close>

definition negotiate :: "bytes \<Rightarrow> ('h, 'k) session \<Rightarrow> bytes \<times> ('h, 'k) session" where
  "negotiate payload s =
     (let version = min (from_be_bytes (take 4 payload)) 6;
          offered = from_be_bytes (take 4 (drop 4 payload));
          actions = offered AND (ACTION_ADD_HEADER OR ACTION_CHANGE_HEADER);
          offered_protocol = from_be_bytes (take 4 (drop 8 payload));
          protocol = (if 6 \<le> version then offered_protocol AND SUPPORTED_NO_REPLY else 0)
      in (to_be_bytes version @ to_be_bytes actions @ to_be_bytes protocol,
          s\<lparr>s_actions := actions, s_protocol := protocol\<rparr>))"

text \<open>The commands that need no work but an acknowledgement.\<close>

definition acknowledged :: "byte \<Rightarrow> bool" where
  "acknowledged command \<longleftrightarrow> command \<in> set ''CHRTNU''"

text \<open>A header packet starts a message when none was started.\<close>

definition ensure_started ::
  "('h, 'k, 's) openssl \<Rightarrow> 'k runtime_config option \<Rightarrow> ('h, 'k) message_state
    \<Rightarrow> ('w, close_error, ('h, 'k) message_state) act" where
  "ensure_started ossl active st =
     (if ms_config st = None
      then (case active of None \<Rightarrow> err Lock_Poisoned
            | Some config \<Rightarrow> ok (ms_begin ossl config st))
      else ok st)"

text \<open>One round of the loop after a packet was read. \<open>active\<close> is the configuration behind the
  lock at that time (\<open>None\<close> if the lock is poisoned), \<open>now\<close> the system clock. \<open>Inr None\<close> is
  \<open>return Ok(())\<close>.\<close>

definition handle_packet ::
  "('h, 'k, 's) openssl \<Rightarrow> ('w, message_error) writer \<Rightarrow> 'k runtime_config option \<Rightarrow> int \<Rightarrow> bytes
    \<Rightarrow> ('h, 'k) session \<Rightarrow> ('w, close_error, ('h, 'k) session option) act" where
  "handle_packet ossl wr active now packet s =
     (case packet of [] \<Rightarrow> err Empty_Packet
      | command # payload \<Rightarrow>
          let continue = (\<lambda>s. bind_act
                (map_err Writing (write_continue_if_needed wr (s_protocol s) command))
                (\<lambda>_. ok (Some s)))
          in
          if command = CHR ''O'' then
            if length payload \<noteq> 12 then err Invalid_Negotiation
            else let (response, s) = negotiate payload s
                 in bind_act (map_err Writing (write_packet wr CHR ''O'' response)) (\<lambda>_. ok (Some s))
          else if command = CHR ''M'' then
            (case active of None \<Rightarrow> err Lock_Poisoned
             | Some config \<Rightarrow> continue (s\<lparr>s_state := ms_begin ossl config (s_state s)\<rparr>))
          else if command = CHR ''L'' then
            bind_act (ensure_started ossl active (s_state s))
              (\<lambda>st. continue (s\<lparr>s_state := receive_header payload st\<rparr>))
          else if command = CHR ''B'' then
            continue (s\<lparr>s_state := receive_body ossl payload (s_state s)\<rparr>)
          else if command = CHR ''E'' then
            bind_act (finish_message ossl wr now (s_actions s) (s_state s))
              (\<lambda>_. ok (Some (s\<lparr>s_state := ms_default ossl\<rparr>)))
          else if command = CHR ''A'' then ok (Some (s\<lparr>s_state := ms_default ossl\<rparr>))
          else if command = CHR ''Q'' \<or> command = CHR ''K'' then ok None
          else if command = CHR ''D'' then ok (Some s)
          else if acknowledged command then continue s
          else err (Unsupported_Command command))"

section \<open>The transducer\<close>

definition continue_packets :: "u32 \<Rightarrow> byte \<Rightarrow> bytes list" where
  "continue_packets protocol command =
     (if protocol AND no_reply_flag command = 0 then [''c''] else [])"

text \<open>The replies and log lines at the end of a message: the signature if there is one, and
  always one acceptance.\<close>

definition end_packets :: "u32 \<Rightarrow> message_error + bytes \<Rightarrow> bytes list" where
  "end_packets actions result =
     (case result of
        Inr v \<Rightarrow> [fst (signature_packet actions v) # snd (signature_packet actions v)]
      | Inl e \<Rightarrow> []) @ [''a'']"

definition end_log :: "message_error + bytes \<Rightarrow> message_error list" where
  "end_log result = (case result of Inl e \<Rightarrow> [e] | Inr v \<Rightarrow> [])"

definition start_if_needed ::
  "('h, 'k, 's) openssl \<Rightarrow> 'k runtime_config option \<Rightarrow> ('h, 'k) message_state
    \<Rightarrow> ('h, 'k) message_state option" where
  "start_if_needed ossl active st =
     (if ms_config st = None then map_option (\<lambda>c. ms_begin ossl c st) active else Some st)"

definition react ::
  "('h, 'k, 's) openssl \<Rightarrow> 'k runtime_config option \<Rightarrow> int \<Rightarrow> bytes \<Rightarrow> ('h, 'k) session
    \<Rightarrow> (close_error + ('h, 'k) session option) \<times> bytes list \<times> message_error list" where
  "react ossl active now packet s =
     (case packet of [] \<Rightarrow> (Inl Empty_Packet, [], [])
      | command # payload \<Rightarrow>
          let continue = (\<lambda>st. (Inr (Some (s\<lparr>s_state := st\<rparr>)), continue_packets (s_protocol s) command, []))
          in
          if command = CHR ''O'' then
            if length payload \<noteq> 12 then (Inl Invalid_Negotiation, [], [])
            else (Inr (Some (snd (negotiate payload s))), [CHR ''O'' # fst (negotiate payload s)], [])
          else if command = CHR ''M'' then
            (case active of None \<Rightarrow> (Inl Lock_Poisoned, [], [])
             | Some config \<Rightarrow> continue (ms_begin ossl config (s_state s)))
          else if command = CHR ''L'' then
            (case start_if_needed ossl active (s_state s) of None \<Rightarrow> (Inl Lock_Poisoned, [], [])
             | Some st \<Rightarrow> continue (receive_header payload st))
          else if command = CHR ''B'' then continue (receive_body ossl payload (s_state s))
          else if command = CHR ''E'' then
            (let result = outcome ossl now (s_actions s) (s_state s)
             in (Inr (Some (s\<lparr>s_state := ms_default ossl\<rparr>)), end_packets (s_actions s) result, end_log result))
          else if command = CHR ''A'' then (Inr (Some (s\<lparr>s_state := ms_default ossl\<rparr>)), [], [])
          else if command = CHR ''Q'' \<or> command = CHR ''K'' then (Inr None, [], [])
          else if command = CHR ''D'' then (Inr (Some s), [], [])
          else if acknowledged command then continue (s_state s)
          else (Inl (Unsupported_Command command), [], []))"

section \<open>The code implements the transducer\<close>

text \<open>An operation on a sink that yields \<open>r\<close>, sends the packets \<open>ps\<close> and logs \<open>ls\<close>, unless
  a write fails.\<close>

definition sends ::
  "('w \<Rightarrow> bytes) \<Rightarrow> ('w \<Rightarrow> 'l list) \<Rightarrow> ('w, close_error, 'a) act \<Rightarrow> close_error + 'a \<Rightarrow> bytes list \<Rightarrow> 'l list
    \<Rightarrow> bool" where
  "sends sent logged m r ps ls \<longleftrightarrow>
     (\<forall>w. (fst (m w) = r \<and> sent (snd (m w)) = sent w @ concat (map frame ps) \<and>
           logged (snd (m w)) = logged w @ ls) \<or>
          (\<exists>e p. fst (m w) = Inl (Writing (Write_Error e)) \<and> prefix p (concat (map frame ps)) \<and>
             sent (snd (m w)) = sent w @ p))"

lemma sends_ok: "sends sent logged (ok a) (Inr a) [] []"
  by (simp add: sends_def act_simps)

lemma sends_err: "sends sent logged (err e) (Inl e) [] []"
  by (simp add: sends_def act_simps)

lemma sends_bind_err:
  "sends sent logged m (Inl e) ps ls \<Longrightarrow> sends sent logged (bind_act m f) (Inl e) ps ls"
  unfolding sends_def
proof (rule allI)
  fix w
  assume "\<forall>w. (fst (m w) = Inl e \<and> sent (snd (m w)) = sent w @ concat (map frame ps) \<and>
           logged (snd (m w)) = logged w @ ls) \<or>
          (\<exists>e p. fst (m w) = Inl (Writing (Write_Error e)) \<and> prefix p (concat (map frame ps)) \<and>
             sent (snd (m w)) = sent w @ p)"
  from this [rule_format, of w]
  show "(fst (bind_act m f w) = Inl e \<and> sent (snd (bind_act m f w)) = sent w @ concat (map frame ps) \<and>
           logged (snd (bind_act m f w)) = logged w @ ls) \<or>
          (\<exists>e p. fst (bind_act m f w) = Inl (Writing (Write_Error e)) \<and> prefix p (concat (map frame ps)) \<and>
             sent (snd (bind_act m f w)) = sent w @ p)"
    by (cases "m w") (auto simp: bind_act_def)
qed

lemma sends_bind:
  assumes "sends sent logged m (Inr a) ps ls" and "sends sent logged (f a) r ps' ls'"
  shows "sends sent logged (bind_act m f) r (ps @ ps') (ls @ ls')"
  unfolding sends_def
proof (rule allI)
  fix w
  obtain x w1 where m: "m w = (x, w1)"
    by (cases "m w")
  show "(fst (bind_act m f w) = r \<and> sent (snd (bind_act m f w)) = sent w @ concat (map frame (ps @ ps')) \<and>
           logged (snd (bind_act m f w)) = logged w @ ls @ ls') \<or>
          (\<exists>e p. fst (bind_act m f w) = Inl (Writing (Write_Error e)) \<and>
             prefix p (concat (map frame (ps @ ps'))) \<and> sent (snd (bind_act m f w)) = sent w @ p)"
  proof (cases x)
    case (Inl e)
    then obtain e' p where p: "e = Writing (Write_Error e')" "prefix p (concat (map frame ps))"
      "sent w1 = sent w @ p"
      using assms(1) [unfolded sends_def, rule_format, of w] m by auto
    have "prefix p (concat (map frame (ps @ ps')))"
      using p(2) by (simp add: prefix_prefix)
    with p m Inl show ?thesis
      by (auto simp: bind_act_def)
  next
    case (Inr b)
    then have w1: "b = a" "sent w1 = sent w @ concat (map frame ps)" "logged w1 = logged w @ ls"
      using assms(1) [unfolded sends_def, rule_format, of w] m by auto
    then have b: "bind_act m f w = f a w1"
      using m Inr by (simp add: bind_act_def)
    show ?thesis
      using assms(2) [unfolded sends_def, rule_format, of w1] w1(2,3) unfolding b by fastforce
  qed
qed

lemma sends_bind_unit:
  assumes "sends sent logged m (Inr a) ps ls"
  shows "sends sent logged (bind_act m (\<lambda>_. ok b)) (Inr b) ps ls"
  using sends_bind [OF assms, of "\<lambda>_. ok b" "Inr b" "[]" "[]"] by (simp add: sends_ok)

context byte_sink
begin

lemma sends_put: "sends sent logged (map_err Writing (map_err Write_Error (w_put wr (frame p)))) (Inr ()) [p] []"
  unfolding sends_def
proof (rule allI)
  fix w
  show "(fst (map_err Writing (map_err Write_Error (w_put wr (frame p))) w) = Inr () \<and>
         sent (snd (map_err Writing (map_err Write_Error (w_put wr (frame p))) w)) =
           sent w @ concat (map frame [p]) \<and>
         logged (snd (map_err Writing (map_err Write_Error (w_put wr (frame p))) w)) = logged w @ []) \<or>
        (\<exists>e q. fst (map_err Writing (map_err Write_Error (w_put wr (frame p))) w) = Inl (Writing (Write_Error e)) \<and>
           prefix q (concat (map frame [p])) \<and>
           sent (snd (map_err Writing (map_err Write_Error (w_put wr (frame p))) w)) = sent w @ q)"
    using put_ok [of "frame p" w] put_err [of "frame p" w] put_logged [of "frame p" w]
    by (cases "w_put wr (frame p) w"; cases "fst (w_put wr (frame p) w)") (auto simp: map_err_def)
qed

lemma sends_status: "sends sent logged (map_err Writing (write_status wr c)) (Inr ()) [[c]] []"
  unfolding write_status_frame by (rule sends_put)

lemma sends_packet:
  "Suc (length payload) < 2 ^ 32 \<Longrightarrow>
     sends sent logged (map_err Writing (write_packet wr c payload)) (Inr ()) [c # payload] []"
  by (simp only: write_packet_frame sends_put)

lemma sends_continue:
  "sends sent logged (map_err Writing (write_continue_if_needed wr protocol c)) (Inr ())
     (continue_packets protocol c) []"
proof (cases "protocol AND no_reply_flag c = 0")
  case True
  then show ?thesis
    by (simp add: write_continue_if_needed_def continue_packets_def sends_status)
next
  case False
  then have "map_err Writing (write_continue_if_needed wr protocol c) = ok ()"
    by (simp add: write_continue_if_needed_def act_simps fun_eq_iff)
  with False show ?thesis
    by (simp add: continue_packets_def sends_ok)
qed

lemma sends_log: "sends sent logged (\<lambda>w. ok () (w_log wr l w)) (Inr ()) [] [l]"
  by (simp add: sends_def act_simps log_sent log_logged)

end

text \<open>The sink of a milter session logs message errors.\<close>

locale message_sink = byte_sink wr sent logged
  for wr :: "('w, message_error) writer" and sent :: "'w \<Rightarrow> bytes" and logged :: "'w \<Rightarrow> message_error list"
begin

lemma sends_end:
  assumes "\<forall>p \<in> set (end_packets actions (outcome ossl now actions st)). length p < 2 ^ 32"
  shows "sends sent logged (bind_act (finish_message ossl wr now actions st) (\<lambda>_. ok b)) (Inr b)
    (end_packets actions (outcome ossl now actions st)) (end_log (outcome ossl now actions st))"
proof -
  let ?r = "outcome ossl now actions st"
  let ?m = "case ?r of
        Inr v \<Rightarrow> map_err Writing (write_packet wr (fst (signature_packet actions v)) (snd (signature_packet actions v)))
      | Inl e \<Rightarrow> (\<lambda>w. ok () (w_log wr e w))"
  have "sends sent logged ?m (Inr ()) (butlast (end_packets actions ?r)) (end_log ?r)"
    using assms sends_packet [of "snd (signature_packet actions v)" "fst (signature_packet actions v)" for v]
    by (cases ?r) (simp_all add: end_packets_def end_log_def sends_log)
  from sends_bind [OF this sends_status]
  have "sends sent logged (bind_act ?m (\<lambda>_. map_err Writing (write_status wr CHR ''a''))) (Inr ())
      (end_packets actions ?r) (end_log ?r)"
    by (simp add: end_packets_def)
  from sends_bind_unit [OF this]
  have "sends sent logged (bind_act (bind_act ?m (\<lambda>_. map_err Writing (write_status wr CHR ''a''))) (\<lambda>_. ok b))
      (Inr b) (end_packets actions ?r) (end_log ?r)" .
  moreover have "bind_act (finish_message ossl wr now actions st) (\<lambda>_. ok b) =
      bind_act (bind_act ?m (\<lambda>_. map_err Writing (write_status wr CHR ''a''))) (\<lambda>_. ok b)"
  proof
    fix w
    show "bind_act (finish_message ossl wr now actions st) (\<lambda>_. ok b) w =
        bind_act (bind_act ?m (\<lambda>_. map_err Writing (write_status wr CHR ''a''))) (\<lambda>_. ok b) w"
      unfolding bind_act_def [of "bind_act ?m _"] finish_message_outcome [symmetric]
      by (simp add: bind_act_def ok_def split: prod.splits sum.splits)
  qed
  ultimately show ?thesis
    by simp
qed

text \<open>Every packet's handling, over any sink.\<close>

lemma handle_packet_sends:
  assumes "react ossl active now packet s = (r, ps, ls)" and "\<forall>p \<in> set ps. length p < 2 ^ 32"
  shows "sends sent logged (handle_packet ossl wr active now packet s) r ps ls"
proof (cases packet)
  case Nil
  with assms show ?thesis
    by (auto simp: react_def handle_packet_def sends_err)
next
  case (Cons c payload)
  have start: "sends sent logged
      (bind_act (ensure_started ossl active (s_state s)) f) r' ps' ls'"
    if "start_if_needed ossl active (s_state s) = None \<Longrightarrow> r' = Inl Lock_Poisoned \<and> ps' = [] \<and> ls' = []"
      and "\<And>st. start_if_needed ossl active (s_state s) = Some st \<Longrightarrow> sends sent logged (f st) r' ps' ls'"
    for f r' ps' ls'
    using that sends_bind [OF sends_ok, where f = f] sends_bind_err [OF sends_err]
    by (auto simp: start_if_needed_def ensure_started_def split: option.splits)
  have continue: "sends sent logged (bind_act
      (map_err Writing (write_continue_if_needed wr protocol c)) (\<lambda>_. ok b)) (Inr b)
      (continue_packets protocol c) []" for protocol and b :: "('h, 'k) session option"
    by (rule sends_bind_unit [OF sends_continue])
  consider (neg) "c = CHR ''O''" | (mail) "c = CHR ''M''" | (header) "c = CHR ''L''"
    | (eom) "c = CHR ''E''"
    | (body) "c = CHR ''B''" | (abort) "c = CHR ''A''" | (quit) "c = CHR ''Q'' \<or> c = CHR ''K''"
    | (macro) "c = CHR ''D''"
    | (other) "c \<notin> {CHR ''O'', CHR ''M'', CHR ''L'', CHR ''E'', CHR ''B'', CHR ''A'', CHR ''Q'', CHR ''K'', CHR ''D''}"
    by blast
  then show ?thesis
  proof cases
    case neg
    show ?thesis
    proof (cases "length payload = 12")
      case True
      then have "length (fst (negotiate payload s)) = 12"
        by (simp add: negotiate_def Let_def)
      then have "sends sent logged (bind_act (map_err Writing (write_packet wr CHR ''O'' (fst (negotiate payload s))))
          (\<lambda>_. ok (Some (snd (negotiate payload s))))) (Inr (Some (snd (negotiate payload s))))
          [CHR ''O'' # fst (negotiate payload s)] []"
        by (intro sends_bind_unit [OF sends_packet]) simp
      with True assms(1) show ?thesis
        by (auto simp: Cons neg react_def handle_packet_def split: prod.splits)
    next
      case False
      with assms(1) show ?thesis
        by (auto simp: Cons neg react_def handle_packet_def sends_err)
    qed
  next
    case mail
    with assms(1) show ?thesis
      using continue by (cases active) (auto simp: Cons react_def handle_packet_def Let_def sends_err)
  next
    case header
    with assms(1) show ?thesis
      unfolding Cons handle_packet_def Let_def list.case
      by (auto simp: react_def Let_def Cons intro!: start continue [unfolded header] split: option.splits)
  next
    case eom
    with assms show ?thesis
      using sends_end by (auto simp: Cons react_def handle_packet_def Let_def)
  next
    case body
    with assms(1) show ?thesis
      using continue by (auto simp: Cons react_def handle_packet_def Let_def)
  next
    case abort
    with assms(1) show ?thesis
      by (auto simp: Cons react_def handle_packet_def Let_def sends_ok)
  next
    case quit
    then have "handle_packet ossl wr active now packet s = ok None" "(r, ps, ls) = (Inr None, [], [])"
      using assms(1) by (elim disjE; simp add: Cons react_def handle_packet_def)+
    then show ?thesis
      by (simp add: sends_ok)
  next
    case macro
    with assms(1) show ?thesis
      by (auto simp: Cons react_def handle_packet_def Let_def sends_ok)
  next
    case other
    show ?thesis
    proof (cases "acknowledged c")
      case True
      have "handle_packet ossl wr active now packet s = bind_act
          (map_err Writing (write_continue_if_needed wr (s_protocol s) c)) (\<lambda>_. ok (Some s))"
        using other True by (simp add: Cons handle_packet_def Let_def)
      moreover have "(r, ps, ls) = (Inr (Some s), continue_packets (s_protocol s) c, [])"
        using other True assms(1) by (simp add: Cons react_def Let_def)
      ultimately show ?thesis
        using continue by simp
    next
      case False
      have "handle_packet ossl wr active now packet s = err (Unsupported_Command c)"
        using other False by (simp add: Cons handle_packet_def Let_def)
      moreover have "(r, ps, ls) = (Inl (Unsupported_Command c), [], [])"
        using other False assms(1) by (simp add: Cons react_def Let_def)
      ultimately show ?thesis
        by (simp add: sends_err)
    qed
  qed
qed

end

interpretation tape: message_sink tape_writer t_sent t_log
  by (intro message_sink.intro tape.byte_sink_axioms)

section \<open>Properties\<close>

text \<open>C8: over any byte sink, the handler of one packet does what the transducer \<open>react\<close> says:
  it yields its result, sends its packets and logs its lines, or a write failed, and then it has
  sent a prefix and the connection ends with the write error.\<close>

theorem handle_packet_refines:
  assumes "message_sink wr sent logged" and "react ossl active now packet s = (r, ps, ls)"
    and "\<forall>p \<in> set ps. length p < 2 ^ 32"
    and "handle_packet ossl wr active now packet s w = (r', w')"
  shows "(r' = r \<and> sent w' = sent w @ concat (map frame ps) \<and> logged w' = logged w @ ls) \<or>
    (\<exists>e p. r' = Inl (Writing (Write_Error e)) \<and> prefix p (concat (map frame ps)) \<and> sent w' = sent w @ p)"
  using message_sink.handle_packet_sends [OF assms(1-3)] assms(4)
  unfolding sends_def by (metis fst_conv snd_conv)

lemma handle_packet_refines_witness:
  "(Inr (Some (session_start sample_openssl)) =
      (Inr (Some (session_start sample_openssl)) :: close_error + (bytes, unit) session option) \<and>
    t_sent \<lparr>t_sent = frame ''c'', t_log = [] :: message_error list\<rparr> =
      t_sent \<lparr>t_sent = [], t_log = [] :: message_error list\<rparr> @ concat (map frame [''c'']) \<and>
    t_log \<lparr>t_sent = frame ''c'', t_log = [] :: message_error list\<rparr> =
      t_log \<lparr>t_sent = [], t_log = [] :: message_error list\<rparr> @ []) \<or>
   (\<exists>e p. (Inr (Some (session_start sample_openssl)) :: close_error + (bytes, unit) session option) =
      Inl (Writing (Write_Error e)) \<and> prefix p (concat (map frame [''c''])) \<and>
      t_sent \<lparr>t_sent = frame ''c'', t_log = [] :: message_error list\<rparr> =
        t_sent \<lparr>t_sent = [], t_log = [] :: message_error list\<rparr> @ p)"
proof (rule handle_packet_refines [OF tape.message_sink_axioms])
  show "react sample_openssl None 0 ''H'' (session_start sample_openssl) =
      (Inr (Some (session_start sample_openssl)), [''c''], [])"
    by (simp add: react_def Let_def acknowledged_def continue_packets_def session_start_def)
  show "handle_packet sample_openssl tape_writer None 0 ''H'' (session_start sample_openssl)
      \<lparr>t_sent = [], t_log = []\<rparr> =
    (Inr (Some (session_start sample_openssl)), \<lparr>t_sent = frame ''c'', t_log = []\<rparr>)"
    by (simp add: handle_packet_def Let_def acknowledged_def write_continue_if_needed_def
        write_status_frame session_start_def tape_writer_def act_simps)
qed simp

text \<open>The answer to an option negotiation never claims what was not offered: the version is at
  most 6 and at most the offer, actions and protocol flags are subsets of the offered bits, and
  below version 6 no protocol flag is set.\<close>

theorem negotiate_within_offer:
  fixes version actions protocol :: u32 and s :: "('h, 'k) session"
  assumes "payload = to_be_bytes version @ to_be_bytes actions @ to_be_bytes protocol"
  shows "\<exists>v a p. fst (negotiate payload s) = to_be_bytes v @ to_be_bytes a @ to_be_bytes p \<and>
    v = min version 6 \<and> a AND actions = a \<and> p AND protocol = p \<and> (p \<noteq> 0 \<longrightarrow> 6 \<le> version) \<and>
    s_actions (snd (negotiate payload s)) = a \<and> s_protocol (snd (negotiate payload s)) = p"
proof -
  have "take 4 payload = to_be_bytes version" "take 4 (drop 4 payload) = to_be_bytes actions"
    "take 4 (drop 8 payload) = to_be_bytes protocol"
    using assms by simp_all
  then show ?thesis
    by (auto simp: negotiate_def Let_def min_def and.assoc and.commute and.left_commute)
qed

lemma negotiate_within_offer_witness:
  "\<exists>v a p. fst (negotiate (to_be_bytes 6 @ to_be_bytes 0x1FF @ to_be_bytes 0x80) (session_start sample_openssl)) =
      to_be_bytes v @ to_be_bytes a @ to_be_bytes p \<and>
    v = min 6 6 \<and> a AND 0x1FF = a \<and> p AND 0x80 = p \<and> (p \<noteq> 0 \<longrightarrow> 6 \<le> (6 :: u32)) \<and>
    s_actions (snd (negotiate (to_be_bytes 6 @ to_be_bytes 0x1FF @ to_be_bytes 0x80) (session_start sample_openssl))) = a \<and>
    s_protocol (snd (negotiate (to_be_bytes 6 @ to_be_bytes 0x1FF @ to_be_bytes 0x80) (session_start sample_openssl))) = p"
  by (rule negotiate_within_offer) (rule refl)

text \<open>The commands that may be left without reply, each with its flag: the \<open>SMFIP_NR_\<close> constants of
  libmilter's mfdef.h.\<close>

definition smfip_no_reply :: "(byte \<times> u32) list" where
  "smfip_no_reply =
     [(CHR ''L'', 0x80), (CHR ''C'', 0x1000), (CHR ''H'', 0x2000), (CHR ''M'', 0x4000), (CHR ''R'', 0x8000),
      (CHR ''T'', 0x10000), (CHR ''U'', 0x20000), (CHR ''N'', 0x40000), (CHR ''B'', 0x80000)]"

lemma no_reply_flag_table: "(command, flag) \<in> set smfip_no_reply \<Longrightarrow> no_reply_flag command = flag"
  by (auto simp: smfip_no_reply_def no_reply_flag_def flag_defs)

lemma smfip_no_reply_commands: "(command, flag) \<in> set smfip_no_reply \<Longrightarrow> command \<in> set ''CHMRTULNB''"
  by (auto simp: smfip_no_reply_def)

text \<open>C35: a step that goes on is acknowledged with exactly one continue packet, unless the MTA
  negotiated that the command gets no reply, with the flag that the milter protocol has for this command;
  then nothing at all is sent.\<close>

theorem no_reply_honoured:
  assumes table: "(command, flag) \<in> set smfip_no_reply"
    and "handle_packet ossl tape_writer active now (command # payload) s t = (Inr (Some s'), t')"
  shows "t_sent t' = t_sent t @ (if s_protocol s AND flag = 0 then frame ''c'' else [])"
proof -
  have command: "command \<in> set ''CHMRTULNB''"
    using table by (rule smfip_no_reply_commands)
  obtain r ps ls where react: "react ossl active now (command # payload) s = (r, ps, ls)"
    by (cases "react ossl active now (command # payload) s")
  have ps: "ps = continue_packets (s_protocol s) command \<or> ps = []"
    using react command
    by (auto simp: react_def Let_def acknowledged_def split: option.splits if_splits)
  then have small: "\<forall>p \<in> set ps. length p < 2 ^ 32"
    by (auto simp: continue_packets_def split: if_splits)
  from tape.handle_packet_sends [OF react this] assms(2)
  have r: "r = Inr (Some s')" "t_sent t' = t_sent t @ concat (map frame ps)"
    unfolding sends_def by (metis fst_conv snd_conv sum.distinct(1))+
  then have "ps = continue_packets (s_protocol s) command"
    using react command
    by (auto simp: react_def Let_def acknowledged_def split: option.splits if_splits)
  with r(2) show ?thesis
    by (simp add: continue_packets_def no_reply_flag_table [OF table])
qed

lemma no_reply_honoured_witness:
  "t_sent \<lparr>t_sent = [], t_log = [] :: message_error list\<rparr> =
   t_sent \<lparr>t_sent = [], t_log = [] :: message_error list\<rparr> @
     (if s_protocol ((session_start sample_openssl)\<lparr>s_protocol := 0x2080\<rparr>) AND 0x2000 = 0 then frame ''c'' else [])"
proof (rule no_reply_honoured)
  show "handle_packet sample_openssl tape_writer None 0 (CHR ''H'' # []) ((session_start sample_openssl)\<lparr>s_protocol := 0x2080\<rparr>)
      \<lparr>t_sent = [], t_log = []\<rparr> =
    (Inr (Some ((session_start sample_openssl)\<lparr>s_protocol := 0x2080\<rparr>)), \<lparr>t_sent = [], t_log = []\<rparr>)"
    by (simp add: handle_packet_def Let_def acknowledged_def write_continue_if_needed_def
        no_reply_flag_def flag_defs session_start_def act_simps)
  show "(CHR ''H'', 0x2000) \<in> set smfip_no_reply"
    by (simp add: smfip_no_reply_def)
qed

end
