(* ===== verification/Connection.thy ===== *)
theory Connection
  imports Session
begin

text \<open>
  The connection of src/milter.rs: a socket whose calls may deliver any piece of the input,
  take any piece of the output, or fail; \<open>DeadlineConnection\<close>, which checks the absolute
  deadline around every call; the standard library's \<open>read_exact\<close> and \<open>write_all\<close> over it;
  \<open>read_packet_into\<close>; and the loop of \<open>handle_connection_until\<close>.

  A socket is modelled by what its calls will find: a list of read events and a list of write
  events, consumed in order. Two clocks and the shared configuration are functions from the
  number of the reading to its result.

  The theorems say that the loop computes the transducer of theory Session on the packets of
  the bytes that arrive, whatever their fragmentation, and that whatever fails, what was sent is
  a prefix of that.
\<close>

section \<open>The socket\<close>

text \<open>\<open>Arrives []\<close> is a read of length zero: the peer has closed. A read that finds no event
  is the same.\<close>

datatype read_event = Arrives bytes | Read_Fails io_error | Read_Timeout_Rejected io_error

text \<open>\<open>Takes n\<close> is a write that accepts at most \<open>n\<close> bytes; with no event left it takes all.\<close>

datatype write_event = Takes nat | Write_Fails io_error | Write_Timeout_Rejected io_error

text \<open>\<open>k_ticks\<close> counts the readings of the monotonic clock, \<open>k_log\<close> is standard error.\<close>

record conn =
  k_reads :: "read_event list"
  k_writes :: "write_event list"
  k_sent :: bytes
  k_log :: "message_error list"
  k_ticks :: nat

text \<open>The monotonic clock in nanoseconds at its i-th reading; the wall clock and the
  configuration behind the lock when the i-th packet is handled.\<close>

record 'k environment =
  instant :: "nat \<Rightarrow> nat"
  wall :: "nat \<Rightarrow> int"
  active :: "nat \<Rightarrow> 'k runtime_config option"

definition socket_read :: "nat \<Rightarrow> (conn, io_error, bytes) act" where
  "socket_read n c =
     (case k_reads c of
        [] \<Rightarrow> (Inr [], c)
      | Arrives bs # es \<Rightarrow>
          if length bs \<le> n then (Inr bs, c\<lparr>k_reads := es\<rparr>)
          else (Inr (take n bs), c\<lparr>k_reads := Arrives (drop n bs) # es\<rparr>)
      | Read_Fails e # es \<Rightarrow> (Inl e, c\<lparr>k_reads := es\<rparr>)
      | Read_Timeout_Rejected e # es \<Rightarrow> (Inl e, c\<lparr>k_reads := es\<rparr>))"

definition set_read_timeout :: "nat \<Rightarrow> (conn, io_error, unit) act" where
  "set_read_timeout timeout c =
     (case k_reads c of Read_Timeout_Rejected e # es \<Rightarrow> (Inl e, c\<lparr>k_reads := es\<rparr>) | _ \<Rightarrow> (Inr (), c))"

definition socket_write :: "bytes \<Rightarrow> (conn, io_error, nat) act" where
  "socket_write bs c =
     (case k_writes c of
        [] \<Rightarrow> (Inr (length bs), c\<lparr>k_sent := k_sent c @ bs\<rparr>)
      | Takes n # es \<Rightarrow> (Inr (min n (length bs)), c\<lparr>k_writes := es, k_sent := k_sent c @ take n bs\<rparr>)
      | Write_Fails e # es \<Rightarrow> (Inl e, c\<lparr>k_writes := es\<rparr>)
      | Write_Timeout_Rejected e # es \<Rightarrow> (Inl e, c\<lparr>k_writes := es\<rparr>))"

definition set_write_timeout :: "nat \<Rightarrow> (conn, io_error, unit) act" where
  "set_write_timeout timeout c =
     (case k_writes c of Write_Timeout_Rejected e # es \<Rightarrow> (Inl e, c\<lparr>k_writes := es\<rparr>) | _ \<Rightarrow> (Inr (), c))"

section \<open>DeadlineConnection\<close>

definition remaining :: "(nat \<Rightarrow> nat) \<Rightarrow> nat \<Rightarrow> (conn, io_error, nat) act" where
  "remaining clock deadline c =
     (let now = clock (k_ticks c); c = c\<lparr>k_ticks := Suc (k_ticks c)\<rparr>
      in if now < deadline then (Inr (deadline - now), c) else (Inl Timed_Out, c))"

text \<open>The deadline before and after a call.\<close>

definition within_deadline ::
  "(nat \<Rightarrow> nat) \<Rightarrow> nat \<Rightarrow> (nat \<Rightarrow> (conn, io_error, unit) act) \<Rightarrow> (conn, io_error, 'a) act
    \<Rightarrow> (conn, io_error, 'a) act" where
  "within_deadline clock deadline set_timeout call =
     bind_act (remaining clock deadline) (\<lambda>timeout.
     bind_act (set_timeout timeout) (\<lambda>_ c.
       case call c of (result, c) \<Rightarrow>
         bind_act (remaining clock deadline) (\<lambda>_ c. (result, c)) c))"

definition dc_read :: "(nat \<Rightarrow> nat) \<Rightarrow> nat \<Rightarrow> nat \<Rightarrow> (conn, io_error, bytes) act" where
  "dc_read clock deadline n = within_deadline clock deadline set_read_timeout (socket_read n)"

definition dc_write :: "(nat \<Rightarrow> nat) \<Rightarrow> nat \<Rightarrow> bytes \<Rightarrow> (conn, io_error, nat) act" where
  "dc_write clock deadline bs = within_deadline clock deadline set_write_timeout (socket_write bs)"

text \<open>The standard library's \<open>flush\<close> of a socket does nothing.\<close>

definition socket_flush :: "(conn, io_error, unit) act" where
  "socket_flush = ok ()"

definition dc_flush :: "(nat \<Rightarrow> nat) \<Rightarrow> nat \<Rightarrow> (conn, io_error, unit) act" where
  "dc_flush clock deadline = within_deadline clock deadline set_write_timeout socket_flush"

section \<open>What a call may do\<close>

text \<open>A call either fails, or succeeds as the bare socket call does, the ticks aside.\<close>

lemma within_deadline_cases:
  assumes "within_deadline clock deadline set_timeout call c = (r, c')"
  obtains
    (early) "r = Inl Timed_Out" and "c' = c\<lparr>k_ticks := Suc (k_ticks c)\<rparr>"
      and "deadline \<le> clock (k_ticks c)"
  | (rejected) d e where "set_timeout d (c\<lparr>k_ticks := Suc (k_ticks c)\<rparr>) = (Inl e, c')" and "r = Inl e"
  | (called) d c1 r1 c2 where "set_timeout d (c\<lparr>k_ticks := Suc (k_ticks c)\<rparr>) = (Inr (), c1)"
      and "call c1 = (r1, c2)" and "c' = c2\<lparr>k_ticks := Suc (k_ticks c2)\<rparr>"
      and "r = r1 \<or> r = Inl Timed_Out \<and> deadline \<le> clock (k_ticks c2)"
  using assms
  by (auto simp: within_deadline_def bind_act_def remaining_def Let_def not_less
      split: if_splits prod.splits sum.splits)

text \<open>The bytes that arrive, in order.\<close>

fun arriving :: "read_event list \<Rightarrow> bytes" where
  "arriving [] = []"
| "arriving (Arrives bs # es) = bs @ arriving es"
| "arriving (_ # es) = arriving es"

lemma dc_read_cases:
  assumes "dc_read clock deadline n c = (r, c')"
  shows "k_sent c' = k_sent c \<and> k_log c' = k_log c \<and> k_writes c' = k_writes c \<and>
    (case r of
       Inr bs \<Rightarrow> length bs \<le> n \<and> arriving (k_reads c) = bs @ arriving (k_reads c') \<and>
         length (k_reads c') \<le> length (k_reads c)
     | Inl e \<Rightarrow> e = Timed_Out \<or>
         length (k_reads c') < length (k_reads c) \<and> arriving (k_reads c') = arriving (k_reads c))"
  using assms unfolding dc_read_def
proof (cases rule: within_deadline_cases)
  case (called d c1 r1 c2)
  have c1: "c1 = c\<lparr>k_ticks := Suc (k_ticks c)\<rparr>"
    using called(1) by (auto simp: set_read_timeout_def split: list.splits read_event.splits)
  show ?thesis
    using called(2-4) unfolding c1
    by (auto simp: socket_read_def split: list.splits read_event.splits if_splits)
qed (auto simp: set_read_timeout_def split: list.splits read_event.splits)

lemma dc_write_cases:
  assumes "dc_write clock deadline bs c = (r, c')"
  shows "k_reads c' = k_reads c \<and> k_log c' = k_log c \<and>
    (case r of
       Inr n \<Rightarrow> n \<le> length bs \<and> k_sent c' = k_sent c @ take n bs \<and>
         length (k_writes c') \<le> length (k_writes c)
     | Inl e \<Rightarrow> (\<exists>n. k_sent c' = k_sent c @ take n bs) \<and>
         (e = Timed_Out \<or> length (k_writes c') < length (k_writes c) \<and> k_sent c' = k_sent c))"
  using assms unfolding dc_write_def
proof (cases rule: within_deadline_cases)
  case early
  then show ?thesis
    by (auto intro: exI [of _ 0])
next
  case (rejected d e)
  then show ?thesis
    by (auto simp: set_write_timeout_def split: list.splits write_event.splits intro: exI [of _ 0])
next
  case (called d c1 r1 c2)
  have c1: "c1 = c\<lparr>k_ticks := Suc (k_ticks c)\<rparr>"
    using called(1) by (auto simp: set_write_timeout_def split: list.splits write_event.splits)
  have "k_reads c2 = k_reads c \<and> k_log c2 = k_log c \<and> length (k_writes c2) \<le> length (k_writes c) \<and>
      (case r1 of Inr n \<Rightarrow> n \<le> length bs \<and> k_sent c2 = k_sent c @ take n bs
       | Inl e \<Rightarrow> k_sent c2 = k_sent c @ take 0 bs \<and> length (k_writes c2) < length (k_writes c))"
    using called(2) unfolding c1
    by (auto simp: socket_write_def min_def split: list.splits write_event.splits)
  then show ?thesis
    using called(3,4) by (cases r1) auto
qed

lemma dc_flush_cases:
  assumes "dc_flush clock deadline c = (r, c')"
  shows "k_reads c' = k_reads c \<and> k_log c' = k_log c \<and> k_sent c' = k_sent c"
  using assms unfolding dc_flush_def socket_flush_def
  by (cases rule: within_deadline_cases)
    (auto simp: set_write_timeout_def ok_def split: list.splits write_event.splits)

section \<open>read_exact and write_all\<close>

text \<open>The standard library's loops: an empty read or write is an error, \<open>Interrupted\<close> is
  retried. \<open>acc\<close> is the part of the buffer already filled.\<close>

function read_exact :: "(nat \<Rightarrow> nat) \<Rightarrow> nat \<Rightarrow> nat \<Rightarrow> bytes \<Rightarrow> (conn, io_error, bytes) act" where
  "read_exact clock deadline n acc c =
     (if n = 0 then (Inr acc, c) else
      case dc_read clock deadline n c of
        (Inr bs, c) \<Rightarrow>
          if bs = [] then (Inl Unexpected_Eof, c)
          else read_exact clock deadline (n - length bs) (acc @ bs) c
      | (Inl e, c) \<Rightarrow>
          if e = Interrupted then read_exact clock deadline n acc c else (Inl e, c))"
  by auto
termination
proof (relation "measures [\<lambda>(_, _, n, _, _). n, \<lambda>(_, _, _, _, c). length (k_reads c)]", goal_cases)
  case (2 clock deadline n acc c r c' e)
  then have "dc_read clock deadline n c = (Inl Interrupted, c')"
    by simp
  from dc_read_cases [OF this] show ?case
    by simp
next
  case (3 clock deadline n acc c r c' bs)
  then show ?case
    by (cases bs) auto
qed simp

function write_all :: "(nat \<Rightarrow> nat) \<Rightarrow> nat \<Rightarrow> bytes \<Rightarrow> (conn, io_error, unit) act" where
  "write_all clock deadline bs c =
     (if bs = [] then (Inr (), c) else
      case dc_write clock deadline bs c of
        (Inr n, c) \<Rightarrow>
          if n = 0 then (Inl Write_Zero, c) else write_all clock deadline (drop n bs) c
      | (Inl e, c) \<Rightarrow>
          if e = Interrupted then write_all clock deadline bs c else (Inl e, c))"
  by auto
termination
proof (relation "measures [\<lambda>(_, _, bs, _). length bs, \<lambda>(_, _, _, c). length (k_writes c)]", goal_cases)
  case (2 clock deadline bs c r c' e)
  then have "dc_write clock deadline bs c = (Inl Interrupted, c')"
    by simp
  from dc_write_cases [OF this] show ?case
    by simp
qed auto

declare read_exact.simps [simp del] write_all.simps [simp del]

definition conn_writer :: "(nat \<Rightarrow> nat) \<Rightarrow> nat \<Rightarrow> (conn, message_error) writer" where
  "conn_writer clock deadline =
     \<lparr>w_put = (\<lambda>bs. bind_act (write_all clock deadline bs) (\<lambda>_. dc_flush clock deadline)),
      w_log = (\<lambda>l c. c\<lparr>k_log := k_log c @ [l]\<rparr>)\<rparr>"

section \<open>The loop\<close>

definition read_packet_into :: "(nat \<Rightarrow> nat) \<Rightarrow> nat \<Rightarrow> (conn, io_error, bytes option) act" where
  "read_packet_into clock deadline c =
     (case read_exact clock deadline 4 [] c of
        (Inl e, c) \<Rightarrow> if e = Unexpected_Eof then (Inr None, c) else (Inl e, c)
      | (Inr header, c) \<Rightarrow>
          let len = unat (from_be_bytes header)
          in if len = 0 \<or> MAX_PACKET < len then (Inl Invalid_Data, c)
             else (case read_exact clock deadline len [] c of
                 (Inl e, c) \<Rightarrow> (Inl e, c)
               | (Inr packet, c) \<Rightarrow> (Inr (Some packet), c)))"

lemma read_exact_reads:
  "read_exact clock deadline n acc c = (r, c') \<Longrightarrow>
     k_sent c' = k_sent c \<and> k_log c' = k_log c \<and> k_writes c' = k_writes c \<and>
     (\<forall>bs. r = Inr bs \<longrightarrow> (\<exists>new. bs = acc @ new \<and> length new = n \<and>
        arriving (k_reads c) = new @ arriving (k_reads c')))"
proof (induction clock deadline n acc c arbitrary: r c' rule: read_exact.induct)
  case (1 clock deadline n acc c)
  show ?case
  proof (cases "n = 0")
    case True
    with 1(3) show ?thesis
      by (auto simp: read_exact.simps)
  next
    case False
    obtain x c1 where x: "dc_read clock deadline n c = (x, c1)"
      by (cases "dc_read clock deadline n c")
    note d = dc_read_cases [OF x]
    show ?thesis
    proof (cases x)
      case (Inl e)
      show ?thesis
      proof (cases "e = Interrupted")
        case True
        then have "read_exact clock deadline n acc c1 = (r, c')"
          using 1(3) x Inl \<open>n \<noteq> 0\<close> by (simp add: read_exact.simps [of clock deadline n])
        from "1.IH"(1) [OF \<open>n \<noteq> 0\<close> x [symmetric] Inl True this] d Inl True show ?thesis
          by fastforce
      next
        case False
        with 1(3) x Inl d \<open>n \<noteq> 0\<close> show ?thesis
          by (auto simp: read_exact.simps [of clock deadline n])
      qed
    next
      case (Inr bs)
      show ?thesis
      proof (cases "bs = []")
        case True
        with 1(3) x Inr d \<open>n \<noteq> 0\<close> show ?thesis
          by (auto simp: read_exact.simps [of clock deadline n])
      next
        case False
        then have "read_exact clock deadline (n - length bs) (acc @ bs) c1 = (r, c')"
          using 1(3) x Inr \<open>n \<noteq> 0\<close> by (simp add: read_exact.simps [of clock deadline n])
        from "1.IH"(2) [OF \<open>n \<noteq> 0\<close> x [symmetric] Inr False this] d Inr show ?thesis
          by fastforce
      qed
    qed
  qed
qed

lemma write_all_writes:
  "write_all clock deadline bs c = (r, c') \<Longrightarrow>
     k_reads c' = k_reads c \<and> k_log c' = k_log c \<and>
     (case r of Inr _ \<Rightarrow> k_sent c' = k_sent c @ bs
      | Inl _ \<Rightarrow> \<exists>p. prefix p bs \<and> k_sent c' = k_sent c @ p)"
proof (induction clock deadline bs c arbitrary: r c' rule: write_all.induct)
  case (1 clock deadline bs c)
  show ?case
  proof (cases "bs = []")
    case True
    with 1(3) show ?thesis
      by (auto simp: write_all.simps)
  next
    case False
    obtain x c1 where x: "dc_write clock deadline bs c = (x, c1)"
      by (cases "dc_write clock deadline bs c")
    note d = dc_write_cases [OF x]
    show ?thesis
    proof (cases x)
      case (Inl e)
      show ?thesis
      proof (cases "e = Interrupted")
        case True
        then have "write_all clock deadline bs c1 = (r, c')"
          using 1(3) x Inl False by (simp add: write_all.simps [of clock deadline bs])
        from "1.IH"(1) [OF False x [symmetric] Inl True this] d Inl True show ?thesis
          by (auto split: sum.splits)
      next
        case other: False
        with 1(3) x Inl d False show ?thesis
          by (auto simp: write_all.simps [of clock deadline bs] take_is_prefix)
      qed
    next
      case (Inr n)
      show ?thesis
      proof (cases "n = 0")
        case True
        with 1(3) x Inr d False show ?thesis
          by (auto simp: write_all.simps [of clock deadline bs])
      next
        case pos: False
        then have "write_all clock deadline (drop n bs) c1 = (r, c')"
          using 1(3) x Inr False by (simp add: write_all.simps [of clock deadline bs])
        note IH = "1.IH"(2) [OF False x [symmetric] Inr pos this]
        show ?thesis
        proof (cases r)
          case (Inl e)
          then obtain p where p: "prefix p (drop n bs)" "k_sent c' = k_sent c1 @ p"
            using IH by auto
          have "prefix (take n bs @ p) (take n bs @ drop n bs)"
            using p(1) by (simp del: append_take_drop_id)
          then have "prefix (take n bs @ p) bs"
            by (simp only: append_take_drop_id)
          with p(2) d Inr Inl IH show ?thesis
            by (auto intro!: exI [of _ "take n bs @ p"])
        next
          case (Inr u)
          with IH d \<open>x = Inr n\<close> show ?thesis
            by (simp add: append.assoc [symmetric] del: append.assoc)
        qed
      qed
    qed
  qed
qed

lemma conn_put_cases:
  assumes "w_put (conn_writer clock deadline) bs c = (r, c')"
  shows "k_reads c' = k_reads c \<and> k_log c' = k_log c \<and>
    (case r of Inr _ \<Rightarrow> k_sent c' = k_sent c @ bs
     | Inl _ \<Rightarrow> \<exists>p. prefix p bs \<and> k_sent c' = k_sent c @ p)"
proof -
  obtain x c1 where x: "write_all clock deadline bs c = (x, c1)"
    by (cases "write_all clock deadline bs c")
  note w = write_all_writes [OF x]
  show ?thesis
  proof (cases x)
    case (Inl e)
    then have "r = Inl e" "c' = c1"
      using assms x by (simp_all add: conn_writer_def bind_act_def)
    with w Inl show ?thesis
      by simp
  next
    case (Inr u)
    then have f: "dc_flush clock deadline c1 = (r, c')"
      using assms x by (simp add: conn_writer_def bind_act_def)
    from dc_flush_cases [OF f] w Inr show ?thesis
      by (cases r) auto
  qed
qed

interpretation conn: message_sink "conn_writer clock deadline" k_sent k_log
proof unfold_locales
  show "w_put (conn_writer clock deadline) bs w = (Inr u, w') \<Longrightarrow> k_sent w' = k_sent w @ bs" for bs w u w'
    using conn_put_cases by fastforce
  show "w_put (conn_writer clock deadline) bs w = (Inl e, w') \<Longrightarrow>
      \<exists>p. prefix p bs \<and> k_sent w' = k_sent w @ p" for bs w e w'
    using conn_put_cases by fastforce
  show "k_log (snd (w_put (conn_writer clock deadline) bs w)) = k_log w" for bs w
    using conn_put_cases [of clock deadline bs w] by (metis prod.collapse)
qed (simp_all add: conn_writer_def)

text \<open>Handling a packet reads nothing.\<close>

definition leaves :: "('w \<Rightarrow> 'x) \<Rightarrow> ('w, 'e, 'a) act \<Rightarrow> bool" where
  "leaves view m \<longleftrightarrow> (\<forall>w. view (snd (m w)) = view w)"

lemma leaves_ok [simp]: "leaves view (ok a)" "leaves view (err e)"
  by (simp_all add: leaves_def act_simps)

lemma leaves_bind [simp]:
  assumes "leaves view m" and "\<And>a. leaves view (f a)"
  shows "leaves view (bind_act m f)"
  unfolding leaves_def
proof
  fix w
  show "view (snd (bind_act m f w)) = view w"
    using assms unfolding leaves_def bind_act_def
    by (cases "m w"; cases "fst (m w)") (auto, (metis snd_conv)+)
qed

lemma leaves_map_err [simp]:
  assumes "leaves view m"
  shows "leaves view (map_err h m)"
  unfolding leaves_def
proof
  fix w
  show "view (snd (map_err h m w)) = view w"
    using assms unfolding leaves_def map_err_def
    by (cases "m w"; cases "fst (m w)") (auto, (metis snd_conv)+)
qed

lemma leaves_put [simp]: "leaves k_reads (w_put (conn_writer clock deadline) bs)"
  unfolding leaves_def using conn_put_cases by (metis prod.collapse)

lemma leaves_log [simp]: "leaves k_reads (\<lambda>c. ok a (w_log (conn_writer clock deadline) l c))"
  by (simp add: leaves_def act_simps conn_writer_def)

lemma leaves_writes [simp]:
  "leaves k_reads (write_status (conn_writer clock deadline) s)"
  "leaves k_reads (write_packet (conn_writer clock deadline) s p)"
  "leaves k_reads (write_continue_if_needed (conn_writer clock deadline) f s)"
  by (simp_all add: write_status_def write_packet_def write_continue_if_needed_def split: option.splits)

lemma leaves_finish_message [simp]:
  "leaves k_reads (finish_message ossl (conn_writer clock deadline) now actions st)"
  unfolding finish_message_def Let_def
  by (intro leaves_bind) (auto split: option.splits sum.splits prod.splits)

lemma handle_packet_reads:
  "k_reads (snd (handle_packet ossl (conn_writer clock deadline) a now packet s c)) = k_reads c"
proof -
  have "leaves k_reads (handle_packet ossl (conn_writer clock deadline) a now packet s)"
    by (cases packet)
      (auto simp: handle_packet_def Let_def ensure_started_def split: option.splits prod.splits)
  then show ?thesis
    by (simp add: leaves_def)
qed

lemma read_packet_into_reads:
  assumes "read_packet_into clock deadline c = (r, c')"
  shows "k_sent c' = k_sent c \<and> k_log c' = k_log c \<and> k_writes c' = k_writes c \<and>
    (\<forall>p. r = Inr (Some p) \<longrightarrow> p \<noteq> [] \<and> length p \<le> MAX_PACKET \<and>
       (\<exists>header. length header = 4 \<and> unat (from_be_bytes header) = length p \<and>
         arriving (k_reads c) = header @ p @ arriving (k_reads c')))"
proof -
  obtain x c1 where x: "read_exact clock deadline 4 [] c = (x, c1)"
    by (cases "read_exact clock deadline 4 [] c")
  note h = read_exact_reads [OF x]
  show ?thesis
  proof (cases x)
    case (Inl e)
    with assms x h show ?thesis
      by (auto simp: read_packet_into_def split: if_splits)
  next
    case (Inr header)
    let ?n = "unat (from_be_bytes header)"
    obtain y c2 where y: "read_exact clock deadline ?n [] c1 = (y, c2)"
      by (cases "read_exact clock deadline ?n [] c1")
    note b = read_exact_reads [OF y]
    have "length header = 4" "arriving (k_reads c) = header @ arriving (k_reads c1)"
      using h Inr by auto
    then show ?thesis
      using assms x Inr y h b
      by (auto simp: read_packet_into_def Let_def split: if_splits sum.splits)
  qed
qed

text \<open>The number of bytes still to arrive bounds the loop: a packet takes at least five.\<close>

function handle_connection_until ::
  "('h, 'k, 's) openssl \<Rightarrow> 'k environment \<Rightarrow> nat \<Rightarrow> nat \<Rightarrow> ('h, 'k) session \<Rightarrow> (conn, close_error, unit) act" where
  "handle_connection_until ossl env deadline n s c =
     (case read_packet_into (instant env) deadline c of
        (Inl e, c) \<Rightarrow> (Inl (Reading e), c)
      | (Inr None, c) \<Rightarrow> (Inr (), c)
      | (Inr (Some packet), c) \<Rightarrow>
          (case handle_packet ossl (conn_writer (instant env) deadline) (active env n) (wall env n)
              packet s c of
             (Inl e, c) \<Rightarrow> (Inl e, c)
           | (Inr None, c) \<Rightarrow> (Inr (), c)
           | (Inr (Some s), c) \<Rightarrow> handle_connection_until ossl env deadline (Suc n) s c))"
  by auto
termination
proof (relation "measure (\<lambda>(_, _, _, _, _, c). length (arriving (k_reads c)))", goal_cases)
  case (2 ossl env deadline n s c r1 c1 r2 p r3 c2 r4 s')
  from 2 have "read_packet_into (instant env) deadline c = (Inr (Some p), c1)"
    by simp
  from read_packet_into_reads [OF this]
  have "length (arriving (k_reads c1)) < length (arriving (k_reads c))"
    by auto
  moreover have "k_reads c2 = k_reads c1"
    using 2 handle_packet_reads [of ossl "instant env" deadline "active env n" "wall env n" p s c1]
    by (metis snd_conv)
  ultimately show ?case
    by simp
qed simp

declare handle_connection_until.simps [simp del]

text \<open>One round of the loop: what other threads can see happen at once, since a round reads the shared
  configuration at most once. The session is \<open>None\<close> when the loop ends.\<close>

definition connection_round ::
  "('h, 'k, 's) openssl \<Rightarrow> (nat \<Rightarrow> nat) \<Rightarrow> nat \<Rightarrow> 'k runtime_config option \<Rightarrow> int \<Rightarrow> ('h, 'k) session
    \<Rightarrow> (conn, close_error, ('h, 'k) session option) act" where
  "connection_round ossl clock deadline config now s c =
     (case read_packet_into clock deadline c of
        (Inl e, c) \<Rightarrow> (Inl (Reading e), c)
      | (Inr None, c) \<Rightarrow> (Inr None, c)
      | (Inr (Some packet), c) \<Rightarrow> handle_packet ossl (conn_writer clock deadline) config now packet s c)"

lemma handle_connection_until_rounds:
  "handle_connection_until ossl env deadline n s c =
     (case connection_round ossl (instant env) deadline (active env n) (wall env n) s c of
        (Inl e, c) \<Rightarrow> (Inl e, c)
      | (Inr None, c) \<Rightarrow> (Inr (), c)
      | (Inr (Some s), c) \<Rightarrow> handle_connection_until ossl env deadline (Suc n) s c)"
  by (subst handle_connection_until.simps)
    (auto simp: connection_round_def split: prod.splits sum.splits option.splits)

lemma connection_round_reads:
  assumes "connection_round ossl clock deadline a now s c = (Inr (Some s'), c')"
  shows "length (arriving (k_reads c')) < length (arriving (k_reads c))"
proof -
  obtain p c1 where p: "read_packet_into clock deadline c = (Inr (Some p), c1)"
    "handle_packet ossl (conn_writer clock deadline) a now p s c1 = (Inr (Some s'), c')"
    using assms by (auto simp: connection_round_def split: prod.splits sum.splits option.splits)
  have "k_reads c' = k_reads c1"
    using p(2) handle_packet_reads [of ossl clock deadline a now p s c1] by simp
  with read_packet_into_reads [OF p(1)] show ?thesis
    by auto
qed

definition CONNECTION_TIMEOUT :: nat where
  "CONNECTION_TIMEOUT = 60 * 10 ^ 9"

definition handle_connection ::
  "('h, 'k, 's) openssl \<Rightarrow> 'k environment \<Rightarrow> (conn, close_error, unit) act" where
  "handle_connection ossl env c =
     (let now = instant env (k_ticks c); c = c\<lparr>k_ticks := Suc (k_ticks c)\<rparr>
      in handle_connection_until ossl env (now + CONNECTION_TIMEOUT) 0 (session_start ossl) c)"

section \<open>The session of a byte stream\<close>

text \<open>How a connection ends when its input does: cleanly before a full length, with an error
  at a bad length or inside a packet.\<close>

definition stream_end :: "bytes \<Rightarrow> close_error + unit" where
  "stream_end rest =
     (if length rest < 4 then Inr ()
      else let n = unat (from_be_bytes (take 4 rest))
        in if n = 0 \<or> MAX_PACKET < n then Inl (Reading Invalid_Data) else Inl (Reading Unexpected_Eof))"

fun run_session ::
  "('h, 'k, 's) openssl \<Rightarrow> 'k environment \<Rightarrow> nat \<Rightarrow> ('h, 'k) session \<Rightarrow> bytes list \<Rightarrow> close_error + unit
    \<Rightarrow> (close_error + unit) \<times> bytes list \<times> message_error list" where
  "run_session ossl env n s [] fin = (fin, [], [])"
| "run_session ossl env n s (p # ps) fin =
     (case react ossl (active env n) (wall env n) p s of
        (Inl e, out, log) \<Rightarrow> (Inl e, out, log)
      | (Inr None, out, log) \<Rightarrow> (Inr (), out, log)
      | (Inr (Some s'), out, log) \<Rightarrow>
          (case run_session ossl env (Suc n) s' ps fin of
             (r, out', log') \<Rightarrow> (r, out @ out', log @ log')))"

definition stream_session ::
  "('h, 'k, 's) openssl \<Rightarrow> 'k environment \<Rightarrow> nat \<Rightarrow> ('h, 'k) session \<Rightarrow> bytes
    \<Rightarrow> (close_error + unit) \<times> bytes list \<times> message_error list" where
  "stream_session ossl env n s input =
     (case parse_frames MAX_PACKET input of (ps, rest) \<Rightarrow> run_session ossl env n s ps (stream_end rest))"

definition sendable :: "bytes list \<Rightarrow> bool" where
  "sendable out \<longleftrightarrow> (\<forall>p \<in> set out. length p < 2 ^ 32)"

lemma stream_session_packet:
  assumes "length header = 4" and "unat (from_be_bytes header) = length p" and "p \<noteq> []"
    and "length p \<le> MAX_PACKET"
  shows "stream_session ossl env n s (header @ p @ input) =
    (case react ossl (active env n) (wall env n) p s of
        (Inl e, out, log) \<Rightarrow> (Inl e, out, log)
      | (Inr None, out, log) \<Rightarrow> (Inr (), out, log)
      | (Inr (Some s'), out, log) \<Rightarrow>
          (case stream_session ossl env (Suc n) s' input of
             (r, out', log') \<Rightarrow> (r, out @ out', log @ log')))"
proof -
  obtain ps rest where f: "parse_frames MAX_PACKET input = (ps, rest)"
    by (cases "parse_frames MAX_PACKET input")
  show ?thesis
    unfolding stream_session_def parse_frames_packet [OF assms] f fst_conv snd_conv prod.case
    by simp
qed

text \<open>One packet, over the socket.\<close>

lemma handle_packet_socket:
  assumes "react ossl a now packet s = (r, ps, ls)" and "sendable ps"
    and "handle_packet ossl (conn_writer clock deadline) a now packet s c = (r', c')"
  shows "(r' = r \<and> k_sent c' = k_sent c @ concat (map frame ps) \<and> k_log c' = k_log c @ ls) \<or>
    (\<exists>e p. r' = Inl (Writing (Write_Error e)) \<and> prefix p (concat (map frame ps)) \<and> k_sent c' = k_sent c @ p)"
  using conn.handle_packet_sends [OF assms(1), of clock deadline] assms(2,3)
  unfolding sends_def sendable_def by (metis fst_conv snd_conv)

lemma prefix_frames: "prefix p (concat (map frame ps)) \<Longrightarrow> prefix p (concat (map frame (ps @ qs)))"
  by (simp add: prefix_prefix)

text \<open>Whatever the socket does, only a prefix of the session's answers is sent.\<close>

lemma handle_connection_until_prefix:
  assumes "handle_connection_until ossl env deadline n s c = (r, c')"
    and "stream_session ossl env n s (arriving (k_reads c)) = (r0, out, log)" and "sendable out"
  shows "\<exists>p. prefix p (concat (map frame out)) \<and> k_sent c' = k_sent c @ p"
  using assms
proof (induction ossl env deadline n s c arbitrary: r c' r0 out log rule: handle_connection_until.induct)
  case (1 ossl env deadline n s c)
  obtain x c1 where x: "read_packet_into (instant env) deadline c = (x, c1)"
    by (cases "read_packet_into (instant env) deadline c")
  note rd = read_packet_into_reads [OF x]
  show ?case
  proof (cases "\<exists>p. x = Inr (Some p)")
    case False
    then have "c' = c1"
      using "1.prems"(1) x
      by (auto simp: handle_connection_until.simps [of ossl env deadline n s c] split: sum.splits option.splits)
    with rd show ?thesis
      by (auto intro: exI [of _ "[]"])
  next
    case True
    then obtain p where p: "x = Inr (Some p)"
      by blast
    then obtain header where h: "length header = 4" "unat (from_be_bytes header) = length p" "p \<noteq> []"
      "length p \<le> MAX_PACKET" "arriving (k_reads c) = header @ p @ arriving (k_reads c1)"
      using rd by blast
    obtain y c2 where y: "handle_packet ossl (conn_writer (instant env) deadline) (active env n) (wall env n) p s c1 = (y, c2)"
      by (cases "handle_packet ossl (conn_writer (instant env) deadline) (active env n) (wall env n) p s c1")
    obtain z ps ls where z: "react ossl (active env n) (wall env n) p s = (z, ps, ls)"
      by (cases "react ossl (active env n) (wall env n) p s")
    note session = stream_session_packet [OF h(1-4), of ossl env n s "arriving (k_reads c1)"]
    have out: "\<exists>qs. out = ps @ qs"
      using "1.prems"(2) h(5) session z
      by (auto split: sum.splits option.splits prod.splits)
    then have "sendable ps"
      using "1.prems"(3) by (auto simp: sendable_def)
    note packet = handle_packet_socket [OF z this y]
    show ?thesis
    proof (cases "\<exists>s'. y = Inr (Some s')")
      case False
      then have "c' = c2"
        using "1.prems"(1) x p y
        by (auto simp: handle_connection_until.simps [of ossl env deadline n s c] split: sum.splits option.splits)
      with packet rd out show ?thesis
        using prefix_frames by (metis prefix_order.refl)
    next
      case True
      then obtain s' where s': "y = Inr (Some s')"
        by blast
      then have rest: "handle_connection_until ossl env deadline (Suc n) s' c2 = (r, c')"
        using "1.prems"(1) x p y by (simp add: handle_connection_until.simps [of ossl env deadline n s c])
      obtain r1 out1 log1 where o1: "stream_session ossl env (Suc n) s' (arriving (k_reads c1)) = (r1, out1, log1)"
        by (cases "stream_session ossl env (Suc n) s' (arriving (k_reads c1))")
      have c2: "z = Inr (Some s')" "k_sent c2 = k_sent c1 @ concat (map frame ps)"
        using packet s' by auto
      have out': "out = ps @ out1"
        using "1.prems"(2) h(5) session z c2(1) o1 by simp
      then have "sendable out1"
        using "1.prems"(3) by (simp add: sendable_def)
      moreover have "k_reads c2 = k_reads c1"
        using handle_packet_reads [of ossl "instant env" deadline "active env n" "wall env n" p s c1] y by simp
      ultimately obtain q where "prefix q (concat (map frame out1))" "k_sent c' = k_sent c2 @ q"
        using "1.IH" [OF x [symmetric] p refl y [symmetric] s' refl rest] o1 by auto
      with c2(2) rd out' show ?thesis
        by (intro exI [of _ "concat (map frame ps) @ q"]) simp
    qed
  qed
qed

section \<open>A connection that only fragments\<close>

text \<open>Calls may be interrupted and may move any positive number of bytes, but none fails, and
  the deadline is not reached.\<close>

definition benign_read :: "read_event \<Rightarrow> bool" where
  "benign_read e \<longleftrightarrow> (case e of Arrives bs \<Rightarrow> bs \<noteq> [] | Read_Fails x \<Rightarrow> x = Interrupted | _ \<Rightarrow> False)"

definition benign_write :: "write_event \<Rightarrow> bool" where
  "benign_write e \<longleftrightarrow> (case e of Takes n \<Rightarrow> 0 < n | Write_Fails x \<Rightarrow> x = Interrupted | _ \<Rightarrow> False)"

definition benign :: "conn \<Rightarrow> bool" where
  "benign c \<longleftrightarrow> list_all benign_read (k_reads c) \<and> list_all benign_write (k_writes c)"

definition in_time :: "(nat \<Rightarrow> nat) \<Rightarrow> nat \<Rightarrow> bool" where
  "in_time clock deadline \<longleftrightarrow> (\<forall>i. clock i < deadline)"

lemma benign_ticks [simp]: "benign (c\<lparr>k_ticks := n\<rparr>) = benign c"
  by (simp add: benign_def)

lemma dc_read_benign:
  assumes "in_time clock deadline" and "benign c" and "0 < n" and "dc_read clock deadline n c = (r, c')"
  shows "benign c' \<and> (case r of Inl e \<Rightarrow> e = Interrupted | Inr bs \<Rightarrow> bs = [] \<longrightarrow> k_reads c = [])"
  using assms(4) unfolding dc_read_def
proof (cases rule: within_deadline_cases)
  case early
  then show ?thesis
    using assms(1) by (auto simp: in_time_def not_le [symmetric])
next
  case (rejected d e)
  then show ?thesis
    using assms(2) by (auto simp: set_read_timeout_def benign_def benign_read_def split: list.splits read_event.splits)
next
  case (called d c1 r1 c2)
  have c1: "c1 = c\<lparr>k_ticks := Suc (k_ticks c)\<rparr>"
    using called(1) by (auto simp: set_read_timeout_def split: list.splits read_event.splits)
  have "r = r1"
    using called(4) assms(1) by (auto simp: in_time_def not_le [symmetric])
  then show ?thesis
    using called(2,3) assms(2,3) unfolding c1
    by (auto simp: socket_read_def benign_def benign_read_def split: list.splits read_event.splits if_splits)
qed

lemma read_exact_benign:
  "in_time clock deadline \<Longrightarrow> benign c \<Longrightarrow> read_exact clock deadline n acc c = (r, c') \<Longrightarrow>
     benign c' \<and> r = (if n \<le> length (arriving (k_reads c)) then Inr (acc @ take n (arriving (k_reads c)))
       else Inl Unexpected_Eof)"
proof (induction clock deadline n acc c arbitrary: r c' rule: read_exact.induct)
  case (1 clock deadline n acc c)
  show ?case
  proof (cases "n = 0")
    case True
    with 1(4,5) show ?thesis
      by (auto simp: read_exact.simps)
  next
    case False
    obtain x c1 where x: "dc_read clock deadline n c = (x, c1)"
      by (cases "dc_read clock deadline n c")
    have "0 < n"
      using False by simp
    note b = dc_read_benign [OF 1(3,4) this x] and d = dc_read_cases [OF x]
    note unfold = read_exact.simps [of clock deadline n acc c]
    show ?thesis
    proof (cases x)
      case (Inl e)
      then have e: "e = Interrupted"
        using b by simp
      then have rest: "read_exact clock deadline n acc c1 = (r, c')"
        using 1(5) x Inl False unfold by simp
      have "arriving (k_reads c1) = arriving (k_reads c)"
        using d Inl e by simp
      with "1.IH"(1) [OF False x [symmetric] Inl e 1(3) _ rest] b show ?thesis
        by simp
    next
      case (Inr bs)
      show ?thesis
      proof (cases "bs = []")
        case True
        with 1(5) x Inr b False unfold show ?thesis
          by simp
      next
        case more: False
        then have rest: "read_exact clock deadline (n - length bs) (acc @ bs) c1 = (r, c')"
          using 1(5) x Inr False unfold by simp
        have "arriving (k_reads c) = bs @ arriving (k_reads c1)" "length bs \<le> n"
          using d Inr by simp_all
        with "1.IH"(2) [OF False x [symmetric] Inr more 1(3) _ rest] b show ?thesis
          by auto
      qed
    qed
  qed
qed

lemma dc_write_benign:
  assumes "in_time clock deadline" and "benign c" and "bs \<noteq> []" and "dc_write clock deadline bs c = (r, c')"
  shows "benign c' \<and> (case r of Inl e \<Rightarrow> e = Interrupted | Inr n \<Rightarrow> 0 < n)"
  using assms(4) unfolding dc_write_def
proof (cases rule: within_deadline_cases)
  case early
  then show ?thesis
    using assms(1) by (auto simp: in_time_def not_le [symmetric])
next
  case (rejected d e)
  then show ?thesis
    using assms(2) by (auto simp: set_write_timeout_def benign_def benign_write_def split: list.splits write_event.splits)
next
  case (called d c1 r1 c2)
  have c1: "c1 = c\<lparr>k_ticks := Suc (k_ticks c)\<rparr>"
    using called(1) by (auto simp: set_write_timeout_def split: list.splits write_event.splits)
  have "r = r1"
    using called(4) assms(1) by (auto simp: in_time_def not_le [symmetric])
  then show ?thesis
    using called(2,3) assms(2,3) unfolding c1
    by (auto simp: socket_write_def benign_def benign_write_def split: list.splits write_event.splits)
qed

lemma write_all_benign:
  "in_time clock deadline \<Longrightarrow> benign c \<Longrightarrow> write_all clock deadline bs c = (r, c') \<Longrightarrow>
     benign c' \<and> r = Inr ()"
proof (induction clock deadline bs c arbitrary: r c' rule: write_all.induct)
  case (1 clock deadline bs c)
  show ?case
  proof (cases "bs = []")
    case True
    with 1(4,5) show ?thesis
      by (auto simp: write_all.simps)
  next
    case False
    obtain x c1 where x: "dc_write clock deadline bs c = (x, c1)"
      by (cases "dc_write clock deadline bs c")
    note b = dc_write_benign [OF 1(3,4) False x]
    note unfold = write_all.simps [of clock deadline bs c]
    show ?thesis
    proof (cases x)
      case (Inl e)
      then have e: "e = Interrupted"
        using b by simp
      then have "write_all clock deadline bs c1 = (r, c')"
        using 1(5) x Inl False unfold by simp
      with "1.IH"(1) [OF False x [symmetric] Inl e 1(3)] b show ?thesis
        by simp
    next
      case (Inr n)
      then have n: "n \<noteq> 0"
        using b by simp
      then have "write_all clock deadline (drop n bs) c1 = (r, c')"
        using 1(5) x Inr False unfold by simp
      with "1.IH"(2) [OF False x [symmetric] Inr n 1(3)] b show ?thesis
        by simp
    qed
  qed
qed

lemma dc_flush_benign:
  assumes "in_time clock deadline" and "benign c" and "dc_flush clock deadline c = (r, c')"
  shows "benign c' \<and> r = Inr ()"
  using assms(3) unfolding dc_flush_def socket_flush_def
proof (cases rule: within_deadline_cases)
  case early
  then show ?thesis
    using assms(1) by (auto simp: in_time_def not_le [symmetric])
next
  case (rejected d e)
  then show ?thesis
    using assms(2) by (auto simp: set_write_timeout_def benign_def benign_write_def split: list.splits write_event.splits)
next
  case (called d c1 r1 c2)
  have c1: "c1 = c\<lparr>k_ticks := Suc (k_ticks c)\<rparr>"
    using called(1) by (auto simp: set_write_timeout_def split: list.splits write_event.splits)
  have "r = r1"
    using called(4) assms(1) by (auto simp: in_time_def not_le [symmetric])
  then show ?thesis
    using called(2,3) assms(2) unfolding c1 by (auto simp: ok_def)
qed

lemma conn_put_benign:
  assumes "in_time clock deadline" and "benign c"
  shows "benign (snd (w_put (conn_writer clock deadline) bs c)) \<and>
    fst (w_put (conn_writer clock deadline) bs c) = Inr ()"
proof -
  obtain x c1 where x: "write_all clock deadline bs c = (x, c1)"
    by (cases "write_all clock deadline bs c")
  obtain y c2 where y: "dc_flush clock deadline c1 = (y, c2)"
    by (cases "dc_flush clock deadline c1")
  note w = write_all_benign [OF assms x]
  show ?thesis
    using w dc_flush_benign [OF assms(1) _ y] x y by (simp add: conn_writer_def bind_act_def)
qed

text \<open>An operation that keeps \<open>Q\<close> and then never fails to write.\<close>

definition reliable :: "('w \<Rightarrow> bool) \<Rightarrow> ('w, close_error, 'a) act \<Rightarrow> bool" where
  "reliable Q m \<longleftrightarrow>
     (\<forall>w. Q w \<longrightarrow> Q (snd (m w)) \<and> (\<forall>e. fst (m w) \<noteq> Inl (Writing (Write_Error e))))"

lemma reliable_ok [simp]: "reliable Q (ok a)"
  by (simp add: reliable_def act_simps)

lemma reliable_err [simp]: "(\<And>x. e \<noteq> Writing (Write_Error x)) \<Longrightarrow> reliable Q (err e)"
  by (simp add: reliable_def act_simps)

lemma reliable_bind [simp]:
  assumes m: "reliable Q m" and f: "\<And>a. reliable Q (f a)"
  shows "reliable Q (bind_act m f)"
  unfolding reliable_def
proof (intro allI impI)
  fix w
  assume "Q w"
  with m have w: "Q (snd (m w))" "\<And>e. fst (m w) \<noteq> Inl (Writing (Write_Error e))"
    by (simp_all add: reliable_def)
  show "Q (snd (bind_act m f w)) \<and> (\<forall>e. fst (bind_act m f w) \<noteq> Inl (Writing (Write_Error e)))"
  proof (cases "m w")
    case (Pair r w')
    show ?thesis
    proof (cases r)
      case (Inl e)
      with Pair w show ?thesis
        by (simp add: bind_act_def)
    next
      case (Inr a)
      with Pair w f [of a] show ?thesis
        by (simp add: bind_act_def reliable_def)
    qed
  qed
qed

lemma reliable_put [simp]:
  assumes "in_time clock deadline"
  shows "reliable benign (map_err Writing (map_err Write_Error (w_put (conn_writer clock deadline) bs)))"
  unfolding reliable_def
proof (intro allI impI)
  fix c :: conn
  assume "benign c"
  from conn_put_benign [OF assms this, of bs]
  show "benign (snd (map_err Writing (map_err Write_Error (w_put (conn_writer clock deadline) bs)) c)) \<and>
      (\<forall>e. fst (map_err Writing (map_err Write_Error (w_put (conn_writer clock deadline) bs)) c) \<noteq>
        Inl (Writing (Write_Error e)))"
    by (cases "w_put (conn_writer clock deadline) bs c") (auto simp: map_err_def)
qed

lemma reliable_log [simp]: "reliable benign (\<lambda>c. ok a (w_log (conn_writer clock deadline) l c))"
  by (simp add: reliable_def act_simps conn_writer_def benign_def)

lemma map_err_ok [simp]: "map_err h (ok a) = ok a"
  by (simp add: act_simps fun_eq_iff)

lemma map_err_err [simp]: "map_err h (err e) = err (h e)"
  by (simp add: act_simps fun_eq_iff)

lemma reliable_writes [simp]:
  assumes "in_time clock deadline"
  shows "reliable benign (map_err Writing (write_status (conn_writer clock deadline) s))"
    and "reliable benign (map_err Writing (write_packet (conn_writer clock deadline) s p))"
    and "reliable benign (map_err Writing (write_continue_if_needed (conn_writer clock deadline) f s))"
  using assms
  by (simp_all add: write_status_def write_packet_def write_continue_if_needed_def split: option.splits)

lemma reliable_finish_message [simp]:
  "in_time clock deadline \<Longrightarrow>
     reliable benign (finish_message ossl (conn_writer clock deadline) now actions st)"
  unfolding finish_message_def Let_def
  by (intro reliable_bind) (auto split: option.splits sum.splits prod.splits)

lemma reliable_handle_packet:
  "in_time clock deadline \<Longrightarrow>
     reliable benign (handle_packet ossl (conn_writer clock deadline) a now packet s)"
  by (cases packet)
    (auto simp: handle_packet_def Let_def ensure_started_def split: option.splits prod.splits)

text \<open>On such a connection a packet is answered in full.\<close>

lemma handle_packet_benign:
  assumes "in_time clock deadline" and "benign c"
    and "react ossl a now packet s = (r, ps, ls)" and "sendable ps"
    and "handle_packet ossl (conn_writer clock deadline) a now packet s c = (r', c')"
  shows "r' = r \<and> k_sent c' = k_sent c @ concat (map frame ps) \<and> k_log c' = k_log c @ ls \<and>
    benign c' \<and> k_reads c' = k_reads c"
proof -
  have "benign c'" "\<And>e. r' \<noteq> Inl (Writing (Write_Error e))"
    using reliable_handle_packet [OF assms(1), of ossl a now packet s] assms(2,5)
    by (auto simp: reliable_def)
  with handle_packet_socket [OF assms(3-5)] handle_packet_reads [of ossl clock deadline a now packet s c]
    assms(5) show ?thesis
    by auto
qed

text \<open>The reading of a packet, by the bytes that are there.\<close>

lemma read_packet_into_benign:
  assumes "in_time clock deadline" and "benign c" and "read_packet_into clock deadline c = (r, c')"
    and "arriving (k_reads c) = input"
  shows "benign c' \<and>
    ((\<nexists>p. r = Inr (Some p)) \<longrightarrow>
       parse_frames MAX_PACKET input = ([], input) \<and>
       (case r of Inl e \<Rightarrow> Inl (Reading e) | Inr _ \<Rightarrow> Inr ()) = stream_end input)"
proof -
  obtain x c1 where x: "read_exact clock deadline 4 [] c = (x, c1)"
    by (cases "read_exact clock deadline 4 [] c")
  note h = read_exact_benign [OF assms(1,2) x] and ha = read_exact_reads [OF x]
  show ?thesis
  proof (cases "4 \<le> length input")
    case False
    with h assms(3,4) x show ?thesis
      by (auto simp: read_packet_into_def stream_end_def parse_frames.simps [of _ input])
  next
    case True
    then have xr: "x = Inr (take 4 input)"
      using h assms(4) by simp
    then have rest: "arriving (k_reads c1) = drop 4 input"
      using ha assms(4) append_take_drop_id [of 4 input]
      by (metis append_Nil same_append_eq)
    let ?n = "unat (from_be_bytes (take 4 input))"
    obtain y c2 where y: "read_exact clock deadline ?n [] c1 = (y, c2)"
      by (cases "read_exact clock deadline ?n [] c1")
    have "benign c1"
      using h by simp
    note b = read_exact_benign [OF assms(1) this y]
    show ?thesis
    proof (cases "?n = 0 \<or> MAX_PACKET < ?n")
      case bad: True
      then have "r = Inl Invalid_Data \<and> c' = c1"
        using assms(3) x xr by (auto simp: read_packet_into_def Let_def)
      with bad True h show ?thesis
        by (auto simp: stream_end_def parse_frames.simps [of _ input] Let_def)
    next
      case good: False
      then have r: "(r, c') = (case y of Inl e \<Rightarrow> (Inl e, c2) | Inr packet \<Rightarrow> (Inr (Some packet), c2))"
        using assms(3) x xr y by (auto simp: read_packet_into_def Let_def split: sum.splits)
      show ?thesis
      proof (cases "?n \<le> length (drop 4 input)")
        case fits: True
        with b r rest show ?thesis
          by simp
      next
        case False
        then have "r = Inl Unexpected_Eof \<and> c' = c2"
          using b r rest by simp
        with b False True good show ?thesis
          by (auto simp: stream_end_def parse_frames.simps [of _ input] Let_def)
      qed
    qed
  qed
qed

text \<open>The loop answers exactly as the transducer does on the packets of the bytes that arrive.\<close>

lemma handle_connection_until_exact:
  assumes "handle_connection_until ossl env deadline n s c = (r, c')"
    and "in_time (instant env) deadline" and "benign c"
    and "stream_session ossl env n s (arriving (k_reads c)) = (r0, out, log)" and "sendable out"
  shows "r = r0 \<and> k_sent c' = k_sent c @ concat (map frame out) \<and> k_log c' = k_log c @ log"
  using assms
proof (induction ossl env deadline n s c arbitrary: r c' r0 out log rule: handle_connection_until.induct)
  case (1 ossl env deadline n s c)
  obtain x c1 where x: "read_packet_into (instant env) deadline c = (x, c1)"
    by (cases "read_packet_into (instant env) deadline c")
  note rd = read_packet_into_reads [OF x]
    and bn = read_packet_into_benign [OF "1.prems"(2,3) x refl]
    and unfold = handle_connection_until.simps [of ossl env deadline n s c]
  show ?case
  proof (cases "\<exists>p. x = Inr (Some p)")
    case False
    with bn have st: "(case x of Inl e \<Rightarrow> Inl (Reading e) | Inr _ \<Rightarrow> Inr ()) = stream_end (arriving (k_reads c))"
      "parse_frames MAX_PACKET (arriving (k_reads c)) = ([], arriving (k_reads c))"
      by simp_all
    have "(r, c') = (case x of Inl e \<Rightarrow> (Inl (Reading e), c1) | Inr _ \<Rightarrow> (Inr (), c1))"
      using "1.prems"(1) x False unfold by (auto split: sum.splits option.splits)
    with st "1.prems"(4) rd show ?thesis
      by (auto simp: stream_session_def split: sum.splits)
  next
    case True
    then obtain p where p: "x = Inr (Some p)"
      by blast
    then obtain header where h: "length header = 4" "unat (from_be_bytes header) = length p" "p \<noteq> []"
      "length p \<le> MAX_PACKET" "arriving (k_reads c) = header @ p @ arriving (k_reads c1)"
      using rd by blast
    obtain y c2 where y: "handle_packet ossl (conn_writer (instant env) deadline) (active env n) (wall env n) p s c1 = (y, c2)"
      by (cases "handle_packet ossl (conn_writer (instant env) deadline) (active env n) (wall env n) p s c1")
    obtain z ps ls where z: "react ossl (active env n) (wall env n) p s = (z, ps, ls)"
      by (cases "react ossl (active env n) (wall env n) p s")
    note session = stream_session_packet [OF h(1-4), of ossl env n s "arriving (k_reads c1)"]
    have "\<exists>qs. out = ps @ qs"
      using "1.prems"(4) h(5) session z by (auto split: sum.splits option.splits prod.splits)
    then have "sendable ps"
      using "1.prems"(5) by (auto simp: sendable_def)
    moreover have "benign c1"
      using bn by simp
    ultimately have packet: "y = z" "k_sent c2 = k_sent c1 @ concat (map frame ps)"
      "k_log c2 = k_log c1 @ ls" "benign c2" "k_reads c2 = k_reads c1"
      using handle_packet_benign [OF "1.prems"(2) _ z _ y] by auto
    show ?thesis
    proof (cases "\<exists>s'. y = Inr (Some s')")
      case False
      then have "(r, c') = (case y of Inl e \<Rightarrow> (Inl e, c2) | Inr _ \<Rightarrow> (Inr (), c2))"
        using "1.prems"(1) x p y unfold by (auto split: sum.splits option.splits)
      with packet rd False "1.prems"(4) h(5) session z show ?thesis
        by (auto split: sum.splits option.splits)
    next
      case True
      then obtain s' where s': "y = Inr (Some s')"
        by blast
      then have rest: "handle_connection_until ossl env deadline (Suc n) s' c2 = (r, c')"
        using "1.prems"(1) x p y unfold by simp
      obtain r1 out1 log1 where o1: "stream_session ossl env (Suc n) s' (arriving (k_reads c2)) = (r1, out1, log1)"
        by (cases "stream_session ossl env (Suc n) s' (arriving (k_reads c2))")
      have "z = Inr (Some s')"
        using packet(1) s' by simp
      then have out': "r0 = r1" "out = ps @ out1" "log = ls @ log1"
        using "1.prems"(4) h(5) session z packet(5) o1 by simp_all
      then have "sendable out1"
        using "1.prems"(5) by (simp add: sendable_def)
      from "1.IH" [OF x [symmetric] p refl y [symmetric] s' refl rest "1.prems"(2) packet(4) o1 this]
      show ?thesis
        using packet rd out' by simp
    qed
  qed
qed

text \<open>After the deadline nothing is read and nothing is sent.\<close>

lemma handle_connection_until_expired:
  assumes "deadline \<le> instant env (k_ticks c)"
  shows "handle_connection_until ossl env deadline n s c =
    (Inl (Reading Timed_Out), c\<lparr>k_ticks := Suc (k_ticks c)\<rparr>)"
proof -
  have "dc_read (instant env) deadline 4 c = (Inl Timed_Out, c\<lparr>k_ticks := Suc (k_ticks c)\<rparr>)"
    using assms by (simp add: dc_read_def within_deadline_def remaining_def bind_act_def Let_def)
  then have "read_exact (instant env) deadline 4 [] c = (Inl Timed_Out, c\<lparr>k_ticks := Suc (k_ticks c)\<rparr>)"
    by (simp add: read_exact.simps [of _ _ 4])
  then show ?thesis
    by (simp add: handle_connection_until.simps [of ossl env deadline n s c] read_packet_into_def)
qed

section \<open>Properties\<close>

text \<open>A clock that stands still, and a socket that delivers two commands in pieces.\<close>

definition sample_environment :: "unit environment" where
  "sample_environment = \<lparr>instant = (\<lambda>_. 0), wall = (\<lambda>_. 7), active = (\<lambda>_. Some sample_config)\<rparr>"

definition sample_conn :: conn where
  "sample_conn =
     \<lparr>k_reads = [Arrives [NUL, NUL, NUL], Read_Fails Interrupted, Arrives [CHR 0x01, CHR ''H'', NUL],
        Arrives [NUL, NUL, CHR 0x01], Arrives ''Q''],
      k_writes = [Takes 2, Write_Fails Interrupted, Takes 1], k_sent = [], k_log = [], k_ticks = 0\<rparr>"

lemma sample_conn_session:
  "stream_session sample_openssl sample_environment 0 (session_start sample_openssl)
     (arriving (k_reads sample_conn)) = (Inr (), [''c''], [])"
proof -
  have "arriving (k_reads sample_conn) = frame ''H'' @ frame ''Q''"
    by code_simp
  moreover have "parse_frames MAX_PACKET (frame ''H'' @ frame ''Q'') = ([''H'', ''Q''], [])"
    using parse_frames_concat [of "[''H'', ''Q'']" MAX_PACKET] by (simp add: MAX_PACKET_def)
  ultimately show ?thesis
    by (simp add: stream_session_def react_def Let_def acknowledged_def continue_packets_def session_start_def)
qed

lemma sample_conn_benign: "benign sample_conn" "in_time (instant sample_environment) 1"
  by (simp_all add: benign_def sample_conn_def benign_read_def benign_write_def in_time_def sample_environment_def)

text \<open>C6: on a connection that fragments reads and writes in any way and interrupts them, but does
  not fail before the deadline, the handler returns, sends and logs exactly what the transducer
  does on the packets of the bytes that arrive: packet boundaries are those of the length
  prefixes, never those of the socket calls.\<close>

theorem connection_fragmentation_invisible:
  assumes "in_time (instant env) deadline" and "benign c"
    and "stream_session ossl env 0 (session_start ossl) (arriving (k_reads c)) = (r, out, log)"
    and "sendable out"
  shows "fst (handle_connection_until ossl env deadline 0 (session_start ossl) c) = r \<and>
    k_sent (snd (handle_connection_until ossl env deadline 0 (session_start ossl) c)) =
      k_sent c @ concat (map frame out) \<and>
    k_log (snd (handle_connection_until ossl env deadline 0 (session_start ossl) c)) = k_log c @ log"
  using handle_connection_until_exact [OF surjective_pairing assms] .

lemma connection_fragmentation_invisible_witness:
  "fst (handle_connection_until sample_openssl sample_environment 1 0 (session_start sample_openssl) sample_conn) = Inr () \<and>
   k_sent (snd (handle_connection_until sample_openssl sample_environment 1 0 (session_start sample_openssl) sample_conn)) =
     k_sent sample_conn @ concat (map frame [''c'']) \<and>
   k_log (snd (handle_connection_until sample_openssl sample_environment 1 0 (session_start sample_openssl) sample_conn)) =
     k_log sample_conn @ []"
  by (rule connection_fragmentation_invisible [OF sample_conn_benign(2,1) sample_conn_session])
    (simp add: sendable_def)

text \<open>C23: whatever the socket does, errors, truncation, rejected timeouts, an expired deadline, the
  bytes sent are a prefix of the answers to the packets that arrive: a broken connection can cut a
  response short, never change it.\<close>

theorem connection_sends_prefix:
  assumes "stream_session ossl env 0 (session_start ossl) (arriving (k_reads c)) = (r, out, log)"
    and "sendable out"
  shows "\<exists>p. prefix p (concat (map frame out)) \<and>
    k_sent (snd (handle_connection_until ossl env deadline 0 (session_start ossl) c)) = k_sent c @ p"
  using handle_connection_until_prefix [OF surjective_pairing assms] .

lemma connection_sends_prefix_witness:
  "\<exists>p. prefix p (concat (map frame [''c''])) \<and>
    k_sent (snd (handle_connection_until sample_openssl sample_environment 0 0 (session_start sample_openssl) sample_conn)) =
      k_sent sample_conn @ p"
  by (rule connection_sends_prefix [OF sample_conn_session]) (simp add: sendable_def)

end
