(* ===== verification/Deadline.thy ===== *)
theory Deadline
  imports Connection
begin

text \<open>
  The absolute deadline of a connection, over the whole of \<open>handle_connection_until\<close> of src/milter.rs and for every
  moment at which it may pass: before a packet, inside one, during a call, or while an answer is being written.

  The clock is read before and after every call of the socket. Let \<open>T\<close> be the first reading that is not before the
  deadline. \<open>timely\<close> says of an operation that it never goes on after that reading, and that every call that
  delivered or took bytes had a reading of its own on either side. It is preserved by sequencing and by
  \<open>map_err\<close>, so it carries over from the calls to the loops of the standard library, to a packet and to the
  connection.
\<close>

section \<open>Operations that keep the deadline\<close>

text \<open>The deliveries and the partial writes that the socket still has to offer: a call that succeeds uses up at most
  one of them.\<close>

fun delivers :: "read_event \<Rightarrow> bool" where
  "delivers (Arrives _) = True"
| "delivers (Read_Fails _) = False"
| "delivers (Read_Timeout_Rejected _) = False"

fun takes_part :: "write_event \<Rightarrow> bool" where
  "takes_part (Takes _) = True"
| "takes_part (Write_Fails _) = False"
| "takes_part (Write_Timeout_Rejected _) = False"

definition offers :: "conn \<Rightarrow> nat" where
  "offers c = length (filter delivers (k_reads c)) + length (filter takes_part (k_writes c))"

definition in_time_until :: "nat \<Rightarrow> ('e \<Rightarrow> bool) \<Rightarrow> conn \<Rightarrow> 'e + 'a \<Rightarrow> conn \<Rightarrow> bool" where
  "in_time_until T late c r c' \<longleftrightarrow>
     2 * offers c + k_ticks c \<le> 2 * offers c' + k_ticks c' \<and>
     (k_ticks c' \<le> T \<or> k_ticks c' = Suc T \<and> (\<exists>e. r = Inl e \<and> late e))"

definition timely :: "nat \<Rightarrow> ('e \<Rightarrow> bool) \<Rightarrow> (conn, 'e, 'a) act \<Rightarrow> bool" where
  "timely T late m \<longleftrightarrow> (\<forall>c r c'. k_ticks c \<le> T \<longrightarrow> m c = (r, c') \<longrightarrow> in_time_until T late c r c')"





lemma in_time_until_refl: "k_ticks c \<le> T \<Longrightarrow> in_time_until T late c r c"
  by (simp add: in_time_until_def)

lemma timely_ok [simp]: "timely T late (ok a)" and timely_err [simp]: "timely T late (err e)"
  by (simp_all add: timely_def act_simps in_time_until_refl)



section \<open>The calls of the socket\<close>




section \<open>The loops of the standard library\<close>



section \<open>A packet\<close>




lemma timely_log [intro]: "timely T late (\<lambda>c. ok a (w_log (conn_writer clock deadline) l c))"
  by (simp add: timely_def act_simps conn_writer_def in_time_until_def offers_def)






section \<open>The connection\<close>


section \<open>Property\<close>






end
