(* ===== verification/Protocol.thy ===== *)
theory Protocol
  imports Connection
begin

text \<open>
  What a milter session as a whole guarantees: runs of packets as a step relation, the
  invariant of every reachable session, and the life of one message from its start to its
  end.

  \<open>serves\<close> relates a session and the packets it handles to the packets sent, the lines
  logged and the session afterwards; packets are numbered, for the environment's answers.
\<close>

inductive serves ::
  "('h, 'k, 's) openssl \<Rightarrow> 'k environment \<Rightarrow> nat \<Rightarrow> ('h, 'k) session \<Rightarrow> bytes list \<Rightarrow> bytes list
    \<Rightarrow> message_error list \<Rightarrow> nat \<Rightarrow> ('h, 'k) session \<Rightarrow> bool"
  for ossl :: "('h, 'k, 's) openssl" and env :: "'k environment" where
  serves_Nil: "serves ossl env n s [] [] [] n s"
| serves_Cons: "react ossl (active env n) (wall env n) p s = (Inr (Some s1), o1, l1) \<Longrightarrow>
    serves ossl env (Suc n) s1 ps o2 l2 m s' \<Longrightarrow>
    serves ossl env n s (p # ps) (o1 @ o2) (l1 @ l2) m s'"

inductive_cases serves_NilE: "serves ossl env n s [] out log m s'"
inductive_cases serves_ConsE: "serves ossl env n s (p # ps) out log m s'"

inductive_simps serves_Nil_iff: "serves ossl env n s [] out log m s'"

lemma serves_append:
  "serves ossl env n s ps o1 l1 m s1 \<Longrightarrow> serves ossl env m s1 qs o2 l2 k s2 \<Longrightarrow>
     serves ossl env n s (ps @ qs) (o1 @ o2) (l1 @ l2) k s2"
  by (induction rule: serves.induct) (auto intro: serves_Cons)

lemma serves_single:
  "react ossl (active env n) (wall env n) p s = (Inr (Some s'), out, log) \<Longrightarrow>
     serves ossl env n s [p] out log (Suc n) s'"
  using serves_Cons [OF _ serves_Nil] by fastforce

lemma serves_number: "serves ossl env n s ps out log m s' \<Longrightarrow> m = n + length ps"
  by (induction rule: serves.induct) simp_all

text \<open>A run is a prefix of what \<open>run_session\<close> does.\<close>

lemma run_session_serves:
  "serves ossl env n s ps out log m s' \<Longrightarrow>
     run_session ossl env n s (ps @ qs) fin =
       (case run_session ossl env m s' qs fin of (r, out', log') \<Rightarrow> (r, out @ out', log @ log'))"
  by (induction rule: serves.induct) (simp_all split: prod.splits)

section \<open>One packet\<close>

text \<open>The transducer, one equation per command.\<close>

lemma react_simps:
  "react ossl a now [] s = (Inl Empty_Packet, [], [])"
  "react ossl a now (CHR ''O'' # payload) s =
     (if length payload \<noteq> 12 then (Inl Invalid_Negotiation, [], [])
      else (Inr (Some (snd (negotiate payload s))), [CHR ''O'' # fst (negotiate payload s)], []))"
  "react ossl (Some c) now (CHR ''M'' # payload) s =
     (Inr (Some (s\<lparr>s_state := ms_begin ossl c (s_state s)\<rparr>)), continue_packets (s_protocol s) CHR ''M'', [])"
  "react ossl None now (CHR ''M'' # payload) s = (Inl Lock_Poisoned, [], [])"
  "react ossl a now (CHR ''L'' # payload) s =
     (case start_if_needed ossl a (s_state s) of None \<Rightarrow> (Inl Lock_Poisoned, [], [])
      | Some st \<Rightarrow> (Inr (Some (s\<lparr>s_state := receive_header payload st\<rparr>)),
          continue_packets (s_protocol s) CHR ''L'', []))"
  "react ossl a now (CHR ''B'' # payload) s =
     (Inr (Some (s\<lparr>s_state := receive_body ossl payload (s_state s)\<rparr>)),
      continue_packets (s_protocol s) CHR ''B'', [])"
  "react ossl a now (CHR ''E'' # payload) s =
     (Inr (Some (s\<lparr>s_state := ms_default ossl\<rparr>)),
      end_packets (s_actions s) (outcome ossl now (s_actions s) (s_state s)),
      end_log (outcome ossl now (s_actions s) (s_state s)))"
  "react ossl a now (CHR ''A'' # payload) s = (Inr (Some (s\<lparr>s_state := ms_default ossl\<rparr>)), [], [])"
  "react ossl a now (CHR ''Q'' # payload) s = (Inr None, [], [])"
  "react ossl a now (CHR ''K'' # payload) s = (Inr None, [], [])"
  "react ossl a now (CHR ''D'' # payload) s = (Inr (Some s), [], [])"
  by (simp_all add: react_def Let_def)

lemma react_acknowledged:
  "acknowledged c \<Longrightarrow> react ossl a now (c # payload) s = (Inr (Some s), continue_packets (s_protocol s) c, [])"
  by (auto simp: react_def Let_def acknowledged_def)

lemma react_unsupported:
  "\<not> acknowledged c \<Longrightarrow> c \<notin> set ''OMLBEAQKD'' \<Longrightarrow>
     react ossl a now (c # payload) s = (Inl (Unsupported_Command c), [], [])"
  by (auto simp: react_def Let_def)

text \<open>The packets after which a session goes on, and its state then.\<close>

lemma react_continues:
  assumes "react ossl a now p s = (Inr (Some s'), out, log)"
  obtains
    (negotiation) payload where "p = CHR ''O'' # payload" and "length payload = 12"
      and "s' = snd (negotiate payload s)" and "out = [CHR ''O'' # fst (negotiate payload s)]" and "log = []"
  | (start) payload c where "p = CHR ''M'' # payload" and "a = Some c"
      and "s' = s\<lparr>s_state := ms_begin ossl c (s_state s)\<rparr>"
      and "out = continue_packets (s_protocol s) CHR ''M''" and "log = []"
  | (header) payload st where "p = CHR ''L'' # payload" and "start_if_needed ossl a (s_state s) = Some st"
      and "s' = s\<lparr>s_state := receive_header payload st\<rparr>"
      and "out = continue_packets (s_protocol s) CHR ''L''" and "log = []"
  | (body) payload where "p = CHR ''B'' # payload"
      and "s' = s\<lparr>s_state := receive_body ossl payload (s_state s)\<rparr>"
      and "out = continue_packets (s_protocol s) CHR ''B''" and "log = []"
  | (eom) payload where "p = CHR ''E'' # payload" and "s' = s\<lparr>s_state := ms_default ossl\<rparr>"
      and "out = end_packets (s_actions s) (outcome ossl now (s_actions s) (s_state s))"
      and "log = end_log (outcome ossl now (s_actions s) (s_state s))"
  | (abort) payload where "p = CHR ''A'' # payload" and "s' = s\<lparr>s_state := ms_default ossl\<rparr>"
      and "out = []" and "log = []"
  | (macro) payload where "p = CHR ''D'' # payload" and "s' = s" and "out = []" and "log = []"
  | (ack) c payload where "p = c # payload" and "acknowledged c" and "s' = s"
      and "out = continue_packets (s_protocol s) c" and "log = []"
proof (cases p)
  case Nil
  with assms show ?thesis
    by (simp add: react_simps)
next
  case (Cons c payload)
  consider "c = CHR ''O''" | "c = CHR ''M''" | "c = CHR ''L''" | "c = CHR ''B''" | "c = CHR ''E''"
    | "c = CHR ''A''" | "c = CHR ''Q''" | "c = CHR ''K''" | "c = CHR ''D''" | "acknowledged c"
    | "\<not> acknowledged c" "c \<notin> set ''OMLBEAQKD''"
    by (auto simp: acknowledged_def)
  then show ?thesis
  proof cases
    case 1
    with assms Cons negotiation show ?thesis
      by (auto simp: react_simps split: if_splits)
  next
    case 2
    with assms Cons start show ?thesis
      by (cases a) (auto simp: react_simps)
  next
    case 3
    with assms Cons header show ?thesis
      by (auto simp: react_simps split: option.splits)
  next
    case 4
    with assms Cons body show ?thesis
      by (auto simp: react_simps)
  next
    case 5
    with assms Cons eom show ?thesis
      by (auto simp: react_simps)
  next
    case 6
    with assms Cons abort show ?thesis
      by (auto simp: react_simps)
  next
    case 7
    with assms Cons show ?thesis
      by (simp add: react_simps)
  next
    case 8
    with assms Cons show ?thesis
      by (simp add: react_simps)
  next
    case 9
    with assms Cons macro show ?thesis
      by (auto simp: react_simps)
  next
    case 10
    with assms Cons ack show ?thesis
      by (auto simp: react_acknowledged)
  next
    case 11
    with assms Cons show ?thesis
      by (simp add: react_unsupported)
  qed
qed

section \<open>The invariant of a session\<close>

definition session_inv :: "('h, 'k) session \<Rightarrow> bool" where
  "session_inv s \<longleftrightarrow>
     message_inv (s_state s) \<and>
     s_actions s AND (ACTION_ADD_HEADER OR ACTION_CHANGE_HEADER) = s_actions s \<and>
     s_protocol s AND SUPPORTED_NO_REPLY = s_protocol s"

lemma session_inv_start: "session_inv (session_start ossl)"
  by (simp add: session_inv_def session_start_def)

lemma negotiate_flags:
  "s_actions (snd (negotiate payload s)) AND (ACTION_ADD_HEADER OR ACTION_CHANGE_HEADER) =
     s_actions (snd (negotiate payload s))"
  "s_protocol (snd (negotiate payload s)) AND SUPPORTED_NO_REPLY = s_protocol (snd (negotiate payload s))"
  "s_state (snd (negotiate payload s)) = s_state s"
  by (simp_all add: negotiate_def Let_def and.assoc)

lemma start_if_needed_inv:
  "start_if_needed ossl a st = Some st' \<Longrightarrow> message_inv st \<Longrightarrow> message_inv st'"
  by (auto simp: start_if_needed_def split: if_splits)

lemma react_inv:
  assumes "react ossl a now p s = (Inr (Some s'), out, log)" and "session_inv s"
  shows "session_inv s'"
  using assms(1)
proof (cases rule: react_continues)
  case (header payload st)
  with assms(2) show ?thesis
    by (auto simp: session_inv_def dest: start_if_needed_inv intro: message_inv_receive_header)
qed (use assms(2) in \<open>auto simp: session_inv_def negotiate_flags\<close>)

lemma serves_inv: "serves ossl env n s ps out log m s' \<Longrightarrow> session_inv s \<Longrightarrow> session_inv s'"
  by (induction rule: serves.induct) (auto dest: react_inv)

section \<open>One acceptance per message\<close>

definition starts_with_command :: "byte set \<Rightarrow> bytes \<Rightarrow> bool" where
  "starts_with_command cs p \<longleftrightarrow> p \<noteq> [] \<and> hd p \<in> cs"

definition count :: "byte set \<Rightarrow> bytes list \<Rightarrow> nat" where
  "count cs ps = length (filter (starts_with_command cs) ps)"

lemma count_append [simp]: "count cs (ps @ qs) = count cs ps + count cs qs"
  by (simp add: count_def)

lemma count_simps [simp]: "count cs [] = 0"
  "count cs ((c # p) # ps) = (if c \<in> cs then Suc (count cs ps) else count cs ps)"
  by (simp_all add: count_def starts_with_command_def)





section \<open>The configuration of a message\<close>

definition inside_message :: "bytes \<Rightarrow> bool" where
  "inside_message p \<longleftrightarrow> \<not> starts_with_command {CHR ''M'', CHR ''E'', CHR ''A''} p"

lemma start_if_needed_config:
  "ms_config st = Some c \<Longrightarrow> start_if_needed ossl a st = Some st"
  by (simp add: start_if_needed_def)

lemma receive_body_config [simp]: "ms_config (receive_body ossl payload st) = ms_config st"
  by (simp add: receive_body_def)

lemma react_config:
  assumes "react ossl a now p s = (Inr (Some s'), out, log)" and "inside_message p"
    and "ms_config (s_state s) = Some c"
  shows "ms_config (s_state s') = Some c"
  using assms(1)
  by (cases rule: react_continues)
    (use assms(2,3) start_if_needed_config [OF assms(3), where ossl = ossl and a = a] in
      \<open>auto simp: inside_message_def starts_with_command_def negotiate_flags\<close>)

text \<open>A reload between two packets of a message does not reach it.\<close>

lemma serves_config:
  "serves ossl env n s ps out log m s' \<Longrightarrow> list_all inside_message ps \<Longrightarrow>
     ms_config (s_state s) = Some c \<Longrightarrow> ms_config (s_state s') = Some c"
  by (induction rule: serves.induct) (auto dest: react_config)

text \<open>A message start leaves nothing of what came before, the negotiated flags aside.\<close>

lemma react_start_forgets:
  assumes "react ossl a now (CHR ''M'' # payload) s = (Inr (Some s'), out, log)"
    and "s_actions t = s_actions s" and "s_protocol t = s_protocol s"
  shows "react ossl a now (CHR ''M'' # payload) t = (Inr (Some s'), out, log)"
  using assms by (cases a) (auto simp: react_simps ms_begin_def)

lemma serves_start_forgets:
  assumes "serves ossl env n s ((CHR ''M'' # payload) # ps) out log m s'"
    and "s_actions t = s_actions s" and "s_protocol t = s_protocol s"
  shows "serves ossl env n t ((CHR ''M'' # payload) # ps) out log m s'"
  using assms(1)
  by (elim serves_ConsE) (auto intro: serves_Cons dest: react_start_forgets [OF _ assms(2,3)])

section \<open>A message from start to end\<close>

lemma serves_headers:
  assumes "ms_config (s_state s) = Some c" and "ms_error (s_state s) = None"
    and "message_inv (s_state s)" and "list_all header_ok hs"
    and "length (ms_headers (s_state s)) + length hs \<le> MAX_HEADERS"
    and "ms_header_bytes (s_state s) + sum_list (map header_size hs) \<le> MAX_HEADER_BYTES"
  shows "serves ossl env n s (map (\<lambda>h. CHR ''L'' # header_payload h) hs)
    (concat (replicate (length hs) (continue_packets (s_protocol s) CHR ''L''))) [] (n + length hs)
    (s\<lparr>s_state := (s_state s)\<lparr>ms_header_bytes := ms_header_bytes (s_state s) + sum_list (map header_size hs),
       ms_headers := ms_headers (s_state s) @ hs\<rparr>\<rparr>)"
  using assms
proof (induction hs arbitrary: n s)
  case Nil
  then show ?case
    by (simp add: serves_Nil)
next
  case (Cons h hs)
  let ?st = "(s_state s)\<lparr>ms_header_bytes := ms_header_bytes (s_state s) + header_size h,
    ms_headers := ms_headers (s_state s) @ [h]\<rparr>"
  have "storable (s_state s) h"
    using Cons.prems by (simp add: storable_def)
  then have st: "receive_header (header_payload h) (s_state s) = ?st"
    using Cons.prems(2) by (rule receive_header_stores [rotated])
  then have "message_inv ?st"
    using message_inv_receive_header [OF Cons.prems(3)] by metis
  then have "serves ossl env (Suc n) (s\<lparr>s_state := ?st\<rparr>) (map (\<lambda>h. CHR ''L'' # header_payload h) hs)
      (concat (replicate (length hs) (continue_packets (s_protocol s) CHR ''L''))) [] (Suc n + length hs)
      (s\<lparr>s_state := (s_state s)\<lparr>ms_header_bytes := ms_header_bytes (s_state s) + header_size h +
         sum_list (map header_size hs), ms_headers := ms_headers (s_state s) @ h # hs\<rparr>\<rparr>)"
    using Cons.IH [of "s\<lparr>s_state := ?st\<rparr>" "Suc n"] Cons.prems by simp
  moreover have "react ossl (active env n) (wall env n) (CHR ''L'' # header_payload h) s =
      (Inr (Some (s\<lparr>s_state := ?st\<rparr>)), continue_packets (s_protocol s) CHR ''L'', [])"
    using start_if_needed_config [OF Cons.prems(1), where ossl = ossl and a = "active env n"] st by (simp add: react_simps)
  ultimately show ?case
    using serves_Cons by (fastforce simp: add.assoc)
qed

lemma serves_chunks:
  assumes "ms_config (s_state s) = Some c" and "ms_error (s_state s) = None"
  shows "serves ossl env n s (map (\<lambda>b. CHR ''B'' # b) chunks)
    (concat (replicate (length chunks) (continue_packets (s_protocol s) CHR ''B''))) [] (n + length chunks)
    (s\<lparr>s_state := (s_state s)\<lparr>ms_body := foldl (body_update ossl) (ms_body (s_state s)) chunks\<rparr>\<rparr>)"
  using assms
proof (induction chunks arbitrary: n s)
  case Nil
  then show ?case
    by (simp add: serves_Nil)
next
  case (Cons b chunks)
  let ?st = "(s_state s)\<lparr>ms_body := body_update ossl (ms_body (s_state s)) b\<rparr>"
  have "react ossl (active env n) (wall env n) (CHR ''B'' # b) s =
      (Inr (Some (s\<lparr>s_state := ?st\<rparr>)), continue_packets (s_protocol s) CHR ''B'', [])"
    using Cons.prems by (simp add: react_simps receive_body_def)
  with Cons.IH [of "s\<lparr>s_state := ?st\<rparr>" "Suc n"] Cons.prems show ?case
    using serves_Cons by fastforce
qed

text \<open>The packets of a message: its start, its header fields, the end of the header, the body in
  any pieces, the end of the message.\<close>

definition message_packets :: "bytes \<Rightarrow> header list \<Rightarrow> bytes list \<Rightarrow> bytes list" where
  "message_packets sender hs chunks =
     (CHR ''M'' # sender) # map (\<lambda>h. CHR ''L'' # header_payload h) hs @ [''N''] @
     map (\<lambda>b. CHR ''B'' # b) chunks @ [''E'']"

definition within_limits :: "header list \<Rightarrow> bool" where
  "within_limits hs \<longleftrightarrow>
     list_all header_ok hs \<and> length hs \<le> MAX_HEADERS \<and> sum_list (map header_size hs) \<le> MAX_HEADER_BYTES"

definition message_length :: "header list \<Rightarrow> bytes list \<Rightarrow> nat" where
  "message_length hs chunks = 3 + length hs + length chunks"

definition permitted :: "u32 \<Rightarrow> bool" where
  "permitted actions \<longleftrightarrow> actions AND (ACTION_ADD_HEADER OR ACTION_CHANGE_HEADER) \<noteq> 0"

definition message_result ::
  "('h, 'k, 's) openssl \<Rightarrow> int \<Rightarrow> u32 \<Rightarrow> 'k runtime_config \<Rightarrow> header list \<Rightarrow> bytes list \<Rightarrow> message_error + bytes" where
  "message_result ossl now actions c hs chunks =
     (if permitted actions
      then map_sum Not_Signed id
        (sign ossl now c hs (body_finish ossl (foldl (body_update ossl) (body_default ossl) chunks)))
      else Inl No_Permission)"

text \<open>Whatever the session did before, the message is answered by acknowledgements and then, at
  its end, by the signature over its header fields and body, if there is one, and one
  acceptance.\<close>

lemma serves_message:
  assumes "within_limits hs" and "active env n = Some c"
  shows "\<exists>acks. set acks \<subseteq> {''c''} \<and>
    (let r = message_result ossl (wall env (n + message_length hs chunks - 1)) (s_actions s) c hs chunks
     in serves ossl env n s (message_packets sender hs chunks) (acks @ end_packets (s_actions s) r)
          (end_log r) (n + message_length hs chunks) (s\<lparr>s_state := ms_default ossl\<rparr>))"
proof -
  let ?s1 = "s\<lparr>s_state := ms_begin ossl c (s_state s)\<rparr>"
  let ?st2 = "(ms_begin ossl c (s_state s))\<lparr>ms_header_bytes := sum_list (map header_size hs), ms_headers := hs\<rparr>"
  let ?s2 = "s\<lparr>s_state := ?st2\<rparr>"
  let ?st3 = "?st2\<lparr>ms_body := foldl (body_update ossl) (body_default ossl) chunks\<rparr>"
  let ?s3 = "s\<lparr>s_state := ?st3\<rparr>"
  let ?acks = "\<lambda>k command. concat (replicate k (continue_packets (s_protocol s) command))"
  have b: "ms_config (ms_begin ossl c (s_state s)) = Some c" "ms_error (ms_begin ossl c (s_state s)) = None"
    "ms_headers (ms_begin ossl c (s_state s)) = []" "ms_header_bytes (ms_begin ossl c (s_state s)) = 0"
    "ms_body (ms_begin ossl c (s_state s)) = body_default ossl"
    by (simp_all add: ms_begin_def ms_default_def)
  have 1: "react ossl (active env n) (wall env n) (CHR ''M'' # sender) s =
      (Inr (Some ?s1), continue_packets (s_protocol s) CHR ''M'', [])"
    using assms(2) by (simp add: react_simps)
  have 2: "serves ossl env (Suc n) ?s1 (map (\<lambda>h. CHR ''L'' # header_payload h) hs) (?acks (length hs) CHR ''L'') []
      (Suc n + length hs) ?s2"
    using serves_headers [of ?s1 c hs ossl env "Suc n"] assms(1) b by (simp add: within_limits_def)
  have 3: "serves ossl env (Suc n + length hs) ?s2 [''N''] (continue_packets (s_protocol s) CHR ''N'') []
      (Suc (Suc n + length hs)) ?s2"
    using react_acknowledged [of "CHR ''N''" ossl "active env (Suc n + length hs)" "wall env (Suc n + length hs)" "[]" ?s2]
    by (intro serves_single) (simp add: acknowledged_def)
  have 4: "serves ossl env (Suc (Suc n + length hs)) ?s2 (map (\<lambda>b. CHR ''B'' # b) chunks) (?acks (length chunks) CHR ''B'') []
      (Suc (Suc n + length hs) + length chunks) ?s3"
    using serves_chunks [of ?s2 c ossl env "Suc (Suc n + length hs)" chunks] b by simp
  let ?k = "Suc (Suc n + length hs) + length chunks"
  have out: "outcome ossl (wall env ?k) (s_actions s) ?st3 = message_result ossl (wall env ?k) (s_actions s) c hs chunks"
    using b by (simp add: outcome_def message_result_def permitted_def)
  have 5: "serves ossl env ?k ?s3 [''E''] (end_packets (s_actions s) (message_result ossl (wall env ?k) (s_actions s) c hs chunks))
      (end_log (message_result ossl (wall env ?k) (s_actions s) c hs chunks)) (Suc ?k) (s\<lparr>s_state := ms_default ossl\<rparr>)"
    unfolding out [symmetric] by (intro serves_single) (simp add: react_simps)
  note all = serves_Cons [OF 1 serves_append [OF 2 serves_append [OF 3 serves_append [OF 4 5]]]]
  let ?pre = "continue_packets (s_protocol s) CHR ''M'' @ ?acks (length hs) CHR ''L'' @
    continue_packets (s_protocol s) CHR ''N'' @ ?acks (length chunks) CHR ''B''"
  have "set ?pre \<subseteq> {''c''}"
    by (auto simp: continue_packets_def split: if_splits)
  moreover have "?k = n + message_length hs chunks - 1" "Suc ?k = n + message_length hs chunks"
    by (simp_all add: message_length_def)
  ultimately show ?thesis
    using all by (intro exI [of _ ?pre]) (simp add: Let_def message_packets_def)
qed

text \<open>Packets of a message: what they do depends neither on the active configuration nor on anything that is
  logged.\<close>

lemma react_other_active:
  assumes "react ossl a now p s = (Inr (Some s'), out, log)" and "inside_message p"
    and "ms_config (s_state s) = Some c"
  shows "react ossl a' now p s = (Inr (Some s'), out, log)"
  using assms(1)
  by (cases rule: react_continues)
    (use assms(2) start_if_needed_config [OF assms(3), where ossl = ossl] in
      \<open>auto simp: inside_message_def starts_with_command_def react_simps react_acknowledged\<close>)

lemma serves_other_active:
  "serves ossl env n s ps out log m s' \<Longrightarrow> list_all inside_message ps \<Longrightarrow> ms_config (s_state s) = Some c \<Longrightarrow>
     wall env' = wall env \<Longrightarrow> serves ossl env' n s ps out log m s'"
proof (induction rule: serves.induct)
  case (serves_Cons n p s s1 o1 l1 ps o2 l2 m s')
  then show ?case
    using react_other_active [OF serves_Cons.hyps(1)] react_config [OF serves_Cons.hyps(1)]
    by (intro serves.serves_Cons) simp_all
qed (rule serves_Nil)

lemma react_inside_log:
  "react ossl a now p s = (Inr (Some s'), out, log) \<Longrightarrow> inside_message p \<Longrightarrow> log = []"
  by (erule react_continues) (auto simp: inside_message_def starts_with_command_def)

lemma serves_inside_log: "serves ossl env n s ps out log m s' \<Longrightarrow> list_all inside_message ps \<Longrightarrow> log = []"
  by (induction rule: serves.induct) (auto dest: react_inside_log)

lemma serves_appendE:
  assumes "serves ossl env n s (ps @ qs) out log m s'"
  obtains o1 l1 k s1 o2 l2 where "serves ossl env n s ps o1 l1 k s1" and "serves ossl env k s1 qs o2 l2 m s'"
    and "out = o1 @ o2" and "log = l1 @ l2"
  using assms
proof (induction ps arbitrary: n s out log thesis)
  case Nil
  show ?case
    using Nil(1) [OF serves_Nil] Nil(2) by simp
next
  case (Cons p ps)
  from Cons.prems(2) obtain s1 o1 l1 o2 l2 where
    1: "react ossl (active env n) (wall env n) p s = (Inr (Some s1), o1, l1)"
    and 2: "serves ossl env (Suc n) s1 (ps @ qs) o2 l2 m s'" and eq: "out = o1 @ o2" "log = l1 @ l2"
    by (auto elim: serves_ConsE)
  obtain o3 l3 k s2 o4 l4 where "serves ossl env (Suc n) s1 ps o3 l3 k s2" "serves ossl env k s2 qs o4 l4 m s'"
    "o2 = o3 @ o4" "l2 = l3 @ l4"
    by (rule Cons.IH [OF _ 2])
  with eq show ?case
    using Cons.prems(1) [OF serves_Cons [OF 1, of ps o3 l3 k s2]] by simp
qed

section \<open>A message over a connection\<close>

text \<open>A session that negotiates, hands over one message and closes.\<close>

definition negotiation_ok :: "bytes \<Rightarrow> bool" where
  "negotiation_ok payload \<longleftrightarrow>
     length payload = 12 \<and> permitted (from_be_bytes (take 4 (drop 4 payload)))"

lemma negotiate_permitted:
  "permitted (s_actions (snd (negotiate payload s))) \<longleftrightarrow> permitted (from_be_bytes (take 4 (drop 4 payload)))"
  by (simp add: negotiate_def permitted_def Let_def and.assoc)

definition packet_ok :: "bytes \<Rightarrow> bool" where
  "packet_ok p \<longleftrightarrow> p \<noteq> [] \<and> length p \<le> MAX_PACKET"

lemma parse_packets:
  "list_all packet_ok ps \<Longrightarrow> parse_frames MAX_PACKET (concat (map frame ps)) = (ps, [])"
  by (rule parse_frames_concat) (auto simp: packet_ok_def list_all_iff MAX_PACKET_def)

lemma stream_session_serves:
  assumes "serves ossl env n s ps out log m s'" and "list_all packet_ok ps"
  shows "stream_session ossl env n s (concat (map frame ps)) = (Inr (), out, log)"
  using run_session_serves [OF assms(1), of "[]" "stream_end []"]
  by (simp add: stream_session_def parse_packets [OF assms(2)] stream_end_def)

lemma sendable_message:
  assumes "set acks \<subseteq> {''c''}" and "\<And>v. r = Inr v \<Longrightarrow> length v + 24 < 2 ^ 32"
  shows "sendable (acks @ end_packets actions r)"
  using assms
  by (auto simp: sendable_def end_packets_def signature_packet_def split: sum.splits)

text \<open>The connection carries negotiation and message, in any fragmentation: it answers the
  negotiation, acknowledges, and at the end sends the message's result.\<close>

lemma connection_message:
  assumes "handle_connection_until ossl env deadline 0 (session_start ossl) c = (res, c')"
    and "in_time (instant env) deadline" and "benign c"
    and "arriving (k_reads c) = concat (map frame ((CHR ''O'' # offer) # message_packets sender hs chunks))"
    and "list_all packet_ok ((CHR ''O'' # offer) # message_packets sender hs chunks)"
    and "length offer = 12" and "within_limits hs" and "active env 1 = Some config"
    and "r = message_result ossl (wall env (message_length hs chunks))
      (s_actions (snd (negotiate offer (session_start ossl)))) config hs chunks"
    and "\<And>v. r = Inr v \<Longrightarrow> length v + 24 < 2 ^ 32"
  shows "\<exists>acks. set acks \<subseteq> {''c''} \<and> res = Inr () \<and> k_log c' = k_log c @ end_log r \<and>
    k_sent c' = k_sent c @ concat (map frame ((CHR ''O'' # fst (negotiate offer (session_start ossl))) # acks @
      end_packets (s_actions (snd (negotiate offer (session_start ossl)))) r))"
proof -
  let ?s0 = "session_start ossl"
  let ?s1 = "snd (negotiate offer ?s0)"
  have 1: "react ossl (active env 0) (wall env 0) (CHR ''O'' # offer) ?s0 =
      (Inr (Some ?s1), [CHR ''O'' # fst (negotiate offer ?s0)], [])"
    using assms(6) by (simp add: react_simps)
  obtain acks where acks: "set acks \<subseteq> {''c''}"
    "serves ossl env (Suc 0) ?s1 (message_packets sender hs chunks) (acks @ end_packets (s_actions ?s1) r)
      (end_log r) (1 + message_length hs chunks) (?s1\<lparr>s_state := ms_default ossl\<rparr>)"
    using serves_message [OF assms(7,8), where ossl = ossl and s = ?s1 and sender = sender and chunks = chunks] assms(9)
    by (auto simp: Let_def)
  let ?out = "(CHR ''O'' # fst (negotiate offer ?s0)) # acks @ end_packets (s_actions ?s1) r"
  have "stream_session ossl env 0 ?s0 (arriving (k_reads c)) = (Inr (), ?out, end_log r)"
    using stream_session_serves [OF serves_Cons [OF 1 acks(2)] assms(5)] assms(4) by simp
  moreover have "length (fst (negotiate offer ?s0)) = 12"
    by (simp add: negotiate_def Let_def)
  then have "sendable ?out"
    using sendable_message [OF acks(1) assms(10), where actions = "s_actions ?s1"] by (simp add: sendable_def)
  ultimately show ?thesis
    using handle_connection_until_exact [OF assms(1-3)] acks(1) by blast
qed

text \<open>What was sent as signature is what a receiver accepts.\<close>

lemma message_result_accepted:
  assumes "stream_consumer (sha_update ossl)" and "dkim_signing ossl" and "config_ok ossl config"
    and "length (concat chunks) < usize_max"
    and "signatures_verify ossl (cfg_key config) verify"
    and "message_result ossl now actions config hs chunks = Inr v"
  shows "receiver_accepts verify v (signature_header v # hs)
    (encode_block ossl (sha_finish ossl (sha_update ossl (sha_new ossl) (relaxed_body (concat chunks)))))"
proof -
  have "sign ossl now config hs (body_finish ossl (foldl (body_update ossl) (body_default ossl) chunks)) = Inr v"
    using assms(6) by (auto simp: message_result_def split: if_splits)
  then have "sign ossl now config hs
      (sha_finish ossl (sha_update ossl (sha_new ossl) (relaxed_body (concat chunks)))) = Inr v"
    using body_hashing.body_finish_chunks [OF body_hashing.intro [OF assms(1)] assms(4)] by simp
  then show ?thesis
    using dkim_signing.sign_accepted [OF assms(2) _ assms(3,5)] by blast
qed

lemma message_result_domain:
  assumes "dkim_signing ossl" and "config_ok ossl config"
    and "message_result ossl now actions config hs chunks = Inr v"
  shows "map_of (tags v) ''d'' = Some (cfg_domain config)"
proof -
  have "sign ossl now config hs (body_finish ossl (foldl (body_update ossl) (body_default ossl) chunks)) = Inr v"
    using assms(3) by (auto simp: message_result_def split: if_splits)
  from dkim_signing.signed_bytes [OF assms(1) this assms(2)] show ?thesis
    by (metis signed_tags_domain)
qed

section \<open>Properties\<close>

definition sample_message :: "bytes list" where
  "sample_message = message_packets ''<a@ex.org>'' sample_headers [''hi'' @ CRLF]"

lemma sample_within_limits: "within_limits sample_headers"
  by (simp add: within_limits_def sample_headers_def header_ok_def header_name_byte_def byte_simps
      header_size_def MAX_HEADERS_def MAX_HEADER_BYTES_def)

lemma sample_active: "active sample_environment n = Some sample_config"
  by (simp add: sample_environment_def)

lemma sample_serves:
  "\<exists>out log m s'. serves sample_openssl sample_environment 0 (session_start sample_openssl) sample_message out log m s' \<and>
     s_state s' = ms_default sample_openssl"
  using serves_message [OF sample_within_limits sample_active, where n = 0 and ossl = sample_openssl
      and s = "session_start sample_openssl" and sender = "''<a@ex.org>''" and chunks = "[''hi'' @ CRLF]"]
  unfolding sample_message_def Let_def by fastforce

text \<open>C15: in every reachable session, a message never holds more than 1000 header fields or 1 MiB
  of them, all valid and free of NUL, the byte count is exact while there is no error, and the
  negotiated flags are among those the program supports.\<close>

theorem session_invariant:
  assumes "serves ossl env 0 (session_start ossl) ps out log m s"
  shows "session_inv s"
  using serves_inv [OF assms session_inv_start] .

lemma session_invariant_witness:
  "\<exists>out log m s. serves sample_openssl sample_environment 0 (session_start sample_openssl) sample_message out log m s \<and>
     session_inv s"
  using sample_serves session_invariant by metis



lemma react_error:
  assumes "react ossl a now p s = (Inr (Some s'), out, log)" and "inside_message p"
    and "ms_config (s_state s) = Some c" and "ms_error (s_state s) = Some e"
  shows "ms_error (s_state s') = Some e"
  using assms(1)
  by (cases rule: react_continues)
    (use assms(2-4) start_if_needed_config [OF assms(3), where ossl = ossl and a = a] in
      \<open>auto simp: inside_message_def starts_with_command_def negotiate_flags receive_header_error receive_body_def\<close>)

lemma serves_error:
  "serves ossl env n s ps out log m s' \<Longrightarrow> list_all inside_message ps \<Longrightarrow>
     ms_config (s_state s) = Some c \<Longrightarrow> ms_error (s_state s) = Some e \<Longrightarrow> ms_error (s_state s') = Some e"
  by (induction rule: serves.induct) (auto dest: react_config react_error)

text \<open>C27: a message in error stays in error whatever header and body packets follow, with its first
  error, and its end is answered by the bare acceptance: no signature is made.\<close>

theorem failed_message_unsigned:
  assumes "serves ossl env n s ps out log m s'" and "list_all inside_message ps"
    and "ms_config (s_state s) = Some c" and "ms_error (s_state s) = Some e"
  shows "react ossl a now (CHR ''E'' # payload) s' = (Inr (Some (s'\<lparr>s_state := ms_default ossl\<rparr>)), [''a''], [e])"
  using serves_error [OF assms] by (simp add: react_simps outcome_def end_packets_def end_log_def)

definition sample_failed :: "(bytes, unit) session" where
  "sample_failed = (session_start sample_openssl)\<lparr>s_state :=
     ms_fail Invalid_Header (ms_begin sample_openssl sample_config (ms_default sample_openssl))\<rparr>"

lemma failed_message_unsigned_witness:
  "react sample_openssl None 0 (CHR ''E'' # []) sample_failed =
     (Inr (Some (sample_failed\<lparr>s_state := ms_default sample_openssl\<rparr>)), [''a''], [Invalid_Header])"
proof (rule failed_message_unsigned)
  show "serves sample_openssl sample_environment 0 sample_failed [''N''] (continue_packets 0 CHR ''N'') [] 1 sample_failed"
    using serves_single [of sample_openssl sample_environment 0 "''N''" sample_failed]
      react_acknowledged [of "CHR ''N''" sample_openssl _ _ "[]" sample_failed]
    by (simp add: acknowledged_def sample_failed_def session_start_def)
qed (simp_all add: inside_message_def starts_with_command_def sample_failed_def ms_begin_def ms_default_def)

lemma sample_start:
  "serves sample_openssl sample_environment 0 s [CHR ''M'' # x] (continue_packets (s_protocol s) CHR ''M'') [] 1
     (s\<lparr>s_state := ms_begin sample_openssl sample_config (s_state s)\<rparr>)"
  using serves_single [of sample_openssl sample_environment 0 "CHR ''M'' # x" s] sample_active
  by (simp add: react_simps)

text \<open>C28: a message is signed with the configuration that was active when it started. Whatever packets of the
  message come between its start and its end, the end is answered by what signing with that configuration yields
  for the header fields and the body of these packets, or by the error of the message; and
  the whole exchange, answers and log, is the same however the active configuration changes after the
  start.\<close>

theorem message_configuration_fixed:
  assumes "serves ossl env n s ((CHR ''M'' # sender) # ps @ [CHR ''E'' # payload]) out log m s'"
    and "list_all inside_message ps" and "active env n = Some c"
  shows "(\<exists>acks t r. serves ossl env (Suc n) (s\<lparr>s_state := ms_begin ossl c (s_state s)\<rparr>) ps acks [] (n + length ps + 1) t \<and>
      out = continue_packets (s_protocol s) CHR ''M'' @ acks @ end_packets (s_actions t) r \<and> log = end_log r \<and>
      r = (case ms_error (s_state t) of Some e \<Rightarrow> Inl e
        | None \<Rightarrow> if \<not> permitted (s_actions t) then Inl No_Permission
            else map_sum Not_Signed id (sign ossl (wall env (n + length ps + 1)) c (ms_headers (s_state t))
              (body_finish ossl (ms_body (s_state t)))))) \<and>
    (\<forall>env'. active env' n = Some c \<and> wall env' = wall env \<longrightarrow>
      serves ossl env' n s ((CHR ''M'' # sender) # ps @ [CHR ''E'' # payload]) out log m s')"
proof -
  let ?s1 = "s\<lparr>s_state := ms_begin ossl c (s_state s)\<rparr>" and ?k = "n + length ps + 1"
  have start: "react ossl (Some c) now (CHR ''M'' # sender) s = (Inr (Some ?s1), continue_packets (s_protocol s) CHR ''M'', [])"
    for now
    by (simp add: react_simps)
  obtain out1 log1 t out2 log2 where
    run: "serves ossl env (Suc n) ?s1 ps out1 log1 ?k t" "serves ossl env ?k t [CHR ''E'' # payload] out2 log2 m s'"
    and out: "out = continue_packets (s_protocol s) CHR ''M'' @ out1 @ out2" "log = log1 @ log2"
  proof -
    obtain o2 l2 where "serves ossl env (Suc n) ?s1 (ps @ [CHR ''E'' # payload]) o2 l2 m s'"
      "out = continue_packets (s_protocol s) CHR ''M'' @ o2" "log = l2"
      using assms(1) start [of "wall env n"] assms(3) by (auto elim: serves_ConsE)
    then show ?thesis
      using that serves_number by (elim serves_appendE) fastforce
  qed
  have s1: "ms_config (s_state ?s1) = Some c"
    by (simp add: ms_begin_def)
  note t = serves_config [OF run(1) assms(2) s1]
  define r where "r = outcome ossl (wall env ?k) (s_actions t) (s_state t)"
  have ended: "out2 = end_packets (s_actions t) r" "log2 = end_log r" "m = Suc ?k"
    "s' = t\<lparr>s_state := ms_default ossl\<rparr>"
    using run(2) by (auto elim!: serves_ConsE serves_NilE simp: react_simps r_def)
  have "serves ossl env' n s ((CHR ''M'' # sender) # ps @ [CHR ''E'' # payload]) out log m s'"
    if env': "active env' n = Some c" "wall env' = wall env" for env'
  proof -
    have "serves ossl env' ?k t [CHR ''E'' # payload] out2 log2 m s'"
      unfolding ended using env'(2) by (intro serves_single) (simp add: react_simps r_def)
    from serves_append [OF serves_other_active [OF run(1) assms(2) s1 env'(2)] this] start env' show ?thesis
      unfolding out by (metis serves_Cons append_Nil)
  qed
  moreover have "log1 = []"
    using serves_inside_log [OF run(1) assms(2)] .
  moreover have "r = (case ms_error (s_state t) of Some e \<Rightarrow> Inl e
      | None \<Rightarrow> if \<not> permitted (s_actions t) then Inl No_Permission
          else map_sum Not_Signed id (sign ossl (wall env ?k) c (ms_headers (s_state t)) (body_finish ossl (ms_body (s_state t)))))"
    using t by (simp add: r_def outcome_def permitted_def split: option.split)
  ultimately show ?thesis
    using run(1) out ended by blast
qed

text \<open>In the witness the configuration is unavailable from the packet after the start on.\<close>

lemma message_configuration_fixed_witness:
  "\<exists>acks m s'. serves sample_openssl (sample_environment\<lparr>active := (\<lambda>i. if i = 0 then Some sample_config else None)\<rparr>) 0
     ((session_start sample_openssl)\<lparr>s_actions := 1\<rparr>) sample_message
     (acks @ end_packets 1 (message_result sample_openssl 7 1 sample_config sample_headers [''hi'' @ CRLF]))
     (end_log (message_result sample_openssl 7 1 sample_config sample_headers [''hi'' @ CRLF])) m s'"
proof -
  let ?ps = "map (\<lambda>h. CHR ''L'' # header_payload h) sample_headers @ [''N'', CHR ''B'' # ''hi'' @ CRLF]"
  have message: "sample_message = (CHR ''M'' # ''<a@ex.org>'') # ?ps @ [CHR ''E'' # []]"
    by (simp add: sample_message_def message_packets_def)
  have "list_all inside_message ?ps"
    by (simp add: inside_message_def starts_with_command_def sample_headers_def)
  note fixed = message_configuration_fixed [OF _ this sample_active, THEN conjunct2, rule_format]
  obtain acks where run: "serves sample_openssl sample_environment 0 ((session_start sample_openssl)\<lparr>s_actions := 1\<rparr>)
      sample_message
      (acks @ end_packets 1 (message_result sample_openssl 7 1 sample_config sample_headers [''hi'' @ CRLF]))
      (end_log (message_result sample_openssl 7 1 sample_config sample_headers [''hi'' @ CRLF]))
      (0 + message_length sample_headers [''hi'' @ CRLF])
      ((session_start sample_openssl)\<lparr>s_actions := 1, s_state := ms_default sample_openssl\<rparr>)"
    using serves_message [OF sample_within_limits sample_active, where n = 0 and ossl = sample_openssl
        and s = "(session_start sample_openssl)\<lparr>s_actions := 1\<rparr>" and sender = "''<a@ex.org>''"
        and chunks = "[''hi'' @ CRLF]"]
    by (auto simp: Let_def sample_message_def sample_environment_def)
  show ?thesis
    using fixed [OF run [unfolded message], folded message,
        of "sample_environment\<lparr>active := (\<lambda>i. if i = 0 then Some sample_config else None)\<rparr>"]
    by simp blast
qed

text \<open>C16: nothing of an earlier message, sent, aborted or failed, reaches the next: from its start
  packet on, answers, log and final session are the same whatever the state before.\<close>

theorem message_start_forgets:
  assumes "serves ossl env n s ((CHR ''M'' # sender) # ps) out log m s'"
    and "s_actions t = s_actions s" and "s_protocol t = s_protocol s"
  shows "serves ossl env n t ((CHR ''M'' # sender) # ps) out log m s'"
  using assms by (rule serves_start_forgets)

lemma message_start_forgets_witness:
  "serves sample_openssl sample_environment 0 sample_failed [CHR ''M'' # ''x'']
     (continue_packets (s_protocol (session_start sample_openssl)) CHR ''M'') [] 1
     ((session_start sample_openssl)\<lparr>s_state :=
        ms_begin sample_openssl sample_config (s_state (session_start sample_openssl))\<rparr>)"
  by (rule message_start_forgets [OF sample_start [of "session_start sample_openssl" "''x''"]])
    (simp_all add: sample_failed_def)

end
