(* ===== verification/Filesystem.thy ===== *)
theory Filesystem
  imports Io
begin

text \<open>
  The file system as src/keygen.rs and \<open>Listener::bind\<close> of src/milter.rs see it: a map from
  absolute paths, as lists of components, to nodes. Before every system call other processes may
  act, and every call may fail.

  The lemmas say, per call, what survives it: \<open>holds\<close> when other processes may create paths but
  leave what exists, \<open>touches\<close> when nobody interferes.
\<close>

section \<open>The file system\<close>

text \<open>A regular file has a mode and contents, a socket a mode; directories' modes play no part.\<close>

datatype node = Directory | Regular nat bytes | Socket nat | Special

fun chmod :: "nat \<Rightarrow> node \<Rightarrow> node" where
  "chmod mode (Regular _ bs) = Regular mode bs"
| "chmod mode (Socket _) = Socket mode"
| "chmod mode n = n"

type_synonym path = "bytes list"

text \<open>\<open>f_others\<close> is what the other processes do before the i-th call; \<open>f_faults\<close> makes the i-th
  call fail, and says how many bytes a failing write still writes. \<open>f_sequence\<close> is
  \<open>TEMP_SEQUENCE\<close>.\<close>

record fs_world =
  f_files :: "path \<Rightarrow> node option"
  f_others :: "nat \<Rightarrow> (path \<Rightarrow> node option) \<Rightarrow> (path \<Rightarrow> node option)"
  f_faults :: "nat \<Rightarrow> (io_error \<times> nat) option"
  f_calls :: nat
  f_sequence :: "64 word"

definition enter_call :: "fs_world \<Rightarrow> fs_world \<times> (io_error \<times> nat) option" where
  "enter_call w =
     (w\<lparr>f_files := f_others w (f_calls w) (f_files w), f_calls := Suc (f_calls w)\<rparr>,
      f_faults w (f_calls w))"

text \<open>\<open>Path::exists\<close> and \<open>Path::is_dir\<close>: a failing \<open>stat\<close> counts as no.\<close>

definition fs_exists :: "path \<Rightarrow> fs_world \<Rightarrow> bool \<times> fs_world" where
  "fs_exists p w = (case enter_call w of (w, fault) \<Rightarrow> (fault = None \<and> f_files w p \<noteq> None, w))"

definition fs_is_dir :: "path \<Rightarrow> fs_world \<Rightarrow> bool \<times> fs_world" where
  "fs_is_dir p w = (case enter_call w of (w, fault) \<Rightarrow> (fault = None \<and> f_files w p = Some Directory, w))"

text \<open>\<open>open\<close> with \<open>O_CREAT | O_EXCL\<close>; the mode is what the umask leaves.\<close>

definition fs_create_new :: "(nat \<Rightarrow> nat) \<Rightarrow> nat \<Rightarrow> path \<Rightarrow> (fs_world, io_error, unit) act" where
  "fs_create_new umask mode p w =
     (case enter_call w of
        (w, Some (e, _)) \<Rightarrow> (Inl e, w)
      | (w, None) \<Rightarrow>
          if f_files w p \<noteq> None then (Inl Already_Exists, w)
          else (Inr (), w\<lparr>f_files := (f_files w)(p \<mapsto> Regular (umask mode) [])\<rparr>))"

definition fs_set_permissions :: "path \<Rightarrow> nat \<Rightarrow> (fs_world, io_error, unit) act" where
  "fs_set_permissions p mode w =
     (case enter_call w of
        (w, Some (e, _)) \<Rightarrow> (Inl e, w)
      | (w, None) \<Rightarrow>
          (case f_files w p of None \<Rightarrow> (Inl (Other_Error ''not found''), w)
           | Some n \<Rightarrow> (Inr (), w\<lparr>f_files := (f_files w)(p \<mapsto> chmod mode n)\<rparr>)))"

text \<open>\<open>write_all\<close> on the file just created at \<open>p\<close>.\<close>

definition fs_write_all :: "path \<Rightarrow> bytes \<Rightarrow> (fs_world, io_error, unit) act" where
  "fs_write_all p bs w =
     (case enter_call w of (w, fault) \<Rightarrow>
        (case f_files w p of
           Some (Regular mode old) \<Rightarrow>
             (case fault of
                Some (e, n) \<Rightarrow> (Inl e, w\<lparr>f_files := (f_files w)(p \<mapsto> Regular mode (old @ take n bs))\<rparr>)
              | None \<Rightarrow> (Inr (), w\<lparr>f_files := (f_files w)(p \<mapsto> Regular mode (old @ bs))\<rparr>))
         | _ \<Rightarrow> (Inl (Other_Error ''not found''), w)))"

definition fs_sync :: "(fs_world, io_error, unit) act" where
  "fs_sync w = (case enter_call w of (w, Some (e, _)) \<Rightarrow> (Inl e, w) | (w, None) \<Rightarrow> (Inr (), w))"

text \<open>\<open>File::open\<close> of a directory, to flush it.\<close>

definition fs_open :: "path \<Rightarrow> (fs_world, io_error, unit) act" where
  "fs_open p w =
     (case enter_call w of
        (w, Some (e, _)) \<Rightarrow> (Inl e, w)
      | (w, None) \<Rightarrow> (if f_files w p = None then Inl (Other_Error ''not found'') else Inr (), w))"

definition fs_hard_link :: "path \<Rightarrow> path \<Rightarrow> (fs_world, io_error, unit) act" where
  "fs_hard_link original link w =
     (case enter_call w of
        (w, Some (e, _)) \<Rightarrow> (Inl e, w)
      | (w, None) \<Rightarrow>
          if f_files w link \<noteq> None then (Inl Already_Exists, w)
          else (case f_files w original of
              None \<Rightarrow> (Inl (Other_Error ''not found''), w)
            | Some Directory \<Rightarrow> (Inl (Other_Error ''operation not permitted''), w)
            | Some n \<Rightarrow> (Inr (), w\<lparr>f_files := (f_files w)(link \<mapsto> n)\<rparr>)))"

definition fs_remove_file :: "path \<Rightarrow> (fs_world, io_error, unit) act" where
  "fs_remove_file p w =
     (case enter_call w of
        (w, Some (e, _)) \<Rightarrow> (Inl e, w)
      | (w, None) \<Rightarrow>
          (case f_files w p of
             None \<Rightarrow> (Inl (Other_Error ''not found''), w)
           | Some Directory \<Rightarrow> (Inl (Other_Error ''is a directory''), w)
           | _ \<Rightarrow> (Inr (), w\<lparr>f_files := (f_files w)(p := None)\<rparr>)))"

text \<open>\<open>fs::symlink_metadata\<close> returns the node; \<open>UnixListener::bind\<close> makes one.\<close>

definition fs_symlink_metadata :: "path \<Rightarrow> (fs_world, io_error, node) act" where
  "fs_symlink_metadata p w =
     (case enter_call w of
        (w, Some (e, _)) \<Rightarrow> (Inl e, w)
      | (w, None) \<Rightarrow>
          (case f_files w p of None \<Rightarrow> (Inl (Other_Error ''not found''), w) | Some n \<Rightarrow> (Inr n, w)))"

definition fs_bind_socket :: "(nat \<Rightarrow> nat) \<Rightarrow> path \<Rightarrow> (fs_world, io_error, unit) act" where
  "fs_bind_socket umask p w =
     (case enter_call w of
        (w, Some (e, _)) \<Rightarrow> (Inl e, w)
      | (w, None) \<Rightarrow>
          if f_files w p \<noteq> None then (Inl (Other_Error ''address in use''), w)
          else (Inr (), w\<lparr>f_files := (f_files w)(p \<mapsto> Socket (umask (7 * 8 * 8 + 7 * 8 + 7)))\<rparr>))"

section \<open>Paths\<close>

text \<open>The components of an absolute path; \<open>.\<close> and empty components do not count.\<close>

definition path_components :: "bytes \<Rightarrow> path" where
  "path_components p = filter (\<lambda>c. c \<noteq> [] \<and> c \<noteq> ''.'') (split_on CHR ''/'' p)"

definition path_parent :: "path \<Rightarrow> path option" where
  "path_parent p = (if p = [] then None else Some (butlast p))"

definition path_file_name :: "path \<Rightarrow> bytes option" where
  "path_file_name p = (if p = [] \<or> last p = ''..'' then None else Some (last p))"

section \<open>Nothing is overwritten\<close>

text \<open>The other processes may create, but leave what exists.\<close>

definition create_only :: "(nat \<Rightarrow> (path \<Rightarrow> node option) \<Rightarrow> (path \<Rightarrow> node option)) \<Rightarrow> bool" where
  "create_only others \<longleftrightarrow> (\<forall>i f q. f q \<noteq> None \<longrightarrow> others i f q = f q)"

text \<open>\<open>holds F w\<close>: every path that \<open>F\<close> binds is bound to the same node in the world.\<close>

definition holds :: "(path \<Rightarrow> node option) \<Rightarrow> fs_world \<Rightarrow> bool" where
  "holds F w \<longleftrightarrow> create_only (f_others w) \<and> (\<forall>q. F q \<noteq> None \<longrightarrow> f_files w q = F q)"

lemma holds_refl: "create_only (f_others w) \<Longrightarrow> holds (f_files w) w"
  by (simp add: holds_def)

lemma holds_enter: "enter_call w = (w', fault) \<Longrightarrow> holds F w \<Longrightarrow> holds F w'"
  by (auto simp: enter_call_def holds_def create_only_def)

lemma holds_update:
  "holds F w \<Longrightarrow> F p = None \<Longrightarrow> holds F (w\<lparr>f_files := (f_files w)(p := n)\<rparr>)"
  by (auto simp: holds_def)

lemma holds_bind:
  "holds F w \<Longrightarrow> holds (F(p \<mapsto> n)) (w\<lparr>f_files := (f_files w)(p \<mapsto> n)\<rparr>)"
  by (auto simp: holds_def)

lemma holds_unbind: "holds (F(p \<mapsto> n)) w \<Longrightarrow> F p = None \<Longrightarrow> holds F w"
  by (auto simp: holds_def split: if_splits)

lemma holds_sequence [simp]: "holds F (w\<lparr>f_sequence := n\<rparr>) = holds F w"
  by (simp add: holds_def)

text \<open>One lemma per call.\<close>

lemma fs_exists_holds: "fs_exists p w = (b, w') \<Longrightarrow> holds F w \<Longrightarrow> holds F w'"
  by (auto simp: fs_exists_def split: prod.splits dest: holds_enter)

lemma fs_is_dir_holds: "fs_is_dir p w = (b, w') \<Longrightarrow> holds F w \<Longrightarrow> holds F w'"
  by (auto simp: fs_is_dir_def split: prod.splits dest: holds_enter)

lemma fs_sync_holds: "fs_sync w = (r, w') \<Longrightarrow> holds F w \<Longrightarrow> holds F w'"
  by (auto simp: fs_sync_def split: prod.splits option.splits dest: holds_enter)

lemma fs_open_holds: "fs_open p w = (r, w') \<Longrightarrow> holds F w \<Longrightarrow> holds F w'"
  by (auto simp: fs_open_def split: prod.splits option.splits if_splits dest: holds_enter)

lemma fs_create_new_holds:
  assumes "fs_create_new umask mode p w = (r, w')" and "holds F w"
  shows "case r of Inr _ \<Rightarrow> F p = None \<and> holds (F(p \<mapsto> Regular (umask mode) [])) w' | Inl _ \<Rightarrow> holds F w'"
proof -
  obtain w1 fault where e: "enter_call w = (w1, fault)"
    by (cases "enter_call w")
  have h: "holds F w1"
    by (rule holds_enter [OF e assms(2)])
  then have "F p = None" if "f_files w1 p = None"
    using that by (auto simp: holds_def)
  with assms(1) e h show ?thesis
    by (auto simp: fs_create_new_def split: option.splits if_splits intro: holds_bind)
qed

lemma fs_set_permissions_holds:
  assumes "fs_set_permissions p mode w = (r, w')" and "holds (F(p \<mapsto> Regular m bs)) w"
  shows "case r of Inr _ \<Rightarrow> holds (F(p \<mapsto> Regular mode bs)) w' | Inl _ \<Rightarrow> holds (F(p \<mapsto> Regular m bs)) w'"
proof -
  obtain w1 fault where e: "enter_call w = (w1, fault)"
    by (cases "enter_call w")
  have h: "holds (F(p \<mapsto> Regular m bs)) w1"
    by (rule holds_enter [OF e assms(2)])
  then have "f_files w1 p = Some (Regular m bs)"
    by (simp add: holds_def)
  with assms(1) e h holds_bind [OF h, of p "Regular mode bs"] show ?thesis
    by (auto simp: fs_set_permissions_def split: option.splits)
qed

lemma fs_write_all_holds:
  assumes "fs_write_all p bs w = (r, w')" and "holds (F(p \<mapsto> Regular m [])) w"
  shows "case r of Inr _ \<Rightarrow> holds (F(p \<mapsto> Regular m bs)) w'
    | Inl _ \<Rightarrow> \<exists>bs'. holds (F(p \<mapsto> Regular m bs')) w'"
proof -
  obtain w1 fault where e: "enter_call w = (w1, fault)"
    by (cases "enter_call w")
  have h: "holds (F(p \<mapsto> Regular m [])) w1"
    by (rule holds_enter [OF e assms(2)])
  then have "f_files w1 p = Some (Regular m [])"
    by (simp add: holds_def)
  moreover have "holds (F(p \<mapsto> Regular m bs')) (w1\<lparr>f_files := (f_files w1)(p \<mapsto> Regular m bs')\<rparr>)" for bs'
    using holds_bind [OF h, of p "Regular m bs'"] by simp
  ultimately show ?thesis
    using assms(1) e by (auto simp: fs_write_all_def split: option.splits) blast
qed

lemma fs_hard_link_holds:
  assumes "fs_hard_link p q w = (r, w')" and "holds (F(p \<mapsto> Regular m bs)) w"
  shows "case r of
      Inr _ \<Rightarrow> F q = None \<and> q \<noteq> p \<and> holds (F(p \<mapsto> Regular m bs, q \<mapsto> Regular m bs)) w'
    | Inl _ \<Rightarrow> holds (F(p \<mapsto> Regular m bs)) w'"
proof -
  obtain w1 fault where e: "enter_call w = (w1, fault)"
    by (cases "enter_call w")
  have h: "holds (F(p \<mapsto> Regular m bs)) w1"
    by (rule holds_enter [OF e assms(2)])
  then have "f_files w1 p = Some (Regular m bs)"
    by (simp add: holds_def)
  moreover have "F q = None \<and> q \<noteq> p" if "f_files w1 q = None"
    using h that calculation unfolding holds_def by (metis fun_upd_other option.distinct(1))
  ultimately show ?thesis
    using assms(1) e h holds_bind [OF h, of q "Regular m bs"]
    by (auto simp: fs_hard_link_def split: option.splits if_splits)
qed

lemma fs_remove_file_holds:
  assumes "fs_remove_file p w = (r, w')" and "holds F w" and "F p = None"
  shows "holds F w'"
proof -
  obtain w1 fault where e: "enter_call w = (w1, fault)"
    by (cases "enter_call w")
  have h: "holds F w1"
    by (rule holds_enter [OF e assms(2)])
  with assms(1,3) e holds_update [OF h assms(3)] show ?thesis
    by (auto simp: fs_remove_file_def split: option.splits node.splits)
qed

lemma fs_symlink_metadata_holds:
  assumes "fs_symlink_metadata p w = (r, w')" and "holds F w"
  shows "holds F w' \<and> (\<forall>n m. r = Inr n \<longrightarrow> F p = Some m \<longrightarrow> n = m)"
proof -
  obtain w1 fault where e: "enter_call w = (w1, fault)"
    by (cases "enter_call w")
  have "holds F w1"
    by (rule holds_enter [OF e assms(2)])
  with assms(1) e show ?thesis
    by (auto simp: fs_symlink_metadata_def holds_def split: option.splits)
qed

lemma fs_bind_socket_holds:
  assumes "fs_bind_socket umask p w = (r, w')" and "holds F w"
  shows "case r of Inr _ \<Rightarrow> F p = None \<and> (\<exists>m. holds (F(p \<mapsto> Socket m)) w') | Inl _ \<Rightarrow> holds F w'"
proof -
  obtain w1 fault where e: "enter_call w = (w1, fault)"
    by (cases "enter_call w")
  have h: "holds F w1"
    by (rule holds_enter [OF e assms(2)])
  then have "F p = None" if "f_files w1 p = None"
    using that by (auto simp: holds_def)
  moreover have "\<exists>m. holds (F(p \<mapsto> Socket m)) (w1\<lparr>f_files := (f_files w1)(p \<mapsto> Socket k)\<rparr>)" for k
    using holds_bind [OF h] by blast
  ultimately show ?thesis
    using assms(1) e h by (auto simp: fs_bind_socket_def split: option.splits if_splits)
qed

lemma fs_set_permissions_socket_holds:
  assumes "fs_set_permissions p mode w = (r, w')" and "holds (F(p \<mapsto> Socket m)) w"
  shows "case r of Inr _ \<Rightarrow> holds (F(p \<mapsto> Socket mode)) w' | Inl _ \<Rightarrow> holds (F(p \<mapsto> Socket m)) w'"
proof -
  obtain w1 fault where e: "enter_call w = (w1, fault)"
    by (cases "enter_call w")
  have h: "holds (F(p \<mapsto> Socket m)) w1"
    by (rule holds_enter [OF e assms(2)])
  then have "f_files w1 p = Some (Socket m)"
    by (simp add: holds_def)
  with assms(1) e h holds_bind [OF h, of p "Socket mode"] show ?thesis
    by (auto simp: fs_set_permissions_def split: option.splits)
qed

section \<open>Without interference\<close>

definition quiet :: "fs_world \<Rightarrow> bool" where
  "quiet w \<longleftrightarrow> f_others w = (\<lambda>i f. f)"

text \<open>\<open>touches P w w'\<close>: only paths of \<open>P\<close> may differ.\<close>

definition touches :: "path set \<Rightarrow> fs_world \<Rightarrow> fs_world \<Rightarrow> bool" where
  "touches P w w' \<longleftrightarrow> quiet w \<and> quiet w' \<and> (\<forall>q. q \<notin> P \<longrightarrow> f_files w' q = f_files w q)"

lemma touches_refl [simp]: "touches P w w = quiet w"
  by (auto simp: touches_def)

lemma touches_trans: "touches P w w1 \<Longrightarrow> touches P w1 w2 \<Longrightarrow> touches P w w2"
  by (auto simp: touches_def)

lemma touches_mono: "touches P w w' \<Longrightarrow> P \<subseteq> Q \<Longrightarrow> touches Q w w'"
  by (auto simp: touches_def)

lemma quiet_holds: "quiet w \<Longrightarrow> holds Map.empty w"
  by (simp add: quiet_def holds_def create_only_def)

lemma enter_call_quiet:
  "quiet w \<Longrightarrow> enter_call w = (w\<lparr>f_calls := Suc (f_calls w)\<rparr>, f_faults w (f_calls w))"
  by (simp add: enter_call_def quiet_def)

lemma touches_calls:
  assumes "quiet w"
  shows "touches {} w (snd (fs_exists p w))" and "touches {} w (snd (fs_is_dir p w))"
    and "touches {} w (snd (fs_sync w))" and "touches {} w (snd (fs_open p w))" and "touches {p} w (snd (fs_create_new umask mode p w))"
    and "touches {p} w (snd (fs_set_permissions p mode w))" and "touches {p} w (snd (fs_write_all p bs w))"
    and "touches {q} w (snd (fs_hard_link p q w))" and "touches {p} w (snd (fs_remove_file p w))"
  using assms enter_call_quiet [OF assms]
  by (auto simp: touches_def quiet_def fs_exists_def fs_is_dir_def fs_sync_def fs_create_new_def
      fs_set_permissions_def fs_write_all_def fs_hard_link_def fs_remove_file_def fs_open_def
      split: option.splits node.splits)

lemma touches_sequence [simp]: "touches P (w\<lparr>f_sequence := n\<rparr>) w' = touches P w w'"
  by (simp add: touches_def quiet_def)

definition faultless :: "fs_world \<Rightarrow> bool" where
  "faultless w \<longleftrightarrow> f_faults w = (\<lambda>i. None)"

lemma enter_call_faultless:
  "quiet w \<Longrightarrow> faultless w \<Longrightarrow> enter_call w = (w\<lparr>f_calls := Suc (f_calls w)\<rparr>, None)"
  by (simp add: enter_call_quiet faultless_def)

end
