(* ===== verification/Keygen.thy ===== *)
theory Keygen
  imports Filesystem Sign
begin

text \<open>
  src/keygen.rs: \<open>generate\<close>, the atomic installation of the private key
  (\<open>write_private_key\<close>, \<open>create_temporary\<close>) and the DNS record.

  The lemmas show that no existing path is ever overwritten, that the target never holds anything
  but what it held before or the whole key with mode 0600, that without failures the key is
  installed and nothing else changes, and that the quoted strings of the DNS record join to the
  DKIM key record.
\<close>

section \<open>Installing the private key\<close>

datatype keygen_error =
    Config_Problem config_error
  | Bad_Bits
  | Output_Not_Absolute
  | Rsa_Init bytes
  | Rsa_Configure bytes
  | Rsa_Generate bytes
  | Public_Encoding bytes
  | Private_Encoding bytes
  | Would_Overwrite path
  | No_Parent
  | Parent_Missing path
  | Invalid_File_Name
  | Cannot_Create_Temporary io_error
  | Cannot_Secure_Temporary io_error
  | No_Unique_Temporary
  | Cannot_Write io_error
  | Cannot_Install io_error
  | Cannot_Remove_Temporary io_error

definition temporary_name :: "nat \<Rightarrow> bytes \<Rightarrow> 64 word \<Rightarrow> bytes" where
  "temporary_name pid name sequence = ''.'' @ name @ ''.'' @ dec pid @ ''.'' @ dec (unat sequence) @ ''.tmp''"

text \<open>Mode 0600.\<close>

definition key_mode :: nat where
  "key_mode = 6 * 8 * 8"

fun create_temporary ::
  "nat \<Rightarrow> (nat \<Rightarrow> nat) \<Rightarrow> nat \<Rightarrow> path \<Rightarrow> bytes \<Rightarrow> (fs_world, keygen_error, path) act" where
  "create_temporary 0 umask pid parent name w = (Inl No_Unique_Temporary, w)"
| "create_temporary (Suc tries) umask pid parent name w =
     (let temporary = parent @ [temporary_name pid name (f_sequence w)];
          w = w\<lparr>f_sequence := f_sequence w + 1\<rparr>
      in case fs_create_new umask key_mode temporary w of
        (Inr _, w) \<Rightarrow>
          (case fs_set_permissions temporary key_mode w of
             (Inr _, w) \<Rightarrow> (Inr temporary, w)
           | (Inl e, w) \<Rightarrow> (Inl (Cannot_Secure_Temporary e), snd (fs_remove_file temporary w)))
      | (Inl e, w) \<Rightarrow>
          if e = Already_Exists then create_temporary tries umask pid parent name w
          else (Inl (Cannot_Create_Temporary e), w))"

text \<open>The closure that fills the temporary file and links it to the target.\<close>

definition install_key :: "path \<Rightarrow> path \<Rightarrow> path \<Rightarrow> bytes \<Rightarrow> (fs_world, keygen_error, unit) act" where
  "install_key parent temporary target contents =
     bind_act (map_err Cannot_Write (bind_act (fs_write_all temporary contents) (\<lambda>_. fs_sync))) (\<lambda>_.
     bind_act (map_err (\<lambda>e. if e = Already_Exists then Would_Overwrite target else Cannot_Install e)
       (fs_hard_link temporary target)) (\<lambda>_.
     bind_act (map_err Cannot_Remove_Temporary (fs_remove_file temporary)) (\<lambda>_ w.
       case fs_open parent w of
         (Inr _, w) \<Rightarrow> (Inr (), snd (fs_sync w))
       | (Inl _, w) \<Rightarrow> (Inr (), w))))"

definition write_private_key ::
  "(nat \<Rightarrow> nat) \<Rightarrow> nat \<Rightarrow> path \<Rightarrow> bytes \<Rightarrow> (fs_world, keygen_error, unit) act" where
  "write_private_key umask pid target contents w =
     (case fs_exists target w of (already, w) \<Rightarrow>
        if already then (Inl (Would_Overwrite target), w) else
      case path_parent target of None \<Rightarrow> (Inl No_Parent, w)
      | Some parent \<Rightarrow>
      (case fs_is_dir parent w of (directory, w) \<Rightarrow>
        if \<not> directory then (Inl (Parent_Missing parent), w) else
      case path_file_name target of None \<Rightarrow> (Inl Invalid_File_Name, w)
      | Some name \<Rightarrow>
        if \<not> utf8_valid name then (Inl Invalid_File_Name, w) else
      (case create_temporary 100 umask pid parent name w of
         (Inl e, w) \<Rightarrow> (Inl e, w)
       | (Inr temporary, w) \<Rightarrow>
           (case install_key parent temporary target contents w of
              (Inr _, w) \<Rightarrow> (Inr (), w)
            | (Inl e, w) \<Rightarrow> (Inl e, snd (fs_remove_file temporary w))))))"

section \<open>The DNS record\<close>

fun slice_chunks :: "nat \<Rightarrow> 'a list \<Rightarrow> 'a list list" where
  "slice_chunks n xs = (if n = 0 \<or> xs = [] then [] else take n xs # slice_chunks n (drop n xs))"

declare slice_chunks.simps [simp del]

definition dns_chunk :: nat where
  "dns_chunk = 180"

text \<open>The chunks are ASCII, so \<open>from_utf8_lossy\<close> keeps them as they are.\<close>

definition dns_record :: "('h, 'k, 's) openssl \<Rightarrow> bytes \<Rightarrow> bytes \<Rightarrow> bytes \<Rightarrow> bytes" where
  "dns_record ossl domain selector public_der =
     (let v = ''v=DKIM1; k=rsa; p='' @ encode_block ossl public_der;
          strings = join '' '' (map (\<lambda>chunk. [DQUOTE] @ chunk @ [DQUOTE]) (slice_chunks dns_chunk v))
      in selector @ ''._domainkey.'' @ domain @ ''. IN TXT '' @ strings)"

section \<open>generate\<close>

record generate_options =
  go_domain :: bytes
  go_selector :: bytes
  go_private_key :: bytes
  go_bits :: u32
  go_require_fips :: bool

record generated_key =
  gk_domain :: bytes
  gk_selector :: bytes
  gk_private_key :: bytes
  gk_bits :: u32
  gk_dns_record :: bytes

text \<open>OpenSSL's key generation: \<open>PkeyCtx::new_id(Id::RSA)\<close>, \<open>keygen_init\<close>,
  \<open>set_rsa_keygen_bits\<close>, \<open>keygen\<close> and the two encodings.\<close>

record ('c, 'k) rsa_keygen =
  ctx_new :: "bytes + 'c"
  ctx_keygen_init :: "'c \<Rightarrow> bytes + 'c"
  ctx_set_bits :: "'c \<Rightarrow> u32 \<Rightarrow> bytes + 'c"
  ctx_keygen :: "'c \<Rightarrow> bytes + 'k"
  public_key_to_der :: "'k \<Rightarrow> bytes + bytes"
  private_key_to_pem :: "'k \<Rightarrow> bytes + bytes"

definition generate_rsa :: "('c, 'k) rsa_keygen \<Rightarrow> u32 \<Rightarrow> keygen_error + 'k" where
  "generate_rsa kg bits =
     and_then (map_sum Rsa_Init id (ctx_new kg)) (\<lambda>context.
     and_then (map_sum Rsa_Configure id
       (and_then (ctx_keygen_init kg context) (\<lambda>context. ctx_set_bits kg context bits))) (\<lambda>context.
     map_sum Rsa_Generate id (ctx_keygen kg context)))"

text \<open>\<open>fips\<close> is the answer of \<open>check_fips_environment(options.require_fips)\<close>.\<close>

definition generate ::
  "('h, 'k, 's) openssl \<Rightarrow> ('c, 'k) rsa_keygen \<Rightarrow> config_error + unit \<Rightarrow> (nat \<Rightarrow> nat) \<Rightarrow> nat \<Rightarrow> generate_options
    \<Rightarrow> (fs_world, keygen_error, generated_key) act" where
  "generate ossl kg fips umask pid options w =
     (case and_then (map_sum Config_Problem id fips) (\<lambda>_.
           and_then (map_sum Config_Problem id (validate_dns_name ''domain'' (go_domain options))) (\<lambda>domain.
           and_then (map_sum Config_Problem id (validate_dns_name ''selector'' (go_selector options))) (\<lambda>selector.
           if go_bits options \<notin> {2048, 3072, 4096} then Inl Bad_Bits
           else if \<not> starts_with ''/'' (go_private_key options) then Inl Output_Not_Absolute
           else
           and_then (generate_rsa kg (go_bits options)) (\<lambda>key.
           and_then (map_sum Config_Problem id (validate_key ossl key)) (\<lambda>_.
           and_then (map_sum Public_Encoding id (public_key_to_der kg key)) (\<lambda>public_der.
           and_then (map_sum Private_Encoding id (private_key_to_pem kg key)) (\<lambda>private_pem.
           Inr (domain, selector, public_der, private_pem)))))))) of
        Inl e \<Rightarrow> (Inl e, w)
      | Inr (domain, selector, public_der, private_pem) \<Rightarrow>
          bind_act (write_private_key umask pid (path_components (go_private_key options)) private_pem)
            (\<lambda>_. ok \<lparr>gk_domain = domain, gk_selector = selector, gk_private_key = go_private_key options,
               gk_bits = go_bits options, gk_dns_record = dns_record ossl domain selector public_der\<rparr>) w)"

section \<open>Nothing is overwritten\<close>

lemma create_temporary_holds:
  assumes "create_temporary tries umask pid parent name w = (r, w')" and "holds F w"
  shows "case r of Inr t \<Rightarrow> F t = None \<and> holds (F(t \<mapsto> Regular key_mode [])) w' | Inl _ \<Rightarrow> holds F w'"
  using assms
proof (induction tries umask pid parent name w arbitrary: r w' rule: create_temporary.induct)
  case (2 tries umask pid parent name w)
  let ?t = "parent @ [temporary_name pid name (f_sequence w)]"
  let ?w = "w\<lparr>f_sequence := f_sequence w + 1\<rparr>"
  obtain x w1 where x: "fs_create_new umask key_mode ?t ?w = (x, w1)"
    by (cases "fs_create_new umask key_mode ?t ?w")
  have "holds F ?w"
    using "2.prems"(2) by simp
  note c = fs_create_new_holds [OF x this]
  show ?case
  proof (cases x)
    case (Inl e)
    then have "holds F w1"
      using c by simp
    then show ?thesis
      using "2.prems"(1) "2.IH" [OF refl refl x [symmetric] Inl] x Inl
      by (auto simp: Let_def split: if_splits)
  next
    case (Inr u)
    then have f: "F ?t = None" "holds (F(?t \<mapsto> Regular (umask key_mode) [])) w1"
      using c by simp_all
    obtain y w2 where y: "fs_set_permissions ?t key_mode w1 = (y, w2)"
      by (cases "fs_set_permissions ?t key_mode w1")
    note p = fs_set_permissions_holds [OF y f(2)]
    show ?thesis
    proof (cases y)
      case (Inl e)
      then have "holds F w2"
        using p holds_unbind f(1) by fastforce
      then have "holds F (snd (fs_remove_file ?t w2))"
        using f(1) fs_remove_file_holds by (metis prod.collapse)
      with "2.prems"(1) x Inr y Inl show ?thesis
        by (auto simp: Let_def)
    next
      case (Inr v)
      with "2.prems"(1) x \<open>x = Inr u\<close> y p f(1) show ?thesis
        by (auto simp: Let_def)
    qed
  qed
qed simp

lemma install_key_holds:
  assumes "install_key parent t target contents w = (r, w')" and "holds (F(t \<mapsto> Regular key_mode [])) w" and "F t = None"
  shows "case r of
      Inr _ \<Rightarrow> F target = None \<and> holds (F(target \<mapsto> Regular key_mode contents)) w'
    | Inl _ \<Rightarrow> \<exists>bs. holds (F(t \<mapsto> Regular key_mode bs)) w' \<or> holds F w'"
proof -
  obtain r1 w1 where 1: "fs_write_all t contents w = (r1, w1)"
    by (cases "fs_write_all t contents w")
  note h1 = fs_write_all_holds [OF 1 assms(2)]
  show ?thesis
  proof (cases r1)
    case (Inl e)
    with assms(1) 1 h1 show ?thesis
      by (auto simp: install_key_def act_simps)
  next
    case r1: (Inr u)
    obtain r2 w2 where 2: "fs_sync w1 = (r2, w2)"
      by (cases "fs_sync w1")
    have h2: "holds (F(t \<mapsto> Regular key_mode contents)) w2"
      using fs_sync_holds [OF 2] h1 r1 by simp
    show ?thesis
    proof (cases r2)
      case (Inl e)
      with assms(1) 1 2 r1 h2 show ?thesis
        by (auto simp: install_key_def act_simps)
    next
      case r2: (Inr u')
      obtain r3 w3 where 3: "fs_hard_link t target w2 = (r3, w3)"
        by (cases "fs_hard_link t target w2")
      note h3 = fs_hard_link_holds [OF 3 h2]
      show ?thesis
      proof (cases r3)
        case (Inl e)
        with assms(1) 1 2 3 r1 r2 h3 show ?thesis
          by (auto simp: install_key_def act_simps)
      next
        case r3: (Inr u'')
        obtain r4 w4 where 4: "fs_remove_file t w3 = (r4, w4)"
          by (cases "fs_remove_file t w3")
        have link: "F target = None" "target \<noteq> t"
          "holds (F(t \<mapsto> Regular key_mode contents, target \<mapsto> Regular key_mode contents)) w3"
          using h3 r3 by simp_all
        then have "holds (F(target \<mapsto> Regular key_mode contents)) w3"
          using assms(3) by (auto simp: holds_def)
        then have h4: "holds (F(target \<mapsto> Regular key_mode contents)) w4"
          using fs_remove_file_holds [OF 4] link(2) assms(3) by simp
        show ?thesis
        proof (cases r4)
          case (Inl e)
          have "holds F w4"
            using h4 link(1) holds_unbind by blast
          with assms(1) 1 2 3 4 r1 r2 r3 Inl show ?thesis
            by (auto simp: install_key_def act_simps)
        next
          case r4: (Inr v)
          obtain r5 w5 where 5: "fs_open parent w4 = (r5, w5)"
            by (cases "fs_open parent w4")
          have h5: "holds (F(target \<mapsto> Regular key_mode contents)) w5"
            by (rule fs_open_holds [OF 5 h4])
          then have "holds (F(target \<mapsto> Regular key_mode contents)) (snd (fs_sync w5))"
            using fs_sync_holds by (metis prod.collapse)
          with h5 assms(1) 1 2 3 4 5 r1 r2 r3 r4 link(1) show ?thesis
            by (cases r5) (auto simp: install_key_def act_simps)
        qed
      qed
    qed
  qed
qed

text \<open>The whole installation: whatever fails and whatever others create, what existed stays, and
  on success the target was free and holds the key with mode 0600.\<close>

lemma write_private_key_holds:
  assumes "write_private_key umask pid target contents w = (r, w')" and "holds F w"
  shows "holds F w' \<and> (\<forall>u. r = Inr u \<longrightarrow> F target = None \<and> f_files w' target = Some (Regular key_mode contents))"
proof -
  obtain b1 w1 where 1: "fs_exists target w = (b1, w1)"
    by (cases "fs_exists target w")
  note h1 = fs_exists_holds [OF 1 assms(2)]
  show ?thesis
  proof (cases "b1 \<or> path_parent target = None")
    case True
    with assms(1) 1 h1 show ?thesis
      by (auto simp: write_private_key_def split: if_splits)
  next
    case False
    then obtain parent where parent: "path_parent target = Some parent"
      by auto
    obtain b2 w2 where 2: "fs_is_dir parent w1 = (b2, w2)"
      by (cases "fs_is_dir parent w1")
    note h2 = fs_is_dir_holds [OF 2 h1]
    show ?thesis
    proof (cases "\<not> b2 \<or> path_file_name target = None \<or> \<not> utf8_valid (the (path_file_name target))")
      case True
      with assms(1) 1 2 h2 False parent show ?thesis
        by (auto simp: write_private_key_def split: if_splits option.splits)
    next
      case ok: False
      then obtain name where name: "path_file_name target = Some name" "utf8_valid name"
        by auto
      obtain r3 w3 where 3: "create_temporary 100 umask pid parent name w2 = (r3, w3)"
        by (cases "create_temporary 100 umask pid parent name w2")
      note h3 = create_temporary_holds [OF 3 h2]
      have step: "(r, w') = (case r3 of Inl e \<Rightarrow> (Inl e, w3)
          | Inr t \<Rightarrow> (case install_key parent t target contents w3 of (Inr _, w) \<Rightarrow> (Inr (), w)
             | (Inl e, w) \<Rightarrow> (Inl e, snd (fs_remove_file t w))))"
        using assms(1) 1 2 3 False ok parent name
        by (auto simp: write_private_key_def split: sum.splits)
      show ?thesis
      proof (cases r3)
        case (Inl e)
        with step h3 show ?thesis
          by simp
      next
        case (Inr t)
        then have t: "F t = None" "holds (F(t \<mapsto> Regular key_mode [])) w3"
          using h3 by simp_all
        obtain r4 w4 where 4: "install_key parent t target contents w3 = (r4, w4)"
          by (cases "install_key parent t target contents w3")
        note h4 = install_key_holds [OF 4 t(2,1)]
        show ?thesis
        proof (cases r4)
          case r4: (Inl e)
          then have "holds F w4"
            using h4 t(1) holds_unbind by fastforce
          then have "holds F (snd (fs_remove_file t w4))"
            using fs_remove_file_holds t(1) by (metis prod.collapse)
          with step Inr 4 r4 show ?thesis
            by simp
        next
          case r4: (Inr u)
          then have "F target = None" "holds (F(target \<mapsto> Regular key_mode contents)) w4"
            using h4 by simp_all
          moreover from this have "holds F w4"
            using holds_unbind by blast
          ultimately show ?thesis
            using step Inr 4 r4 by (simp add: holds_def)
        qed
      qed
    qed
  qed
qed

section \<open>The target is as before, or holds the whole key\<close>

definition temporaries :: "path \<Rightarrow> nat \<Rightarrow> bytes \<Rightarrow> path set" where
  "temporaries parent pid name = range (\<lambda>s. parent @ [temporary_name pid name s])"

lemma create_temporary_touches:
  assumes "quiet w"
  shows "touches (temporaries parent pid name) w (snd (create_temporary tries umask pid parent name w))"
  using assms
proof (induction tries umask pid parent name w rule: create_temporary.induct)
  case (2 tries umask pid parent name w)
  let ?t = "parent @ [temporary_name pid name (f_sequence w)]"
  let ?w = "w\<lparr>f_sequence := f_sequence w + 1\<rparr>"
  let ?T = "temporaries parent pid name"
  have q: "quiet ?w" and t: "{?t} \<subseteq> ?T"
    using "2.prems" by (auto simp: quiet_def temporaries_def)
  obtain x w1 where x: "fs_create_new umask key_mode ?t ?w = (x, w1)"
    by (cases "fs_create_new umask key_mode ?t ?w")
  have t1: "touches ?T w w1"
    using touches_mono [OF touches_calls(5) [OF q] t, of umask key_mode] x by simp
  then have q1: "quiet w1"
    by (simp add: touches_def)
  show ?case
  proof (cases x)
    case (Inl e)
    then show ?thesis
      using t1 q1 "2.IH" [OF refl refl x [symmetric] Inl] x
      by (auto simp: Let_def intro: touches_trans)
  next
    case (Inr u)
    obtain y w2 where y: "fs_set_permissions ?t key_mode w1 = (y, w2)"
      by (cases "fs_set_permissions ?t key_mode w1")
    have t2: "touches ?T w w2"
      using touches_trans [OF t1] touches_mono [OF touches_calls(6) [OF q1] t, of key_mode] y by simp
    then have "quiet w2"
      by (simp add: touches_def)
    note touches_mono [OF touches_calls(9) [OF this] t]
    with t2 show ?thesis
      using x Inr y by (auto simp: Let_def intro: touches_trans split: sum.splits)
  qed
qed simp

lemma length_temporary_name: "length name < length (temporary_name pid name s)"
  by (simp add: temporary_name_def)

lemma file_name_not_temporary:
  "path_file_name target = Some name \<Longrightarrow> target \<notin> temporaries parent pid name"
  using length_temporary_name [of name]
  by (auto simp: path_file_name_def temporaries_def split: if_splits) (metis last_snoc less_irrefl)

lemma install_key_target:
  assumes "install_key parent t target contents w = (r, w')" and "quiet w"
    and "f_files w t = Some (Regular key_mode [])" and "t \<noteq> target"
  shows "touches {t, target} w w' \<and>
    f_files w' target \<in> {f_files w target, Some (Regular key_mode contents)}"
proof -
  let ?done = "\<lambda>w'. touches {t, target} w w' \<and>
    f_files w' target \<in> {f_files w target, Some (Regular key_mode contents)}"
  have step: "?done w1 \<Longrightarrow> touches {t} w1 w2 \<Longrightarrow> ?done w2" for w1 w2
    using assms(4) by (auto simp: touches_def)
  have sync: "touches {t} w (snd (fs_sync w))" if "quiet w" for w
    using touches_mono [OF touches_calls(3) [OF that]] by blast
  have open': "touches {t} w (snd (fs_open parent w))" if "quiet w" for w
    using touches_mono [OF touches_calls(4) [OF that]] by blast
  obtain r1 w1 where 1: "fs_write_all t contents w = (r1, w1)"
    by (cases "fs_write_all t contents w")
  have d1: "?done w1"
    using step [of w w1] touches_calls(7) [OF assms(2), of t contents] 1 assms(2) by simp
  have h: "holds (Map.empty(t \<mapsto> Regular key_mode [])) w"
    using holds_bind [OF quiet_holds [OF assms(2)], of t "Regular key_mode []"] assms(3)
    by (simp add: fun_upd_idem)
  show ?thesis
  proof (cases r1)
    case (Inl e)
    with assms(1) 1 d1 show ?thesis
      by (auto simp: install_key_def act_simps)
  next
    case r1: (Inr u)
    obtain r2 w2 where 2: "fs_sync w1 = (r2, w2)"
      by (cases "fs_sync w1")
    have d2: "?done w2"
      using step [OF d1] sync [of w1] d1 2 by (simp add: touches_def)
    show ?thesis
    proof (cases r2)
      case (Inl e)
      with assms(1) 1 2 r1 d2 show ?thesis
        by (auto simp: install_key_def act_simps)
    next
      case r2: (Inr u')
      have "holds (Map.empty(t \<mapsto> Regular key_mode contents)) w2"
        using fs_sync_holds [OF 2] fs_write_all_holds [OF 1 h] r1 by simp
      note linked = fs_hard_link_holds [OF _ this, of target]
      obtain r3 w3 where 3: "fs_hard_link t target w2 = (r3, w3)"
        by (cases "fs_hard_link t target w2")
      have "touches {target} w2 w3" "f_files w3 target \<in> {f_files w2 target, Some (Regular key_mode contents)}"
        using touches_calls(8) [of w2 target t] 3 d2 linked [OF 3]
        by (auto simp: touches_def holds_def fs_hard_link_def enter_call_quiet split: option.splits if_splits node.splits)
      then have d3: "?done w3"
        using d2 by (auto simp: touches_def)
      show ?thesis
      proof (cases r3)
        case (Inl e)
        with assms(1) 1 2 3 r1 r2 d3 show ?thesis
          by (auto simp: install_key_def act_simps)
      next
        case r3: (Inr u'')
        obtain r4 w4 where 4: "fs_remove_file t w3 = (r4, w4)"
          by (cases "fs_remove_file t w3")
        have d4: "?done w4"
          using step [OF d3] touches_calls(9) [of w3 t] d3 4 by (simp add: touches_def)
        obtain r5 w5 where 5: "fs_open parent w4 = (r5, w5)"
          by (cases "fs_open parent w4")
        have d5: "?done w5"
          using step [OF d4] open' [of w4] d4 5 by (simp add: touches_def)
        have "?done (snd (fs_sync w5))"
          using step [OF d5] sync [of w5] d5 by (simp add: touches_def)
        with assms(1) 1 2 3 4 5 r1 r2 r3 d4 d5 show ?thesis
          by (cases r4; cases r5) (auto simp: install_key_def act_simps)
      qed
    qed
  qed
qed

lemma create_temporary_name:
  "fst (create_temporary tries umask pid parent name w) = Inr t \<Longrightarrow> t \<in> temporaries parent pid name"
  by (induction tries umask pid parent name w rule: create_temporary.induct)
    (auto simp: Let_def temporaries_def split: prod.splits sum.splits if_splits)

text \<open>The names the installation may use besides the target.\<close>

definition scratch_paths :: "nat \<Rightarrow> path \<Rightarrow> path set" where
  "scratch_paths pid target =
     (case (path_parent target, path_file_name target) of
        (Some parent, Some name) \<Rightarrow> temporaries parent pid name
      | _ \<Rightarrow> {})"

lemma write_private_key_target:
  assumes "write_private_key umask pid target contents w = (r, w')" and "quiet w"
  shows "touches (insert target (scratch_paths pid target)) w w' \<and>
    f_files w' target \<in> {f_files w target, Some (Regular key_mode contents)}"
proof -
  let ?S = "scratch_paths pid target"
  obtain b1 w1 where 1: "fs_exists target w = (b1, w1)"
    by (cases "fs_exists target w")
  have t1: "touches {} w w1"
    using touches_calls(1) [OF assms(2), of target] 1 by simp
  then have q1: "quiet w1"
    by (simp add: touches_def)
  have early: ?thesis if "touches {} w w'"
    using that by (auto simp: touches_def)
  show ?thesis
  proof (cases "b1 \<or> path_parent target = None")
    case True
    with assms(1) 1 t1 show ?thesis
      by (intro early) (auto simp: write_private_key_def split: if_splits)
  next
    case False
    then obtain parent where parent: "path_parent target = Some parent"
      by auto
    obtain b2 w2 where 2: "fs_is_dir parent w1 = (b2, w2)"
      by (cases "fs_is_dir parent w1")
    have t2: "touches {} w w2"
      using touches_trans [OF t1] touches_calls(2) [OF q1, of parent] 2 by simp
    then have q2: "quiet w2"
      by (simp add: touches_def)
    show ?thesis
    proof (cases "\<not> b2 \<or> path_file_name target = None \<or> \<not> utf8_valid (the (path_file_name target))")
      case True
      with assms(1) 1 2 t2 False parent show ?thesis
        by (intro early) (auto simp: write_private_key_def split: if_splits option.splits)
    next
      case ok: False
      then obtain name where name: "path_file_name target = Some name" "utf8_valid name"
        by auto
      have S: "?S = temporaries parent pid name" "target \<notin> ?S"
        using parent name(1) file_name_not_temporary by (simp_all add: scratch_paths_def)
      obtain r3 w3 where 3: "create_temporary 100 umask pid parent name w2 = (r3, w3)"
        by (cases "create_temporary 100 umask pid parent name w2")
      have t3: "touches ?S w w3"
        using create_temporary_touches [OF q2, of parent pid name 100 umask] 3
          touches_mono [OF t2, of ?S] touches_trans by (metis S(1) empty_subsetI snd_conv)
      have step: "(r, w') = (case r3 of Inl e \<Rightarrow> (Inl e, w3)
          | Inr t \<Rightarrow> (case install_key parent t target contents w3 of (Inr _, w) \<Rightarrow> (Inr (), w)
             | (Inl e, w) \<Rightarrow> (Inl e, snd (fs_remove_file t w))))"
        using assms(1) 1 2 3 False ok parent name
        by (auto simp: write_private_key_def split: sum.splits)
      show ?thesis
      proof (cases r3)
        case (Inl e)
        with step t3 S(2) show ?thesis
          by (auto simp: touches_def)
      next
        case (Inr t)
        have t: "t \<in> ?S" "t \<noteq> target" "f_files w3 t = Some (Regular key_mode [])"
          using create_temporary_name [of 100 umask pid parent name w2 t] 3 Inr S
            create_temporary_holds [OF 3 quiet_holds [OF q2]] by (auto simp: holds_def)
        obtain r4 w4 where 4: "install_key parent t target contents w3 = (r4, w4)"
          by (cases "install_key parent t target contents w3")
        have w4: "touches (insert target ?S) w w4"
          "f_files w4 target \<in> {f_files w target, Some (Regular key_mode contents)}"
          using install_key_target [OF 4 _ t(3,2)] t3 t(1) S(2) by (auto simp: touches_def)
        then have "touches (insert target ?S) w (snd (fs_remove_file t w4))"
          "f_files (snd (fs_remove_file t w4)) target = f_files w4 target"
          using touches_calls(9) [of w4 t] t(1,2) by (auto simp: touches_def)
        with step Inr 4 w4 show ?thesis
          by (cases r4) auto
      qed
    qed
  qed
qed

section \<open>When nothing fails\<close>

lemma install_key_succeeds:
  assumes "quiet w" and "faultless w" and "f_files w t = Some (Regular key_mode [])"
    and "f_files w target = None" and "t \<noteq> target"
  shows "\<exists>n. install_key parent t target contents w =
    (Inr (), w\<lparr>f_files := (f_files w)(target \<mapsto> Regular key_mode contents, t := None), f_calls := n\<rparr>)"
  using assms
  by (auto simp: install_key_def act_simps fs_write_all_def fs_sync_def fs_hard_link_def fs_remove_file_def fs_open_def
      enter_call_def quiet_def faultless_def fun_upd_twist)

lemma create_temporary_succeeds:
  assumes "quiet w" and "faultless w" and "i < tries"
    and "f_files w (parent @ [temporary_name pid name (f_sequence w + of_nat i)]) = None"
  shows "\<exists>t n s. create_temporary tries umask pid parent name w =
      (Inr t, w\<lparr>f_files := (f_files w)(t \<mapsto> Regular key_mode []), f_calls := n, f_sequence := s\<rparr>) \<and>
    f_files w t = None"
  using assms
proof (induction tries arbitrary: w i)
  case (Suc tries)
  let ?t = "parent @ [temporary_name pid name (f_sequence w)]"
  show ?case
  proof (cases "f_files w ?t")
    case None
    with Suc.prems(1,2) show ?thesis
      by (cases w) (auto simp: Let_def fs_create_new_def fs_set_permissions_def enter_call_def quiet_def faultless_def)
  next
    case (Some x)
    define w1 where "w1 = w\<lparr>f_sequence := f_sequence w + 1, f_calls := Suc (f_calls w)\<rparr>"
    have "i \<noteq> 0"
      using Some Suc.prems(4) by (cases i) auto
    then obtain j where i: "i = Suc j"
      using not0_implies_Suc by blast
    have "create_temporary (Suc tries) umask pid parent name w = create_temporary tries umask pid parent name w1"
      using Some Suc.prems(1,2)
      by (simp add: w1_def Let_def fs_create_new_def enter_call_def quiet_def faultless_def)
    moreover have "j < tries"
      using Suc.prems(3) i by simp
    moreover have w1: "quiet w1" "faultless w1" "f_files w1 = f_files w"
      "f_sequence w1 + of_nat j = f_sequence w + of_nat i"
      using Suc.prems i by (simp_all add: w1_def quiet_def faultless_def)
    moreover obtain t n s where "create_temporary tries umask pid parent name w1 =
        (Inr t, w1\<lparr>f_files := (f_files w)(t \<mapsto> Regular key_mode []), f_calls := n, f_sequence := s\<rparr>)"
      and "f_files w t = None"
      using Suc.IH [OF w1(1,2) \<open>j < tries\<close>, unfolded w1(3,4), OF Suc.prems(4)] by blast
    ultimately show ?thesis
      by (cases w) (auto simp: w1_def)
  qed
qed simp

lemma write_private_key_succeeds:
  assumes "quiet w" and "faultless w" and "f_files w target = None"
    and "path_parent target = Some parent" and "f_files w parent = Some Directory"
    and "path_file_name target = Some name" and "utf8_valid name" and "i < 100"
    and "f_files w (parent @ [temporary_name pid name (f_sequence w + of_nat i)]) = None"
  shows "\<exists>n s. write_private_key umask pid target contents w =
    (Inr (), w\<lparr>f_files := (f_files w)(target \<mapsto> Regular key_mode contents), f_calls := n, f_sequence := s\<rparr>)"
proof -
  define w2 where "w2 = w\<lparr>f_calls := Suc (Suc (f_calls w))\<rparr>"
  have w2: "quiet w2" "faultless w2" "f_files w2 = f_files w" "f_sequence w2 = f_sequence w"
    using assms(1,2) by (simp_all add: w2_def quiet_def faultless_def)
  obtain t n s where t: "create_temporary 100 umask pid parent name w2 =
      (Inr t, w2\<lparr>f_files := (f_files w)(t \<mapsto> Regular key_mode []), f_calls := n, f_sequence := s\<rparr>)"
    "f_files w t = None"
    using create_temporary_succeeds [OF w2(1,2) assms(8), of parent pid name umask] assms(9) w2(3,4) by auto
  let ?w3 = "w2\<lparr>f_files := (f_files w)(t \<mapsto> Regular key_mode []), f_calls := n, f_sequence := s\<rparr>"
  have "t \<noteq> target"
    using create_temporary_name [of 100 umask pid parent name w2 t] t(1) file_name_not_temporary [OF assms(6)]
    by auto
  then obtain n' where i: "install_key parent t target contents ?w3 =
      (Inr (), ?w3\<lparr>f_files := (f_files ?w3)(target \<mapsto> Regular key_mode contents, t := None), f_calls := n'\<rparr>)"
    using install_key_succeeds [of ?w3 t target parent contents] w2(1,2) assms(3)
    by (auto simp: quiet_def faultless_def)
  have "write_private_key umask pid target contents w =
      (Inr (), ?w3\<lparr>f_files := (f_files ?w3)(target \<mapsto> Regular key_mode contents, t := None), f_calls := n'\<rparr>)"
    using assms(3-7) t(1) i enter_call_faultless [OF assms(1,2)]
      enter_call_faultless [of "w\<lparr>f_calls := Suc (f_calls w)\<rparr>"] assms(1,2)
    by (simp add: write_private_key_def fs_exists_def fs_is_dir_def quiet_def faultless_def w2_def)
  moreover have "((f_files w)(t \<mapsto> Regular key_mode []))(target \<mapsto> Regular key_mode contents, t := None) =
      (f_files w)(target \<mapsto> Regular key_mode contents)"
    using t(2) \<open>t \<noteq> target\<close> by (auto simp: fun_eq_iff)
  ultimately show ?thesis
    by (cases w) (auto simp: w2_def)
qed

section \<open>generate\<close>

lemma generate_cases:
  assumes "generate ossl kg fips umask pid options w = (r, w')"
  obtains (rejected) e where "r = Inl e" and "w' = w"
  | (written) domain selector key der pem r1 where
      "fips = Inr ()" and "validate_dns_name ''domain'' (go_domain options) = Inr domain"
      and "validate_dns_name ''selector'' (go_selector options) = Inr selector"
      and "go_bits options \<in> {2048, 3072, 4096}" and "starts_with ''/'' (go_private_key options)"
      and "generate_rsa kg (go_bits options) = Inr key" and "validate_key ossl key = Inr ()"
      and "public_key_to_der kg key = Inr der" and "private_key_to_pem kg key = Inr pem"
      and "write_private_key umask pid (path_components (go_private_key options)) pem w = (r1, w')"
      and "r = map_sum id (\<lambda>_. \<lparr>gk_domain = domain, gk_selector = selector,
        gk_private_key = go_private_key options, gk_bits = go_bits options,
        gk_dns_record = dns_record ossl domain selector der\<rparr>) r1"
proof -
  let ?checks = "and_then (map_sum Config_Problem id fips) (\<lambda>_.
           and_then (map_sum Config_Problem id (validate_dns_name ''domain'' (go_domain options))) (\<lambda>domain.
           and_then (map_sum Config_Problem id (validate_dns_name ''selector'' (go_selector options))) (\<lambda>selector.
           if go_bits options \<notin> {2048, 3072, 4096} then Inl Bad_Bits
           else if \<not> starts_with ''/'' (go_private_key options) then Inl Output_Not_Absolute
           else
           and_then (generate_rsa kg (go_bits options)) (\<lambda>key.
           and_then (map_sum Config_Problem id (validate_key ossl key)) (\<lambda>_.
           and_then (map_sum Public_Encoding id (public_key_to_der kg key)) (\<lambda>public_der.
           and_then (map_sum Private_Encoding id (private_key_to_pem kg key)) (\<lambda>private_pem.
           Inr (domain, selector, public_der, private_pem))))))))"
  show ?thesis
  proof (cases ?checks)
    case (Inl e)
    then have "generate ossl kg fips umask pid options w = (Inl e, w)"
      unfolding generate_def by simp
    with assms rejected [of e] show ?thesis
      by simp
  next
    case (Inr x)
    obtain domain selector der pem where x: "x = (domain, selector, der, pem)"
      by (cases x) auto
    obtain r1 w1 where wr: "write_private_key umask pid (path_components (go_private_key options)) pem w = (r1, w1)"
      by (cases "write_private_key umask pid (path_components (go_private_key options)) pem w")
    have "generate ossl kg fips umask pid options w =
        (map_sum id (\<lambda>_. \<lparr>gk_domain = domain, gk_selector = selector,
          gk_private_key = go_private_key options, gk_bits = go_bits options,
          gk_dns_record = dns_record ossl domain selector der\<rparr>) r1, w1)"
      unfolding generate_def Inr x by (cases r1) (simp_all add: wr act_simps)
    with assms have "w' = w1" "r = map_sum id (\<lambda>_. \<lparr>gk_domain = domain, gk_selector = selector,
          gk_private_key = go_private_key options, gk_bits = go_bits options,
          gk_dns_record = dns_record ossl domain selector der\<rparr>) r1"
      by simp_all
    moreover have "go_bits options \<in> {2048, 3072, 4096}"
      using Inr by (rule contrapos_pp) (cases fips; auto)
    moreover from this obtain key where "fips = Inr ()" "validate_dns_name ''domain'' (go_domain options) = Inr domain"
      "validate_dns_name ''selector'' (go_selector options) = Inr selector"
      "starts_with ''/'' (go_private_key options)"
      "generate_rsa kg (go_bits options) = Inr key" "validate_key ossl key = Inr ()"
      "public_key_to_der kg key = Inr der" "private_key_to_pem kg key = Inr pem"
      using Inr unfolding x by (auto split: if_splits)
    ultimately show ?thesis
      using wr written by blast
  qed
qed

section \<open>Reading the DNS record\<close>

text \<open>RFC 1035 section 5.1: the character strings of a TXT record, in quotes, set apart by blanks.\<close>

function read_txt :: "bytes \<Rightarrow> bytes list option" where
  "read_txt [] = Some []"
| "read_txt (c # rest) =
     (if c = SP then read_txt rest
      else if c = DQUOTE then
        (let text = takeWhile (\<lambda>b. b \<noteq> DQUOTE) rest; after = dropWhile (\<lambda>b. b \<noteq> DQUOTE) rest
         in if after = [] \<or> BACKSLASH \<in> set text then None
            else map_option (\<lambda>ts. text # ts) (read_txt (tl after)))
      else None)"
  by pat_completeness auto
termination
  by (relation "measure length") (auto simp: less_Suc_eq_le intro: le_trans [OF diff_le_self length_dropWhile_le])

declare read_txt.simps(2) [simp del]

lemma read_txt_quoted:
  "DQUOTE \<notin> set t \<Longrightarrow> BACKSLASH \<notin> set t \<Longrightarrow>
     read_txt ([DQUOTE] @ t @ [DQUOTE] @ rest) = map_option (\<lambda>ts. t # ts) (read_txt rest)"
  by (simp add: read_txt.simps(2) takeWhile_append dropWhile_append)

lemma read_txt_join:
  "\<forall>t \<in> set ts. DQUOTE \<notin> set t \<and> BACKSLASH \<notin> set t \<Longrightarrow>
     read_txt (join '' '' (map (\<lambda>t. [DQUOTE] @ t @ [DQUOTE]) ts)) = Some ts"
proof (induction ts)
  case (Cons t ts)
  have "read_txt ([DQUOTE] @ t @ [DQUOTE] @ (if ts = [] then [] else '' '' @ join '' '' (map (\<lambda>t. [DQUOTE] @ t @ [DQUOTE]) ts))) =
      Some (t # ts)"
    using Cons by (subst read_txt_quoted) (auto simp: read_txt.simps(2))
  then show ?case
    by (cases ts) (simp_all add: join_Cons)
qed simp

lemma slice_chunks:
  assumes "0 < n"
  shows "concat (slice_chunks n xs) = xs" and "c \<in> set (slice_chunks n xs) \<Longrightarrow> length c \<le> n \<and> set c \<subseteq> set xs"
proof -
  show "concat (slice_chunks n xs) = xs"
    using assms by (induction n xs rule: slice_chunks.induct) (subst slice_chunks.simps, simp)
  show "length c \<le> n \<and> set c \<subseteq> set xs" if "c \<in> set (slice_chunks n xs)"
    using that assms
  proof (induction n xs rule: slice_chunks.induct)
    case (1 n xs)
    then show ?case
      by (subst (asm) (2) slice_chunks.simps) (auto split: if_splits dest: in_set_takeD in_set_dropD)
  qed
qed

definition record_value :: "('h, 'k, 's) openssl \<Rightarrow> bytes \<Rightarrow> bytes" where
  "record_value ossl der = ''v=DKIM1; k=rsa; p='' @ encode_block ossl der"

lemma record_value_tags:
  assumes "base64_encoding (encode_block ossl)"
  shows "tags (record_value ossl der) = [(''v'', ''DKIM1''), (''k'', ''rsa''), (''p'', encode_block ossl der)]"
    and "b \<in> set (record_value ossl der) \<Longrightarrow> b \<noteq> DQUOTE \<and> b \<noteq> BACKSLASH"
proof -
  let ?b = "encode_block ossl der"
  have b: "plain ?b"
    using base64_encoding.clean [OF assms, of _ der] by (auto simp: plain_def is_fws_def)
  have "split_on CHR '';'' (''v=DKIM1; k=rsa; p='' @ ?b) = [''v=DKIM1'', '' k=rsa'', '' p='' @ ?b]"
    using plain_clean [OF b] by simp
  moreover have "tag ('' k=rsa'') = (''k'', ''rsa'')" "tag ''v=DKIM1'' = (''v'', ''DKIM1'')"
    by code_simp+
  moreover have "tag ('' p='' @ ?b) = (''p'', ?b)"
    using tag_sep [of "'' ''" "''p='' @ ?b"] tag_plain [of "''p''" ?b] b by (simp add: is_fws_def)
  ultimately show "tags (record_value ossl der) = [(''v'', ''DKIM1''), (''k'', ''rsa''), (''p'', ?b)]"
    unfolding tags_def record_value_def by simp
  show "b \<in> set (record_value ossl der) \<Longrightarrow> b \<noteq> DQUOTE \<and> b \<noteq> BACKSLASH"
    using base64_encoding.alphabet [OF assms, of der]
    by (auto simp: record_value_def base64_alphabet_def)
qed

section \<open>A concrete generation\<close>

definition sample_keygen :: "(unit, unit) rsa_keygen" where
  "sample_keygen = \<lparr>ctx_new = Inr (), ctx_keygen_init = Inr, ctx_set_bits = (\<lambda>c b. Inr c), ctx_keygen = Inr,
     public_key_to_der = (\<lambda>k. Inr ''der''), private_key_to_pem = (\<lambda>k. Inr ''pem'')\<rparr>"

definition sample_options :: generate_options where
  "sample_options = \<lparr>go_domain = ''ex.org.'', go_selector = ''s'', go_private_key = ''/k/a'', go_bits = 2048,
     go_require_fips = False\<rparr>"

definition sample_world :: fs_world where
  "sample_world = \<lparr>f_files = [[''k''] \<mapsto> Directory], f_others = (\<lambda>i f. f), f_faults = (\<lambda>i. None),
     f_calls = 0, f_sequence = 0\<rparr>"

lemma sample_generate:
  "\<exists>w' g. generate sample_openssl sample_keygen (Inr ()) (\<lambda>m. m) 7 sample_options sample_world = (Inr g, w') \<and>
     g = \<lparr>gk_domain = ''ex.org'', gk_selector = ''s'', gk_private_key = ''/k/a'', gk_bits = 2048,
       gk_dns_record = dns_record sample_openssl ''ex.org'' ''s'' ''der''\<rparr> \<and> f_files w' [''k'', ''a''] = Some (Regular key_mode ''pem'')"
proof -
  let ?x = "generate sample_openssl sample_keygen (Inr ()) (\<lambda>m. m) 7 sample_options sample_world"
  have "fst ?x = Inr \<lparr>gk_domain = ''ex.org'', gk_selector = ''s'', gk_private_key = ''/k/a'', gk_bits = 2048,
       gk_dns_record = dns_record sample_openssl ''ex.org'' ''s'' ''der''\<rparr>"
    "f_files (snd ?x) [''k'', ''a''] = Some (Regular key_mode ''pem'')"
    by code_simp+
  then show ?thesis
    by (metis prod.collapse)
qed

lemma sample_world: "quiet sample_world" "faultless sample_world" "create_only (f_others sample_world)"
  by (simp_all add: quiet_def faultless_def create_only_def sample_world_def)

section \<open>Properties\<close>

text \<open>C19: key generation never overwrites: whichever system calls fail, and whatever paths other
  processes create meanwhile, every path that existed keeps its node. If it succeeds, the output
  path was free, and holds the PEM encoding of an RSA key of 256 to 512 bytes with mode 0600.\<close>

theorem generate_preserves:
  assumes "create_only (f_others w)" and "generate ossl kg fips umask pid options w = (r, w')"
  shows "(\<forall>q n. f_files w q = Some n \<longrightarrow> f_files w' q = Some n) \<and>
    (\<forall>g. r = Inr g \<longrightarrow> f_files w (path_components (gk_private_key g)) = None \<and>
      (\<exists>key pem. private_key_to_pem kg key = Inr pem \<and> key_ok ossl key \<and>
        f_files w' (path_components (gk_private_key g)) = Some (Regular key_mode pem)))"
  using assms(2)
proof (cases rule: generate_cases)
  case (written domain selector key der pem r1)
  have "holds (f_files w) w'" and "\<forall>u. r1 = Inr u \<longrightarrow> f_files w (path_components (go_private_key options)) = None \<and>
      f_files w' (path_components (go_private_key options)) = Some (Regular key_mode pem)"
    using write_private_key_holds [OF written(10) holds_refl [OF assms(1)]] by auto
  then show ?thesis
    using written(7,9,11) validate_key_Inr [of ossl key] by (cases r1) (auto simp: holds_def)
qed simp

lemma generate_preserves_witness:
  "\<exists>w' g key pem. generate sample_openssl sample_keygen (Inr ()) (\<lambda>m. m) 7 sample_options sample_world = (Inr g, w') \<and>
     f_files w' [''k''] = Some Directory \<and> private_key_to_pem sample_keygen key = Inr pem \<and>
     key_ok sample_openssl key \<and> f_files w' (path_components (gk_private_key g)) = Some (Regular key_mode pem)"
proof -
  obtain w' g where w': "generate sample_openssl sample_keygen (Inr ()) (\<lambda>m. m) 7 sample_options sample_world = (Inr g, w')"
    using sample_generate by blast
  have "f_files sample_world [''k''] = Some Directory"
    by (simp add: sample_world_def)
  then show ?thesis
    using generate_preserves [OF sample_world(3) w'] w' by blast
qed

text \<open>C20: the output path is never seen half written: whichever calls fail, at whatever point,
  it is as it was or holds the whole key with mode 0600, and no other path but the temporary
  names changes.\<close>

theorem key_target_atomic:
  assumes "quiet w" and "write_private_key umask pid target contents w = (r, w')"
  shows "f_files w' target \<in> {f_files w target, Some (Regular key_mode contents)} \<and>
    (\<forall>q. q \<notin> insert target (scratch_paths pid target) \<longrightarrow> f_files w' q = f_files w q)"
  using write_private_key_target [OF assms(2,1)] by (auto simp: touches_def)

lemma key_target_atomic_witness:
  "f_files (snd (write_private_key (\<lambda>m. m) 7 [''k'', ''a''] ''pem''
      (sample_world\<lparr>f_faults := (\<lambda>i. if i = 4 then Some (Interrupted, 1) else None)\<rparr>))) [''k'', ''a'']
    \<in> {None, Some (Regular key_mode ''pem'')}"
  using key_target_atomic [OF _ surjective_pairing, of "sample_world\<lparr>f_faults := (\<lambda>i. if i = 4 then Some (Interrupted, 1) else None)\<rparr>"
      "\<lambda>m. m" 7 "[''k'', ''a'']" "''pem''"]
  by (simp add: sample_world_def quiet_def)

text \<open>C21: when nothing fails, a free output path in an existing directory gets the key, and
  nothing else in the file system changes: the temporary name is gone. One free name among
  the hundred tried is enough.\<close>

theorem generate_succeeds:
  assumes "validate_dns_name ''domain'' (go_domain options) = Inr domain"
    and "validate_dns_name ''selector'' (go_selector options) = Inr selector"
    and "go_bits options \<in> {2048, 3072, 4096}" and "starts_with ''/'' (go_private_key options)"
    and "generate_rsa kg (go_bits options) = Inr key" and "validate_key ossl key = Inr ()"
    and "public_key_to_der kg key = Inr der" and "private_key_to_pem kg key = Inr pem"
    and "quiet w" and "faultless w" and "path_components (go_private_key options) = parent @ [name]"
    and "f_files w (parent @ [name]) = None" and "f_files w parent = Some Directory"
    and "name \<noteq> ''..''" and "utf8_valid name" and "i < 100"
    and "f_files w (parent @ [temporary_name pid name (f_sequence w + of_nat i)]) = None"
  shows "\<exists>w'. generate ossl kg (Inr ()) umask pid options w =
      (Inr \<lparr>gk_domain = domain, gk_selector = selector, gk_private_key = go_private_key options,
        gk_bits = go_bits options, gk_dns_record = dns_record ossl domain selector der\<rparr>, w') \<and>
    f_files w' = (f_files w)(parent @ [name] \<mapsto> Regular key_mode pem)"
proof -
  obtain n s where "write_private_key umask pid (parent @ [name]) pem w =
      (Inr (), w\<lparr>f_files := (f_files w)(parent @ [name] \<mapsto> Regular key_mode pem), f_calls := n, f_sequence := s\<rparr>)"
    using write_private_key_succeeds [OF assms(9,10,12) _ assms(13) _ assms(15,16,17), of umask pem] assms(14)
    by (auto simp: path_parent_def path_file_name_def)
  then show ?thesis
    using assms(1-8,11) by (auto simp: generate_def and_then_def act_simps)
qed

lemma generate_succeeds_witness:
  "\<exists>w'. generate sample_openssl sample_keygen (Inr ()) (\<lambda>m. m) 7 sample_options sample_world =
      (Inr \<lparr>gk_domain = ''ex.org'', gk_selector = ''s'', gk_private_key = ''/k/a'',
        gk_bits = 2048, gk_dns_record = dns_record sample_openssl ''ex.org'' ''s'' ''der''\<rparr>, w') \<and>
    f_files w' = (f_files sample_world)([''k'', ''a''] \<mapsto> Regular key_mode ''pem'')"
proof -
  have "validate_dns_name ''domain'' (go_domain sample_options) = Inr ''ex.org''"
    "validate_dns_name ''selector'' (go_selector sample_options) = Inr ''s''"
    "validate_key sample_openssl () = Inr ()" "path_components (go_private_key sample_options) = [''k''] @ [''a'']"
    "generate_rsa sample_keygen (go_bits sample_options) = Inr ()"
    "starts_with ''/'' (go_private_key sample_options)" "utf8_valid ''a''"
    by code_simp+
  then show ?thesis
    using generate_succeeds [of sample_options "''ex.org''" "''s''" sample_keygen "()" sample_openssl "''der''" "''pem''"
        sample_world "[''k'']" "''a''" 0 7 "\<lambda>m. m"] sample_world(1,2)
    by (simp add: sample_options_def sample_world_def sample_keygen_def)
qed

text \<open>C31: the DNS record is usable: its quoted strings read back to at most 255 bytes each, and
  joined they are a DKIM key record whose \<open>p=\<close> tag is the Base64 of the public key.\<close>

theorem dns_record_reads:
  assumes "base64_encoding (encode_block ossl)"
  shows "\<exists>text ts. dns_record ossl domain selector der =
      selector @ ''._domainkey.'' @ domain @ ''. IN TXT '' @ text \<and>
    read_txt text = Some ts \<and> list_all (\<lambda>t. length t \<le> 255) ts \<and>
    tags (concat ts) = [(''v'', ''DKIM1''), (''k'', ''rsa''), (''p'', encode_block ossl der)]"
proof -
  let ?v = "record_value ossl der"
  let ?ts = "slice_chunks dns_chunk ?v"
  have n: "0 < dns_chunk" "dns_chunk \<le> 255"
    by (simp_all add: dns_chunk_def)
  have "read_txt (join '' '' (map (\<lambda>t. [DQUOTE] @ t @ [DQUOTE]) ?ts)) = Some ?ts"
    using slice_chunks(2) [OF n(1), of _ ?v] record_value_tags(2) [OF assms, of _ der]
    by (intro read_txt_join) blast
  moreover have "list_all (\<lambda>t. length t \<le> 255) ?ts"
    using slice_chunks(2) [OF n(1), of _ ?v] n(2) by (fastforce simp: list_all_iff)
  moreover have "tags (concat ?ts) = [(''v'', ''DKIM1''), (''k'', ''rsa''), (''p'', encode_block ossl der)]"
    using slice_chunks(1) [OF n(1), of ?v] record_value_tags(1) [OF assms] by simp
  ultimately show ?thesis
    by (auto simp: dns_record_def Let_def record_value_def)
qed

lemma dns_record_reads_witness:
  "\<exists>text ts. dns_record sample_openssl ''ex.org'' ''s'' ''der'' =
      ''s'' @ ''._domainkey.'' @ ''ex.org'' @ ''. IN TXT '' @ text \<and>
    read_txt text = Some ts \<and> list_all (\<lambda>t. length t \<le> 255) ts \<and>
    tags (concat ts) = [(''v'', ''DKIM1''), (''k'', ''rsa''), (''p'', encode_block sample_openssl ''der'')]"
  by (rule dns_record_reads [OF sample_openssl_laws(3)])

lemma write_private_key_fails_removal:
  assumes "quiet w" and "f_faults w = (\<lambda>i. if i = f_calls w + 7 then Some (e, n) else None)"
    and "f_files w target = None" and "path_parent target = Some parent" and "f_files w parent = Some Directory"
    and "path_file_name target = Some name" and "utf8_valid name"
    and "f_files w (parent @ [temporary_name pid name (f_sequence w)]) = None"
  shows "\<exists>w'. write_private_key umask pid target contents w = (Inl (Cannot_Remove_Temporary e), w') \<and>
    f_files w' = (f_files w)(target \<mapsto> Regular key_mode contents) \<and> f_others w' = f_others w"
proof -
  let ?t = "parent @ [temporary_name pid name (f_sequence w)]"
  have t: "target \<noteq> ?t"
    using file_name_not_temporary [OF assms(6)] by (auto simp: temporaries_def)
  have "(f_files w)(?t \<mapsto> Regular key_mode contents, target \<mapsto> Regular key_mode contents, ?t := None) =
      (f_files w)(target \<mapsto> Regular key_mode contents)"
    using t assms(8) by (auto simp: fun_eq_iff)
  moreover have "create_temporary (Suc k) umask pid parent name (w\<lparr>f_calls := f_calls w + 2\<rparr>) =
      (Inr ?t, w\<lparr>f_files := (f_files w)(?t \<mapsto> Regular key_mode []), f_calls := f_calls w + 4,
         f_sequence := f_sequence w + 1\<rparr>)" for k
    using assms
    by (cases w) (simp add: Let_def fs_create_new_def fs_set_permissions_def enter_call_def quiet_def)
  note this [of 99, simplified]
  ultimately show ?thesis
    using assms t
    by (cases w) (simp add: write_private_key_def fs_exists_def fs_is_dir_def install_key_def act_simps
        fs_write_all_def fs_sync_def fs_hard_link_def fs_remove_file_def enter_call_def quiet_def)
qed

lemma generate_existing:
  assumes "f_files v (path_components (go_private_key options)) = Some node" and "create_only (f_others v)"
    and "generate ossl kg fips umask pid options v = (r, v')"
  shows "(\<exists>e. r = Inl e) \<and> f_files v' (path_components (go_private_key options)) = Some node"
  using assms(3)
proof (cases rule: generate_cases)
  case (written domain selector key der pem r1)
  have "holds (f_files v) v'" "\<forall>u. r1 = Inr u \<longrightarrow> f_files v (path_components (go_private_key options)) = None"
    using write_private_key_holds [OF written(10) holds_refl [OF assms(2)]] by auto
  with assms(1) written(11) show ?thesis
    by (cases r1) (auto simp: holds_def)
qed (use assms(1) in simp)

text \<open>C39: if only the removal of the temporary name fails, \<open>generate\<close> reports an error although
  the private key is installed at the output path, so the DNS record, which only a success returns, is lost with
  the run. No later run for this path, whatever its options, its key and its failures, succeeds or changes the key; and
  where nothing fails, the same run refuses to overwrite it.\<close>

theorem key_left_after_failed_removal:
  assumes "validate_dns_name ''domain'' (go_domain options) = Inr domain"
    and "validate_dns_name ''selector'' (go_selector options) = Inr selector"
    and "go_bits options \<in> {2048, 3072, 4096}" and "starts_with ''/'' (go_private_key options)"
    and "generate_rsa kg (go_bits options) = Inr key" and "validate_key ossl key = Inr ()"
    and "public_key_to_der kg key = Inr der" and "private_key_to_pem kg key = Inr pem"
    and "quiet w" and "f_faults w = (\<lambda>i. if i = f_calls w + 7 then Some (e, n) else None)"
    and "path_components (go_private_key options) = parent @ [name]"
    and "f_files w (parent @ [name]) = None" and "f_files w parent = Some Directory"
    and "name \<noteq> ''..''" and "utf8_valid name" and "f_files w (parent @ [temporary_name pid name (f_sequence w)]) = None"
  shows "\<exists>w'. generate ossl kg (Inr ()) umask pid options w = (Inl (Cannot_Remove_Temporary e), w') \<and>
    f_files w' = (f_files w)(parent @ [name] \<mapsto> Regular key_mode pem) \<and>
    (\<forall>(kg' :: ('c, 'k) rsa_keygen) fips umask' pid' again v r v'. go_private_key again = go_private_key options \<and> f_files v = f_files w' \<and>
       create_only (f_others v) \<and> generate ossl kg' fips umask' pid' again v = (r, v') \<longrightarrow>
       (\<exists>e'. r = Inl e') \<and> f_files v' (parent @ [name]) = Some (Regular key_mode pem)) \<and>
    fst (generate ossl kg (Inr ()) umask pid options (w'\<lparr>f_faults := \<lambda>i. None\<rparr>)) = Inl (Would_Overwrite (parent @ [name]))"
proof -
  let ?t = "parent @ [name]"
  obtain w' where w': "write_private_key umask pid ?t pem w = (Inl (Cannot_Remove_Temporary e), w')"
    "f_files w' = (f_files w)(?t \<mapsto> Regular key_mode pem)" "f_others w' = f_others w"
    using write_private_key_fails_removal [OF assms(9,10,12) _ assms(13) _ assms(15,16), of umask pem] assms(14)
    by (auto simp: path_parent_def path_file_name_def)
  have "generate ossl kg (Inr ()) umask pid options v =
      bind_act (write_private_key umask pid ?t pem) (\<lambda>_. ok \<lparr>gk_domain = domain, gk_selector = selector,
        gk_private_key = go_private_key options, gk_bits = go_bits options,
        gk_dns_record = dns_record ossl domain selector der\<rparr>) v" for v
    using assms(1-8,11) by (auto simp: generate_def and_then_def)
  note run = this [of w] this [of "w'\<lparr>f_faults := \<lambda>i. None\<rparr>"]
  have again: "write_private_key umask pid ?t pem (w'\<lparr>f_faults := \<lambda>i. None\<rparr>) =
      (Inl (Would_Overwrite ?t), w'\<lparr>f_faults := \<lambda>i. None, f_calls := Suc (f_calls w')\<rparr>)"
    using assms(9) w'(2,3) by (simp add: write_private_key_def fs_exists_def enter_call_def quiet_def)
  have later: "(\<exists>e'. r = Inl e') \<and> f_files v' ?t = Some (Regular key_mode pem)"
    if "go_private_key again = go_private_key options" "f_files v = f_files w'" "create_only (f_others v)"
      "generate ossl kg' fips umask' pid' again v = (r, v')" for kg' fips umask' pid' again v r v'
    using generate_existing [OF _ that(3,4), of "Regular key_mode pem"] that(1,2) w'(2) assms(11) by simp
  show ?thesis
  proof (intro exI [of _ w'] conjI)
    show "generate ossl kg (Inr ()) umask pid options w = (Inl (Cannot_Remove_Temporary e), w')"
      using run(1) w'(1) by (simp add: act_simps)
    show "fst (generate ossl kg (Inr ()) umask pid options (w'\<lparr>f_faults := \<lambda>i. None\<rparr>)) = Inl (Would_Overwrite ?t)"
      using run(2) again by (simp add: act_simps)
  qed (fact w'(2), (intro allI impI, elim conjE, rule later; assumption))
qed

lemma key_left_after_failed_removal_witness:
  "\<exists>w'. generate sample_openssl sample_keygen (Inr ()) (\<lambda>m. m) 7 sample_options
      (sample_world\<lparr>f_faults := (\<lambda>i. if i = 7 then Some (Interrupted, 0) else None)\<rparr>) =
      (Inl (Cannot_Remove_Temporary Interrupted), w') \<and>
    fst (generate sample_openssl sample_keygen (Inr ()) (\<lambda>m. m) 7 sample_options (w'\<lparr>f_faults := \<lambda>i. None\<rparr>)) =
      Inl (Would_Overwrite [''k'', ''a''])"
proof -
  let ?w = "sample_world\<lparr>f_faults := (\<lambda>i. if i = 7 then Some (Interrupted, 0) else None)\<rparr>"
  have options: "validate_dns_name ''domain'' (go_domain sample_options) = Inr ''ex.org''"
    "validate_dns_name ''selector'' (go_selector sample_options) = Inr ''s''"
    "starts_with ''/'' (go_private_key sample_options)"
    "generate_rsa sample_keygen (go_bits sample_options) = Inr ()" "validate_key sample_openssl () = Inr ()"
    "public_key_to_der sample_keygen () = Inr ''der''" "private_key_to_pem sample_keygen () = Inr ''pem''"
    "path_components (go_private_key sample_options) = [''k''] @ [''a'']"
    "''a'' \<noteq> ''..''" "utf8_valid ''a''"
    by code_simp+
  have bits: "go_bits sample_options \<in> {2048, 3072, 4096}"
    by (simp add: sample_options_def)
  have w: "quiet ?w" "f_faults ?w = (\<lambda>i. if i = f_calls ?w + 7 then Some (Interrupted, 0) else None)"
    "f_files ?w ([''k''] @ [''a'']) = None" "f_files ?w [''k''] = Some Directory"
    "f_files ?w ([''k''] @ [temporary_name 7 ''a'' (f_sequence ?w)]) = None"
    by (simp_all add: sample_world_def quiet_def)
  from key_left_after_failed_removal [OF options(1,2) bits options(3-7) w(1,2) options(8) w(3,4) options(9,10) w(5),
      of "\<lambda>m. m"]
  show ?thesis
    by (elim exE conjE) (intro exI conjI, assumption, simp)
qed

text \<open>C38: a generated key is one the daemon loads: a configuration that names the generated domain,
  selector and key file, with any listener, is accepted, and signs with the generated key.\<close>

theorem generated_key_loads:
  assumes "create_only (f_others w)" and "generate ossl kg fips umask pid options w = (Inr g, w')"
    and "\<And>key pem. private_key_to_pem kg key = Inr pem \<Longrightarrow> private_key_from_pem ossl pem = Inr key"
    and "\<And>mode bs. f_files w' (path_components (gk_private_key g)) = Some (Regular mode bs) \<Longrightarrow>
      read (gk_private_key g) = Inr bs"
    and "d_domain d = Some (gk_domain g)" and "d_selector d = Some (gk_selector g)"
    and "d_private_key d = Some (gk_private_key g)" and "d_listen d = Some listen"
  shows "\<exists>key c. generate_rsa kg (gk_bits g) = Inr key \<and> finish_load ossl read d = Inr c \<and>
    cfg_key c = key \<and> cfg_domain c = gk_domain g \<and> cfg_selector c = gk_selector g"
  using assms(2)
proof (cases rule: generate_cases)
  case (written domain selector key der pem r1)
  then have g: "r1 = Inr ()" "gk_private_key g = go_private_key options" "gk_bits g = go_bits options"
    "gk_domain g = domain" "gk_selector g = selector"
    by (cases r1; simp)+
  have "f_files w' (path_components (gk_private_key g)) = Some (Regular key_mode pem)"
    using write_private_key_holds [OF written(10) holds_refl [OF assms(1)]] g by simp
  then have "read (gk_private_key g) = Inr pem"
    by (rule assms(4))
  then show ?thesis
    using written(5-7) assms(3) [OF written(9)] assms(5-8) g by (simp add: finish_load_def ok_or_def and_then_def)
qed simp

lemma generated_key_loads_witness:
  "\<exists>(g :: generated_key) key c. generate_rsa sample_keygen (gk_bits g) = Inr key \<and>
    finish_load sample_openssl (\<lambda>p. Inr ''pem'')
      \<lparr>d_seen = [], d_domain = Some (gk_domain g), d_selector = Some (gk_selector g),
        d_private_key = Some (gk_private_key g), d_listen = Some (Unix_Addr ''/s''), d_require_fips = False\<rparr> = Inr c \<and>
    cfg_key c = key \<and> gk_domain g = ''ex.org'' \<and> cfg_domain c = ''ex.org''"
proof -
  obtain w' g where w': "generate sample_openssl sample_keygen (Inr ()) (\<lambda>m. m) 7 sample_options sample_world = (Inr g, w')"
    and g: "gk_domain g = ''ex.org''" "gk_private_key g = ''/k/a''" and f: "f_files w' [''k'', ''a''] = Some (Regular key_mode ''pem'')"
    using sample_generate by auto
  let ?d = "\<lparr>d_seen = [], d_domain = Some (gk_domain g), d_selector = Some (gk_selector g),
    d_private_key = Some (gk_private_key g), d_listen = Some (Unix_Addr ''/s''), d_require_fips = False\<rparr>"
  have p: "path_components ''/k/a'' = [''k'', ''a'']"
    by code_simp
  have "\<exists>key c. generate_rsa sample_keygen (gk_bits g) = Inr key \<and>
      finish_load sample_openssl (\<lambda>p. Inr ''pem'') ?d = Inr c \<and>
      cfg_key c = key \<and> cfg_domain c = gk_domain g \<and> cfg_selector c = gk_selector g"
    by (rule generated_key_loads [OF sample_world(3) w'])
      (use g f p in \<open>simp_all add: sample_openssl_def transcript_openssl_def\<close>)
  with g(1) show ?thesis
    by (intro exI [of _ g]) auto
qed

end
