(* ===== verification/Listener.thy ===== *)
theory Listener
  imports Filesystem Connection
begin

text \<open>
  The listening socket of src/milter.rs: \<open>Listener::bind\<close>, \<open>accept\<close> and \<open>wait_readable\<close>, and
  \<open>drain_backlog\<close>, the loop that empties the accept backlog.

  The lemmas show that binding removes nothing but a stale socket, unless another process replaces the
  socket while it runs, and leaves a socket with mode 0660, that waiting retries interruptions only, and that draining a backlog that never ends
  stops within one accept of the shutdown flag.
\<close>

section \<open>Listener::bind\<close>

datatype listener = Tcp_Listener socket_addr | Unix_Listener path

datatype serve_error =
    Tcp_Bind socket_addr io_error
  | Tcp_Configure io_error
  | Not_A_Socket path
  | Cannot_Remove_Stale path io_error
  | Unix_Bind path io_error
  | Cannot_Set_Mode path io_error
  | Unix_Configure io_error
  | Readiness_Failed io_error
  | Listener_Failed io_error
  | Worker_Panicked

text \<open>Mode 0660.\<close>

definition socket_mode :: nat where
  "socket_mode = 6 * 8 * 8 + 6 * 8"

definition is_socket :: "node \<Rightarrow> bool" where
  "is_socket n = (case n of Socket _ \<Rightarrow> True | _ \<Rightarrow> False)"

text \<open>\<open>tcp_bind\<close> and \<open>set_nonblocking\<close> are the answers of the system calls of those names.\<close>

definition listener_bind ::
  "(nat \<Rightarrow> nat) \<Rightarrow> (socket_addr \<Rightarrow> io_error + unit) \<Rightarrow> io_error + unit \<Rightarrow> listen_addr
    \<Rightarrow> (fs_world, serve_error, listener) act" where
  "listener_bind umask tcp_bind set_nonblocking address =
     (case address of
        Tcp_Addr sa \<Rightarrow> (\<lambda>w.
          (and_then (map_sum (Tcp_Bind sa) id (tcp_bind sa)) (\<lambda>_.
           and_then (map_sum Tcp_Configure id set_nonblocking) (\<lambda>_. Inr (Tcp_Listener sa))), w))
      | Unix_Addr p \<Rightarrow>
          let path = path_components p;
              rest = bind_act (map_err (Unix_Bind path) (fs_bind_socket umask path)) (\<lambda>_.
                bind_act (map_err (Cannot_Set_Mode path) (fs_set_permissions path socket_mode)) (\<lambda>_ w.
                (map_sum Unix_Configure (\<lambda>_. Unix_Listener path) set_nonblocking, w)))
          in (\<lambda>w. case fs_symlink_metadata path w of
                (Inr metadata, w) \<Rightarrow>
                  if \<not> is_socket metadata then (Inl (Not_A_Socket path), w)
                  else bind_act (map_err (Cannot_Remove_Stale path) (fs_remove_file path)) (\<lambda>_. rest) w
              | (Inl _, w) \<Rightarrow> rest w))"

section \<open>The accepted stream\<close>

text \<open>The options of a socket that the program sets; the timeouts are in nanoseconds. A Unix stream has no
  use for \<open>st_nodelay\<close>.\<close>

record stream =
  st_nonblocking :: bool
  st_nodelay :: bool
  st_read_timeout :: "nat option"
  st_write_timeout :: "nat option"

text \<open>The enum \<open>Connection\<close>. What travels over it is the subject of the theory \<open>Connection\<close>.\<close>

datatype connection = Tcp_Stream stream | Unix_Stream stream

fun connection_stream :: "connection \<Rightarrow> stream" where
  "connection_stream (Tcp_Stream s) = s"
| "connection_stream (Unix_Stream s) = s"

text \<open>The answers of the calls on the accepted stream, and the options that the kernel gives it;
  \<open>set_nodelay\<close> is only made for TCP.\<close>

record 'c accept_calls =
  ac_accept :: "io_error + 'c"
  ac_stream :: stream
  ac_set_blocking :: "io_error + unit"
  ac_set_nodelay :: "io_error + unit"
  ac_set_read_timeout :: "io_error + unit"
  ac_set_write_timeout :: "io_error + unit"

text \<open>A call that sets an option when it succeeds.\<close>

definition set_option :: "io_error + unit \<Rightarrow> ('s \<Rightarrow> 's) \<Rightarrow> ('s, io_error, unit) act" where
  "set_option answer f s = (case answer of Inl e \<Rightarrow> (Inl e, s) | Inr _ \<Rightarrow> (Inr (), f s))"

text \<open>An operation on the stream inside a connection.\<close>

fun on_stream :: "(stream, io_error, unit) act \<Rightarrow> (connection, io_error, unit) act" where
  "on_stream m (Tcp_Stream s) = apsnd Tcp_Stream (m s)"
| "on_stream m (Unix_Stream s) = apsnd Unix_Stream (m s)"

definition set_blocking :: "'c accept_calls \<Rightarrow> (connection, io_error, unit) act" where
  "set_blocking calls = on_stream (set_option (ac_set_blocking calls) (\<lambda>s. s\<lparr>st_nonblocking := False\<rparr>))"

definition set_timeouts :: "'c accept_calls \<Rightarrow> (connection, io_error, unit) act" where
  "set_timeouts calls connection =
     (let timeout = Some CONNECTION_TIMEOUT;
          set_nodelay = set_option (ac_set_nodelay calls) (\<lambda>s. s\<lparr>st_nodelay := True\<rparr>);
          set_read_timeout = set_option (ac_set_read_timeout calls) (\<lambda>s. s\<lparr>st_read_timeout := timeout\<rparr>);
          set_write_timeout = set_option (ac_set_write_timeout calls) (\<lambda>s. s\<lparr>st_write_timeout := timeout\<rparr>)
      in on_stream
        (case connection of
           Tcp_Stream _ \<Rightarrow>
             bind_act set_nodelay (\<lambda>_. bind_act set_read_timeout (\<lambda>_. set_write_timeout))
         | Unix_Stream _ \<Rightarrow> bind_act set_read_timeout (\<lambda>_. set_write_timeout)) connection)"

section \<open>Listener::accept\<close>

text \<open>The accepted connection; when a call on it fails, it is dropped and only the error is left.\<close>

definition accept_connection :: "listener \<Rightarrow> 'c accept_calls \<Rightarrow> io_error + 'c \<times> connection" where
  "accept_connection l calls =
     and_then (ac_accept calls) (\<lambda>c.
       let connection = (case l of Tcp_Listener _ \<Rightarrow> Tcp_Stream (ac_stream calls)
                         | Unix_Listener _ \<Rightarrow> Unix_Stream (ac_stream calls))
       in case bind_act (set_blocking calls) (\<lambda>_. set_timeouts calls) connection of
            (Inl e, _) \<Rightarrow> Inl e
          | (Inr _, connection) \<Rightarrow> Inr (c, connection))"

text \<open>What the accepting thread hands on: which connection it is.\<close>

definition listener_accept :: "listener \<Rightarrow> 'c accept_calls \<Rightarrow> io_error + 'c" where
  "listener_accept l calls = map_sum id fst (accept_connection l calls)"

lemmas accept_simps = listener_accept_def accept_connection_def set_blocking_def set_timeouts_def
  set_option_def and_then_def act_simps Let_def

section \<open>Listener::wait_readable\<close>

text \<open>What \<open>poll\<close> answers: a ready descriptor, with or without \<open>POLLIN\<close>, the timeout, or an error.
  The list holds the answers of successive calls; when it is used up, \<open>poll\<close> times out.\<close>

datatype poll_answer = Polled bool | Poll_Timeout | Poll_Fails io_error

fun wait_readable :: "poll_answer list \<Rightarrow> (io_error + bool) \<times> poll_answer list" where
  "wait_readable [] = (Inr False, [])"
| "wait_readable (Polled pollin # ps) = (Inr pollin, ps)"
| "wait_readable (Poll_Timeout # ps) = (Inr False, ps)"
| "wait_readable (Poll_Fails e # ps) = (if e \<noteq> Interrupted then (Inl e, ps) else wait_readable ps)"

section \<open>drain_backlog\<close>

text \<open>\<open>shutdown\<close> loads the flag, and may change between loads; \<open>accept\<close> and \<open>wait_readable\<close> are the
  closures. The loop may run forever: then the result is \<open>None\<close>.\<close>

partial_function (option) drain_backlog ::
  "('w \<Rightarrow> bool \<times> 'w) \<Rightarrow> ('w, io_error, unit) act \<Rightarrow> ('w, io_error, bool) act \<Rightarrow> 'w
    \<Rightarrow> ((serve_error + unit) \<times> 'w) option" where
  "drain_backlog shutdown accept readable w =
     (case shutdown w of (stop, w) \<Rightarrow>
        if stop then Some (Inr (), w)
        else (case accept w of (result, w) \<Rightarrow>
          (case result of
             Inr _ \<Rightarrow>
               (case readable w of (answer, w) \<Rightarrow>
                 (case answer of
                    Inl e \<Rightarrow> Some (Inl (Readiness_Failed e), w)
                  | Inr again \<Rightarrow>
                      if \<not> again then Some (Inr (), w) else drain_backlog shutdown accept readable w))
           | Inl e \<Rightarrow>
               if e = Would_Block then Some (Inr (), w)
               else (case shutdown w of (stop, w) \<Rightarrow>
                 if stop then Some (Inr (), w) else Some (Inl (Listener_Failed e), w)))))"

section \<open>The closures of serve\<close>

text \<open>\<open>b_flag\<close> is the shutdown flag at its i-th load. \<open>b_accepts\<close> and \<open>b_polls\<close> answer the i-th
  \<open>accept\<close> and the i-th \<open>wait_readable\<close>; \<open>b_taken\<close> is how many connections the workers take from the
  queue before the i-th \<open>try_send\<close>. \<open>b_dropped\<close> counts the lines "worker queue full".\<close>

record 'c backlog =
  b_flag :: "nat \<Rightarrow> bool"
  b_loads :: nat
  b_accepts :: "nat \<Rightarrow> 'c accept_calls"
  b_polls :: "nat \<Rightarrow> poll_answer list"
  b_taken :: "nat \<Rightarrow> nat"
  b_accept_count :: nat
  b_poll_count :: nat
  b_queue :: "'c list"
  b_dropped :: nat

definition load_shutdown :: "'c backlog \<Rightarrow> bool \<times> 'c backlog" where
  "load_shutdown w = (b_flag w (b_loads w), w\<lparr>b_loads := Suc (b_loads w)\<rparr>)"

text \<open>\<open>try_send\<close> on a channel of the given capacity.\<close>

definition try_send :: "nat \<Rightarrow> 'c \<Rightarrow> 'c list \<Rightarrow> 'c list option" where
  "try_send capacity c q = (if length q < capacity then Some (q @ [c]) else None)"

definition serve_accept :: "listener \<Rightarrow> nat \<Rightarrow> ('c backlog, io_error, unit) act" where
  "serve_accept l capacity w =
     (let i = b_accept_count w;
          w = w\<lparr>b_accept_count := Suc i, b_queue := drop (b_taken w i) (b_queue w)\<rparr>
      in case listener_accept l (b_accepts w i) of
           Inl e \<Rightarrow> (Inl e, w)
         | Inr connection \<Rightarrow>
             (case try_send capacity connection (b_queue w) of
                Some q \<Rightarrow> (Inr (), w\<lparr>b_queue := q\<rparr>)
              | None \<Rightarrow> (Inr (), w\<lparr>b_dropped := Suc (b_dropped w)\<rparr>)))"

definition serve_readable :: "('c backlog, io_error, bool) act" where
  "serve_readable w =
     (fst (wait_readable (b_polls w (b_poll_count w))), w\<lparr>b_poll_count := Suc (b_poll_count w)\<rparr>)"

lemma serve_accept_world:
  assumes "serve_accept l capacity w = (r, w')"
  shows "b_flag w' = b_flag w" and "b_loads w' = b_loads w" and "b_accept_count w' = Suc (b_accept_count w)"
    and "length (b_queue w) \<le> capacity \<Longrightarrow> length (b_queue w') \<le> capacity"
  using assms by (auto simp: serve_accept_def Let_def try_send_def split: sum.splits if_splits)

lemma serve_readable_world:
  assumes "serve_readable w = (r, w')"
  shows "b_flag w' = b_flag w" and "b_loads w' = b_loads w" and "b_accept_count w' = b_accept_count w"
    and "b_queue w' = b_queue w"
  using assms by (auto simp: serve_readable_def)

section \<open>Draining ends\<close>

lemma drain_backlog_ends:
  assumes "\<And>i. n \<le> i \<Longrightarrow> b_flag w i" and "length (b_queue w) \<le> capacity"
  shows "\<exists>r w'. drain_backlog load_shutdown (serve_accept l capacity) serve_readable w = Some (r, w') \<and>
    b_accept_count w' \<le> b_accept_count w + (n - b_loads w) \<and> length (b_queue w') \<le> capacity"
  using assms
proof (induction "n - b_loads w" arbitrary: w rule: less_induct)
  case less
  show ?case
  proof (cases "b_flag w (b_loads w)")
    case True
    with less.prems(2) show ?thesis
      by (simp add: drain_backlog.simps [of _ _ _ w] load_shutdown_def)
  next
    case False
    then have n: "b_loads w < n"
      using less.prems(1) not_less by blast
    define w1 where "w1 = w\<lparr>b_loads := Suc (b_loads w)\<rparr>"
    obtain r2 w2 where 2: "serve_accept l capacity w1 = (r2, w2)"
      by (cases "serve_accept l capacity w1")
    note w2 = serve_accept_world [OF 2]
    obtain r3 w3 where 3: "serve_readable w2 = (r3, w3)"
      by (cases "serve_readable w2")
    note w3 = serve_readable_world [OF 3]
    have q: "length (b_queue w2) \<le> capacity" "length (b_queue w3) \<le> capacity"
      using w2(4) w3(4) less.prems(2) by (simp_all add: w1_def)
    have "n - b_loads w3 < n - b_loads w" "\<And>i. n \<le> i \<Longrightarrow> b_flag w3 i"
      using n w2 w3 less.prems(1) by (simp_all add: w1_def)
    then obtain r w' where "drain_backlog load_shutdown (serve_accept l capacity) serve_readable w3 = Some (r, w')"
      "b_accept_count w' \<le> b_accept_count w3 + (n - b_loads w3)" "length (b_queue w') \<le> capacity"
      using less.hyps [of w3] q(2) by blast
    moreover have "b_accept_count w3 + (n - b_loads w3) \<le> b_accept_count w + (n - b_loads w)"
      "b_accept_count w2 \<le> b_accept_count w + (n - b_loads w)"
      using n w2 w3 by (simp_all add: w1_def)
    ultimately show ?thesis
      using False 2 3 q w2 w3 n
      by (cases r2; cases r3) (auto simp: drain_backlog.simps [of _ _ _ w] load_shutdown_def w1_def)
  qed
qed

section \<open>Binding\<close>

text \<open>What is bound, and what other processes may create meanwhile, stays; the stale socket aside.\<close>

definition bind_socket_at ::
  "(nat \<Rightarrow> nat) \<Rightarrow> io_error + unit \<Rightarrow> path \<Rightarrow> (fs_world, serve_error, listener) act" where
  "bind_socket_at umask set_nonblocking path =
     bind_act (map_err (Unix_Bind path) (fs_bind_socket umask path)) (\<lambda>_.
     bind_act (map_err (Cannot_Set_Mode path) (fs_set_permissions path socket_mode)) (\<lambda>_ w.
     (map_sum Unix_Configure (\<lambda>_. Unix_Listener path) set_nonblocking, w)))"

lemma bind_socket_at_holds:
  assumes "bind_socket_at umask nonblocking p w = (r, w')" and "holds F w"
  shows "holds F w' \<and> (F p \<noteq> None \<longrightarrow> (\<exists>e. r = Inl e)) \<and>
    (\<forall>l. r = Inr l \<longrightarrow> l = Unix_Listener p \<and> f_files w' p = Some (Socket socket_mode))"
proof -
  obtain x w1 where 1: "fs_bind_socket umask p w = (x, w1)"
    by (cases "fs_bind_socket umask p w")
  note h1 = fs_bind_socket_holds [OF 1 assms(2)]
  show ?thesis
  proof (cases x)
    case (Inl e)
    with assms(1) 1 h1 show ?thesis
      by (auto simp: bind_socket_at_def act_simps)
  next
    case (Inr u)
    then obtain m where m: "F p = None" "holds (F(p \<mapsto> Socket m)) w1"
      using h1 by auto
    obtain y w2 where 2: "fs_set_permissions p socket_mode w1 = (y, w2)"
      by (cases "fs_set_permissions p socket_mode w1")
    note h2 = fs_set_permissions_socket_holds [OF 2 m(2)]
    have "holds F w2"
      using h2 m(1) by (cases y) (auto dest: holds_unbind [where F = F])
    moreover have "w' = w2" "r = (case y of Inl e \<Rightarrow> Inl (Cannot_Set_Mode p e)
        | Inr _ \<Rightarrow> map_sum Unix_Configure (\<lambda>_. Unix_Listener p) nonblocking)"
      using assms(1) 1 2 Inr by (auto simp: bind_socket_at_def act_simps split: sum.splits)
    moreover have "f_files w2 p = Some (Socket socket_mode)" if "y = Inr v" for v
      using h2 that by (simp add: holds_def)
    ultimately show ?thesis
      using m(1) by (cases y; cases nonblocking) auto
  qed
qed

lemma listener_bind_unix:
  assumes "listener_bind umask tcp_bind nonblocking (Unix_Addr p) w = (r, w')" and "holds F w"
    and "\<And>n. F (path_components p) = Some n \<Longrightarrow> \<not> is_socket n"
  shows "holds F w' \<and> (F (path_components p) \<noteq> None \<longrightarrow> (\<exists>e. r = Inl e)) \<and>
    (\<forall>l. r = Inr l \<longrightarrow> l = Unix_Listener (path_components p) \<and>
      f_files w' (path_components p) = Some (Socket socket_mode))"
proof -
  let ?p = "path_components p"
  obtain x w1 where 1: "fs_symlink_metadata ?p w = (x, w1)"
    by (cases "fs_symlink_metadata ?p w")
  note h1 = fs_symlink_metadata_holds [OF 1 assms(2)]
  have run: "(case x of
      Inr metadata \<Rightarrow> if \<not> is_socket metadata then (Inl (Not_A_Socket ?p), w1)
        else bind_act (map_err (Cannot_Remove_Stale ?p) (fs_remove_file ?p)) (\<lambda>_. bind_socket_at umask nonblocking ?p) w1
    | Inl _ \<Rightarrow> bind_socket_at umask nonblocking ?p w1) = (r, w')"
    using assms(1) 1 by (auto simp: listener_bind_def bind_socket_at_def Let_def split: sum.splits)
  show ?thesis
  proof (cases x)
    case (Inl e)
    with run bind_socket_at_holds [of umask nonblocking ?p w1 r w' F] h1 show ?thesis
      by simp
  next
    case (Inr n)
    show ?thesis
    proof (cases "is_socket n")
      case True
      then have free: "F ?p = None"
        using h1 Inr assms(3) by (cases "F ?p") auto
      obtain y w2 where 2: "fs_remove_file ?p w1 = (y, w2)"
        by (cases "fs_remove_file ?p w1")
      have "holds F w2"
        using fs_remove_file_holds [of ?p w1 y w2 F] 2 free h1 by blast
      with run Inr True 2 bind_socket_at_holds [of umask nonblocking ?p w2 r w' F] free show ?thesis
        by (cases y) (auto simp: act_simps)
    qed (use run Inr h1 in auto)
  qed
qed

section \<open>Properties\<close>

text \<open>C26: binding a Unix listener replaces nothing but a socket, whichever calls fail and whatever other processes
  create at any moment, as long as they do not remove or replace what exists: a path that holds a file, a directory
  or anything else is left alone and reported, every other path keeps what it holds, and a listener that
  is returned has its socket at the path with mode 0660.\<close>

theorem bind_replaces_only_sockets:
  assumes "create_only (f_others w)"
    and "listener_bind umask tcp_bind nonblocking (Unix_Addr p) w = (r, w')"
  shows "(\<forall>q n. f_files w q = Some n \<longrightarrow> q \<noteq> path_components p \<or> \<not> is_socket n \<longrightarrow> f_files w' q = Some n) \<and>
    (\<forall>n. f_files w (path_components p) = Some n \<longrightarrow> \<not> is_socket n \<longrightarrow> (\<exists>e. r = Inl e)) \<and>
    (\<forall>l. r = Inr l \<longrightarrow> l = Unix_Listener (path_components p) \<and>
      f_files w' (path_components p) = Some (Socket socket_mode))"
proof -
  let ?p = "path_components p"
  define F where "F q = (if q = ?p \<and> pred_option is_socket (f_files w ?p) then None else f_files w q)" for q
  have "holds F w"
    using assms(1) by (simp add: holds_def F_def)
  moreover have "\<not> is_socket n" if "F ?p = Some n" for n
    using that by (auto simp: F_def split: if_splits)
  ultimately have "holds F w' \<and> (F ?p \<noteq> None \<longrightarrow> (\<exists>e. r = Inl e)) \<and>
    (\<forall>l. r = Inr l \<longrightarrow> l = Unix_Listener ?p \<and> f_files w' ?p = Some (Socket socket_mode))"
    using listener_bind_unix [OF assms(2)] by blast
  moreover have "F q = Some n" if "f_files w q = Some n" "q \<noteq> ?p \<or> \<not> is_socket n" for q n
    using that by (auto simp: F_def)
  ultimately show ?thesis
    by (auto simp: holds_def)
qed

text \<open>In the witness another process creates a file beside the path before each call.\<close>

lemma bind_replaces_only_sockets_witness:
  "\<exists>e. fst (listener_bind (\<lambda>m. m) (\<lambda>a. Inr ()) (Inr ()) (Unix_Addr ''/k'')
     \<lparr>f_files = [[''k''] \<mapsto> Regular 0 ''x''],
      f_others = (\<lambda>i f. if f [''a''] = None then f([''a''] \<mapsto> Regular i []) else f),
      f_faults = (\<lambda>i. None), f_calls = 0, f_sequence = 0\<rparr>) = Inl e"
proof -
  let ?w = "\<lparr>f_files = [[''k''] \<mapsto> Regular 0 ''x''],
    f_others = (\<lambda>i f. if f [''a''] = None then f([''a''] \<mapsto> Regular i []) else f),
    f_faults = (\<lambda>i. None), f_calls = 0, f_sequence = 0\<rparr>"
  have "create_only (f_others ?w)" and p: "path_components ''/k'' = [''k'']"
    by (simp add: create_only_def) code_simp
  from bind_replaces_only_sockets [OF this(1) surjective_pairing, where p = "''/k''" and umask = "\<lambda>m. m"
      and tcp_bind = "\<lambda>a. Inr ()" and nonblocking = "Inr ()"]
  show ?thesis
    unfolding p by (auto simp: is_socket_def)
qed

text \<open>The proviso is needed: the test and the removal are two system calls, and where another process replaces the
  stale socket by a file between them, the file is removed.\<close>

theorem bind_race:
  "\<exists>others. let w = \<lparr>f_files = [[''k''] \<mapsto> Socket 432], f_others = others, f_faults = (\<lambda>i. None), f_calls = 0, f_sequence = 0\<rparr>
     in others 1 (f_files w) [''k''] = Some (Regular 0 ''x'') \<and> (\<forall>i f. i \<noteq> 1 \<longrightarrow> others i f = f) \<and>
       fst (listener_bind (\<lambda>m. m) (\<lambda>a. Inr ()) (Inr ()) (Unix_Addr ''/k'') w) = Inr (Unix_Listener [''k'']) \<and>
       f_files (snd (listener_bind (\<lambda>m. m) (\<lambda>a. Inr ()) (Inr ()) (Unix_Addr ''/k'') w)) [''k''] = Some (Socket socket_mode)"
proof -
  have p: "path_components ''/k'' = [''k'']"
    by code_simp
  show ?thesis
    by (rule exI [of _ "\<lambda>i f. if i = 1 then f([''k''] \<mapsto> Regular 0 ''x'') else f"])
      (simp add: listener_bind_def p Let_def fs_symlink_metadata_def fs_remove_file_def fs_bind_socket_def
        fs_set_permissions_def enter_call_def act_simps is_socket_def)
qed

text \<open>Where nothing fails, binding succeeds exactly on a free path or over a socket: so a daemon can be started
  again on the socket that the one before has left behind.\<close>

theorem bind_succeeds:
  assumes "quiet w" and "faultless w"
    and "listener_bind umask tcp_bind (Inr ()) (Unix_Addr p) w = (r, w')"
  shows "(r = Inr (Unix_Listener (path_components p)) \<longleftrightarrow>
      (case f_files w (path_components p) of None \<Rightarrow> True | Some n \<Rightarrow> is_socket n)) \<and>
    quiet w' \<and> faultless w'"
  using assms
  by (auto simp: listener_bind_def Let_def fs_symlink_metadata_def fs_remove_file_def fs_bind_socket_def
      fs_set_permissions_def enter_call_def faultless_def quiet_def act_simps is_socket_def
      split: option.splits if_splits node.splits)

lemma bind_succeeds_witness:
  "fst (listener_bind (\<lambda>m. m) (\<lambda>a. Inr ()) (Inr ()) (Unix_Addr ''/k'')
     \<lparr>f_files = [[''k''] \<mapsto> Socket 432], f_others = (\<lambda>i f. f), f_faults = (\<lambda>i. None), f_calls = 0, f_sequence = 0\<rparr>) =
     Inr (Unix_Listener [''k''])"
proof -
  let ?w = "\<lparr>f_files = [[''k''] \<mapsto> Socket 432], f_others = (\<lambda>i f. f), f_faults = (\<lambda>i. None), f_calls = 0, f_sequence = 0\<rparr>"
  have w: "quiet ?w" "faultless ?w" and p: "path_components ''/k'' = [''k'']"
    by (simp_all add: quiet_def faultless_def) code_simp
  show ?thesis
    using bind_succeeds [OF w surjective_pairing, of "\<lambda>m. m" "\<lambda>a. Inr ()" "''/k''"] unfolding p
    by (simp add: is_socket_def)
qed

text \<open>C25: a backlog that is always readable cannot postpone shutdown: if the flag reads true from
  its n-th load on, draining returns, after at most as many accepts as loads were left, and
  the queue never exceeds its capacity.\<close>

theorem drain_backlog_terminates:
  assumes "\<And>i. n \<le> i \<Longrightarrow> b_flag w i" and "length (b_queue w) \<le> capacity"
  shows "\<exists>r w'. drain_backlog load_shutdown (serve_accept l capacity) serve_readable w = Some (r, w') \<and>
    b_accept_count w' \<le> b_accept_count w + (n - b_loads w) \<and> length (b_queue w') \<le> capacity"
  using assms by (rule drain_backlog_ends)

text \<open>The options a new socket has.\<close>

definition kernel_stream :: stream where
  "kernel_stream = \<lparr>st_nonblocking = False, st_nodelay = False, st_read_timeout = None, st_write_timeout = None\<rparr>"

definition sample_backlog :: "nat backlog" where
  "sample_backlog = \<lparr>b_flag = (\<lambda>i. 5 \<le> i), b_loads = 0,
     b_accepts = (\<lambda>i. \<lparr>ac_accept = Inr i, ac_stream = kernel_stream, ac_set_blocking = Inr (), ac_set_nodelay = Inl Invalid_Data,
       ac_set_read_timeout = Inr (), ac_set_write_timeout = Inr ()\<rparr>),
     b_polls = (\<lambda>i. [Poll_Fails Interrupted, Polled True]), b_taken = (\<lambda>i. 0), b_accept_count = 0,
     b_poll_count = 0, b_queue = [], b_dropped = 0\<rparr>"

lemma drain_backlog_terminates_witness:
  "\<exists>r w'. drain_backlog load_shutdown (serve_accept (Unix_Listener [''k'']) 4) serve_readable sample_backlog =
      Some (r, w') \<and> b_accept_count w' \<le> 5 \<and> length (b_queue w') \<le> 4"
  using drain_backlog_terminates [of 5 sample_backlog 4 "Unix_Listener [''k'']"]
  by (simp add: sample_backlog_def)

text \<open>One connection whose socket options cannot be set ends the service: an error of
  \<open>accept\<close> or of any call on the accepted stream, unless it is \<open>WouldBlock\<close> or shutdown has
  begun, is returned as a failure of the listener.\<close>

theorem accept_error_fatal:
  assumes "\<not> b_flag w (b_loads w)" and "\<not> b_flag w (Suc (b_loads w))"
    and "listener_accept l (b_accepts w (b_accept_count w)) = Inl e" and "e \<noteq> Would_Block"
  shows "\<exists>w'. drain_backlog load_shutdown (serve_accept l capacity) serve_readable w =
    Some (Inl (Listener_Failed e), w')"
  using assms by (simp add: drain_backlog.simps [of _ _ _ w] load_shutdown_def serve_accept_def Let_def)

lemma accept_error_fatal_witness:
  "\<exists>w'. drain_backlog load_shutdown
      (serve_accept (Tcp_Listener \<lparr>sa_ip = V4 127 0 0 1, sa_port = 1, sa_scope = 0\<rparr>) 4) serve_readable sample_backlog =
    Some (Inl (Listener_Failed Invalid_Data), w')"
  by (rule accept_error_fatal) (simp_all add: sample_backlog_def accept_simps)

text \<open>C40: no connection reaches the workers half configured: one that \<open>accept\<close> returns is of the listener's
  kind, blocking whatever it inherited, bounded by the connection timeout in both directions, and
  without Nagle's delay on TCP; and one that could not be configured is an error, never a connection.\<close>

theorem accept_configures:
  "case accept_connection l calls of
     Inr (c, Tcp_Stream s) \<Rightarrow>
       (\<exists>a. l = Tcp_Listener a) \<and> ac_accept calls = Inr c \<and>
       s = \<lparr>st_nonblocking = False, st_nodelay = True, st_read_timeout = Some CONNECTION_TIMEOUT,
            st_write_timeout = Some CONNECTION_TIMEOUT\<rparr>
   | Inr (c, Unix_Stream s) \<Rightarrow>
       (\<exists>p. l = Unix_Listener p) \<and> ac_accept calls = Inr c \<and>
       s = \<lparr>st_nonblocking = False, st_nodelay = st_nodelay (ac_stream calls),
            st_read_timeout = Some CONNECTION_TIMEOUT, st_write_timeout = Some CONNECTION_TIMEOUT\<rparr>
   | Inl e \<Rightarrow>
       Inl e \<in> {map_sum id (\<lambda>_. ()) (ac_accept calls), ac_set_blocking calls, ac_set_nodelay calls,
         ac_set_read_timeout calls, ac_set_write_timeout calls}"
  by (cases l; cases "ac_accept calls"; cases "ac_set_blocking calls"; cases "ac_set_nodelay calls";
      cases "ac_set_read_timeout calls"; cases "ac_set_write_timeout calls")
    (simp_all add: accept_simps)

end
