(* ===== verification/Serve.thy ===== *)
theory Serve
  imports Listener Connection "HOL-Library.Multiset"
begin

text \<open>
  \<open>serve\<close> of src/milter.rs: the accepting thread, the bounded queue and the workers, as a step
  relation. One step is one call of one thread; the steps of the threads interleave freely, and
  the monitor thread may raise the shutdown flag at any time.

  The lemmas show that the queue is bounded, that connections are served in the order in which
  they were queued, each once, that none is given up before shutdown, and that after the flag is
  raised the program winds up in a bounded number of steps.
\<close>

section \<open>The threads\<close>

text \<open>Where the accepting thread stands: before the test of its loop, inside \<open>wait_readable\<close>, before
  the second test of the flag, before the test of \<open>drain_backlog\<close>, inside the \<open>accept\<close> closure, with
  an error of it, inside the second \<open>wait_readable\<close>, joining the workers, returned.\<close>

datatype main_state =
    Check | Listening | Recheck | Draining | Accepting | Accept_Failed io_error | Polling
  | Joining | Returned "serve_error + unit"

text \<open>A worker waits in \<open>recv\<close>, has a connection but has not tested the flag, handles it, or has
  left its loop.\<close>

datatype 'c worker = Idle | Received 'c | Busy 'c | Exited

text \<open>The first five fields are the program's state. The others record its history: what was
  queued, received, turned away because the queue was full, given up because of shutdown, and
  served with which result.\<close>

record 'c serving =
  v_shutdown :: bool
  v_main :: main_state
  v_queue :: "'c list"
  v_open :: bool
  v_workers :: "'c worker list"
  v_queued :: "'c list"
  v_received :: "'c list"
  v_refused :: "'c list"
  v_abandoned :: "'c list"
  v_served :: "('c \<times> (close_error + unit)) list"

definition queue_capacity :: "nat \<Rightarrow> nat" where
  "queue_capacity workers = workers * 2"

definition serve_start :: "nat \<Rightarrow> 'c serving" where
  "serve_start workers =
     \<lparr>v_shutdown = False, v_main = Check, v_queue = [], v_open = True,
      v_workers = replicate workers Idle, v_queued = [], v_received = [], v_refused = [],
      v_abandoned = [], v_served = []\<rparr>"

text \<open>Returning or leaving the loop drops the sender.\<close>

abbreviation leaves_loop :: "main_state \<Rightarrow> 'c serving \<Rightarrow> 'c serving" where
  "leaves_loop m s \<equiv> s\<lparr>v_main := m, v_open := False\<rparr>"

abbreviation worker_becomes :: "nat \<Rightarrow> 'c worker \<Rightarrow> 'c serving \<Rightarrow> 'c serving" where
  "worker_becomes i x s \<equiv> s\<lparr>v_workers := (v_workers s)[i := x]\<rparr>"

text \<open>\<open>handle c r\<close> says that \<open>handle_connection\<close> may return \<open>r\<close> for the connection \<open>c\<close>.\<close>

inductive serve_step ::
  "('c \<Rightarrow> close_error + unit \<Rightarrow> bool) \<Rightarrow> listener \<Rightarrow> nat \<Rightarrow> 'c serving \<Rightarrow> 'c serving \<Rightarrow> bool"
  for handle :: "'c \<Rightarrow> close_error + unit \<Rightarrow> bool" and l :: listener and workers :: nat where
  raise_shutdown: "serve_step handle l workers s (s\<lparr>v_shutdown := True\<rparr>)"
| check_stop: "v_main s = Check \<Longrightarrow> v_shutdown s \<Longrightarrow> serve_step handle l workers s (leaves_loop Joining s)"
| check_go: "v_main s = Check \<Longrightarrow> \<not> v_shutdown s \<Longrightarrow> serve_step handle l workers s (s\<lparr>v_main := Listening\<rparr>)"
| listen: "v_main s = Listening \<Longrightarrow> fst (wait_readable ps) = Inr ready \<Longrightarrow>
    serve_step handle l workers s (s\<lparr>v_main := if ready then Recheck else Check\<rparr>)"
| listen_fails: "v_main s = Listening \<Longrightarrow> fst (wait_readable ps) = Inl e \<Longrightarrow>
    serve_step handle l workers s (leaves_loop (Returned (Inl (Readiness_Failed e))) s)"
| recheck_stop: "v_main s = Recheck \<Longrightarrow> v_shutdown s \<Longrightarrow> serve_step handle l workers s (leaves_loop Joining s)"
| recheck_go: "v_main s = Recheck \<Longrightarrow> \<not> v_shutdown s \<Longrightarrow> serve_step handle l workers s (s\<lparr>v_main := Draining\<rparr>)"
| drain_stop: "v_main s = Draining \<Longrightarrow> v_shutdown s \<Longrightarrow> serve_step handle l workers s (s\<lparr>v_main := Check\<rparr>)"
| drain_go: "v_main s = Draining \<Longrightarrow> \<not> v_shutdown s \<Longrightarrow> serve_step handle l workers s (s\<lparr>v_main := Accepting\<rparr>)"
| accept_queued: "v_main s = Accepting \<Longrightarrow> listener_accept l calls = Inr c \<Longrightarrow>
    try_send (queue_capacity workers) c (v_queue s) = Some q \<Longrightarrow>
    serve_step handle l workers s (s\<lparr>v_main := Polling, v_queue := q, v_queued := v_queued s @ [c]\<rparr>)"
| accept_refused: "v_main s = Accepting \<Longrightarrow> listener_accept l calls = Inr c \<Longrightarrow>
    try_send (queue_capacity workers) c (v_queue s) = None \<Longrightarrow>
    serve_step handle l workers s (s\<lparr>v_main := Polling, v_refused := v_refused s @ [c]\<rparr>)"
| accept_would_block: "v_main s = Accepting \<Longrightarrow> listener_accept l (calls :: 'c accept_calls) = Inl Would_Block \<Longrightarrow>
    serve_step handle l workers s (s\<lparr>v_main := Check\<rparr>)"
| accept_fails: "v_main s = Accepting \<Longrightarrow> listener_accept l (calls :: 'c accept_calls) = Inl e \<Longrightarrow> e \<noteq> Would_Block \<Longrightarrow>
    serve_step handle l workers s (s\<lparr>v_main := Accept_Failed e\<rparr>)"
| failed_stop: "v_main s = Accept_Failed e \<Longrightarrow> v_shutdown s \<Longrightarrow> serve_step handle l workers s (s\<lparr>v_main := Check\<rparr>)"
| failed_go: "v_main s = Accept_Failed e \<Longrightarrow> \<not> v_shutdown s \<Longrightarrow>
    serve_step handle l workers s (leaves_loop (Returned (Inl (Listener_Failed e))) s)"
| poll: "v_main s = Polling \<Longrightarrow> fst (wait_readable ps) = Inr ready \<Longrightarrow>
    serve_step handle l workers s (s\<lparr>v_main := if ready then Draining else Check\<rparr>)"
| poll_fails: "v_main s = Polling \<Longrightarrow> fst (wait_readable ps) = Inl e \<Longrightarrow>
    serve_step handle l workers s (leaves_loop (Returned (Inl (Readiness_Failed e))) s)"
| joined: "v_main s = Joining \<Longrightarrow> \<forall>x \<in> set (v_workers s). x = Exited \<Longrightarrow>
    serve_step handle l workers s (s\<lparr>v_main := Returned (Inr ())\<rparr>)"
| receive: "i < length (v_workers s) \<Longrightarrow> v_workers s ! i = Idle \<Longrightarrow> v_queue s = c # q \<Longrightarrow>
    serve_step handle l workers s
      (worker_becomes i (Received c) s\<lparr>v_queue := q, v_received := v_received s @ [c]\<rparr>)"
| disconnected: "i < length (v_workers s) \<Longrightarrow> v_workers s ! i = Idle \<Longrightarrow> v_queue s = [] \<Longrightarrow> \<not> v_open s \<Longrightarrow>
    serve_step handle l workers s (worker_becomes i Exited s)"
| abandon: "i < length (v_workers s) \<Longrightarrow> v_workers s ! i = Received c \<Longrightarrow> v_shutdown s \<Longrightarrow>
    serve_step handle l workers s (worker_becomes i Exited s\<lparr>v_abandoned := v_abandoned s @ [c]\<rparr>)"
| begin_handling: "i < length (v_workers s) \<Longrightarrow> v_workers s ! i = Received c \<Longrightarrow> \<not> v_shutdown s \<Longrightarrow>
    serve_step handle l workers s (worker_becomes i (Busy c) s)"
| handled: "i < length (v_workers s) \<Longrightarrow> v_workers s ! i = Busy c \<Longrightarrow> handle c r \<Longrightarrow>
    serve_step handle l workers s (worker_becomes i Idle s\<lparr>v_served := v_served s @ [(c, r)]\<rparr>)"

section \<open>The invariant\<close>

fun held :: "'c worker \<Rightarrow> 'c list" where
  "held (Received c) = [c]"
| "held (Busy c) = [c]"
| "held _ = []"

definition in_hand :: "'c worker list \<Rightarrow> 'c multiset" where
  "in_hand ws = mset (concat (map held ws))"

lemma in_hand_update:
  assumes "i < length ws" and "ws ! i = y"
  shows "in_hand (ws[i := x]) + mset (held y) = in_hand ws + mset (held x)"
proof -
  have "in_hand ws = in_hand (take i ws) + mset (held y) + in_hand (drop (Suc i) ws)"
    using id_take_nth_drop [OF assms(1)] assms(2) unfolding in_hand_def
    by (metis concat.simps(2) concat_append list.simps(9) map_append mset_append union_assoc)
  moreover have "in_hand (ws[i := x]) = in_hand (take i ws) + mset (held x) + in_hand (drop (Suc i) ws)"
    using assms(1) by (simp add: upd_conv_take_nth_drop in_hand_def)
  ultimately show ?thesis
    by simp
qed

definition serve_inv :: "('c \<Rightarrow> close_error + unit \<Rightarrow> bool) \<Rightarrow> nat \<Rightarrow> 'c serving \<Rightarrow> bool" where
  "serve_inv handle workers s \<longleftrightarrow>
     length (v_workers s) = workers \<and> length (v_queue s) \<le> queue_capacity workers \<and>
     v_queued s = v_received s @ v_queue s \<and>
     mset (v_received s) = mset (map fst (v_served s)) + mset (v_abandoned s) + in_hand (v_workers s) \<and>
     (\<forall>(c, r) \<in> set (v_served s). handle c r) \<and>
     (v_abandoned s \<noteq> [] \<longrightarrow> v_shutdown s) \<and>
     (v_open s \<longleftrightarrow> v_main s \<noteq> Joining \<and> (\<forall>r. v_main s \<noteq> Returned r)) \<and>
     (Exited \<in> set (v_workers s) \<longrightarrow> v_shutdown s \<or> \<not> v_open s) \<and>
     (v_main s = Joining \<longrightarrow> v_shutdown s) \<and>
     (v_main s = Returned (Inr ()) \<longrightarrow> v_shutdown s \<and> (\<forall>x \<in> set (v_workers s). x = Exited))"


lemma serve_inv_start: "serve_inv handle workers (serve_start workers)"
  by (auto simp: serve_inv_def serve_start_def in_hand_def)

lemma set_worker_update: "x \<in> set (ws[i := y]) \<Longrightarrow> x = y \<or> x \<in> set ws"
  using set_update_subset_insert by fastforce

lemma worker_alive:
  assumes "serve_inv handle workers s" and "i < length (v_workers s)" and "v_workers s ! i \<noteq> Exited"
  shows "v_main s \<noteq> Returned (Inr ())"
  using assms nth_mem [OF assms(2)] by (auto simp: serve_inv_def)

lemma serve_inv_step:
  assumes "serve_step handle l workers s s'" and "serve_inv handle workers s"
  shows "serve_inv handle workers s'"
  using assms
proof (induction rule: serve_step.induct)
  case (accept_queued s calls c q)
  then show ?case
    by (auto simp: serve_inv_def try_send_def split: if_splits)
next
  case (receive i s c q)
  have "in_hand ((v_workers s)[i := Received c]) = in_hand (v_workers s) + {#c#}"
    using in_hand_update [OF receive(1,2), of "Received c"] by simp
  moreover have "v_main s \<noteq> Returned (Inr ())"
    using worker_alive [OF _ receive(1)] receive by simp
  ultimately show ?case
    using receive
    by (auto simp: serve_inv_def dest: set_worker_update)
next
  case (disconnected i s)
  have "in_hand ((v_workers s)[i := Exited]) = in_hand (v_workers s)"
    using in_hand_update [OF disconnected(1,2), of Exited] by simp
  moreover have "v_main s \<noteq> Returned (Inr ())"
    using worker_alive [OF _ disconnected(1)] disconnected by simp
  ultimately show ?case
    using disconnected
    by (auto simp: serve_inv_def dest: set_worker_update)
next
  case (abandon i s c)
  have "in_hand ((v_workers s)[i := Exited]) + {#c#} = in_hand (v_workers s)"
    using in_hand_update [OF abandon(1,2), of Exited] by simp
  moreover have "v_main s \<noteq> Returned (Inr ())"
    using worker_alive [OF _ abandon(1)] abandon by simp
  ultimately show ?case
    using abandon
    by (auto simp: serve_inv_def dest: set_worker_update)
next
  case (begin_handling i s c)
  have "in_hand ((v_workers s)[i := Busy c]) = in_hand (v_workers s)"
    using in_hand_update [OF begin_handling(1,2), of "Busy c"] by simp
  moreover have "v_main s \<noteq> Returned (Inr ())"
    using worker_alive [OF _ begin_handling(1)] begin_handling by simp
  ultimately show ?case
    using begin_handling
    by (auto simp: serve_inv_def dest: set_worker_update)
next
  case (handled i s c r)
  have "in_hand ((v_workers s)[i := Idle]) + {#c#} = in_hand (v_workers s)"
    using in_hand_update [OF handled(1,2), of Idle] by simp
  moreover have "v_main s \<noteq> Returned (Inr ())"
    using worker_alive [OF _ handled(1)] handled by simp
  ultimately show ?case
    using handled
    by (auto simp: serve_inv_def dest: set_worker_update)
qed (auto simp: serve_inv_def)

lemma serve_inv_reachable:
  assumes "(serve_step handle l workers)\<^sup>*\<^sup>* (serve_start workers) s"
  shows "serve_inv handle workers s"
  using assms
  by (induction rule: rtranclp_induct) (auto intro: serve_inv_start serve_inv_step)

section \<open>Winding up\<close>

text \<open>After the flag is raised, every step makes this smaller.\<close>

fun main_rank :: "main_state \<Rightarrow> nat" where
  "main_rank (Returned _) = 0"
| "main_rank Joining = 1"
| "main_rank Check = 2"
| "main_rank Recheck = 3"
| "main_rank Draining = 3"
| "main_rank (Accept_Failed _) = 3"
| "main_rank Listening = 4"
| "main_rank Polling = 4"
| "main_rank Accepting = 7"

fun worker_rank :: "'c worker \<Rightarrow> nat" where
  "worker_rank Exited = 0"
| "worker_rank Idle = 1"
| "worker_rank (Received _) = 2"
| "worker_rank (Busy _) = 3"

definition workers_rank :: "'c worker list \<Rightarrow> nat" where
  "workers_rank ws = sum_list (map worker_rank ws)"

definition rank :: "'c serving \<Rightarrow> nat" where
  "rank s = main_rank (v_main s) + 2 * length (v_queue s) + workers_rank (v_workers s)"

lemma workers_rank_update:
  assumes "i < length ws" and "ws ! i = y"
  shows "workers_rank (ws[i := x]) + worker_rank y = workers_rank ws + worker_rank x"
  using assms elem_le_sum_list [of i "map worker_rank ws"]
  by (simp add: workers_rank_def map_update sum_list_update)

lemma workers_rank_bound: "workers_rank ws \<le> 3 * length ws"
proof (induction ws)
  case (Cons x ws)
  then show ?case
    by (cases x) (simp_all add: workers_rank_def)
qed (simp add: workers_rank_def)

lemma rank_bound: "serve_inv handle workers s \<Longrightarrow> rank s \<le> 7 + 7 * workers"
  using workers_rank_bound [of "v_workers s"]
  by (cases "v_main s") (auto simp: rank_def serve_inv_def queue_capacity_def)

abbreviation proper_step ::
  "('c \<Rightarrow> close_error + unit \<Rightarrow> bool) \<Rightarrow> listener \<Rightarrow> nat \<Rightarrow> 'c serving \<Rightarrow> 'c serving \<Rightarrow> bool" where
  "proper_step handle l workers s t \<equiv> serve_step handle l workers s t \<and> t \<noteq> s"

lemma step_rank:
  assumes "serve_step handle l workers s t" and "t \<noteq> s" and "v_shutdown s"
  shows "v_shutdown t \<and> rank t < rank s"
  using assms
proof (induction rule: serve_step.induct)
  case (receive i s c q)
  then show ?case
    using workers_rank_update [OF receive(1,2), of "Received c"] by (simp add: rank_def)
next
  case (disconnected i s)
  then show ?case
    using workers_rank_update [OF disconnected(1,2), of Exited] by (simp add: rank_def)
next
  case (abandon i s c)
  then show ?case
    using workers_rank_update [OF abandon(1,2), of Exited] by (simp add: rank_def)
next
  case (handled i s c r)
  then show ?case
    using workers_rank_update [OF handled(1,2), of Idle] by (simp add: rank_def)
qed (auto simp: rank_def try_send_def split: if_splits)

lemma proper_steps_rank:
  assumes "(proper_step handle l workers ^^ n) s t" and "v_shutdown s"
  shows "v_shutdown t \<and> rank t + n \<le> rank s"
  using assms
proof (induction n arbitrary: t)
  case (Suc n)
  obtain u where u: "(proper_step handle l workers ^^ n) s u" "proper_step handle l workers u t"
    using Suc.prems(1) by (rule relpowp_Suc_E)
  have "v_shutdown u \<and> rank u + n \<le> rank s"
    by (rule Suc.IH [OF u(1) Suc.prems(2)])
  moreover from this have "v_shutdown t \<and> rank t < rank u"
    using step_rank u(2) by blast
  ultimately show ?case
    by simp
qed simp

lemma serve_inv_proper_steps:
  assumes "(proper_step handle l workers ^^ n) s t" and "serve_inv handle workers s"
  shows "serve_inv handle workers t"
  using assms(1)
proof (induction n arbitrary: t)
  case (Suc n)
  obtain u where u: "(proper_step handle l workers ^^ n) s u" "proper_step handle l workers u t"
    using Suc.prems by (rule relpowp_Suc_E)
  show ?case
    using u(2) by (rule conjE) (erule serve_inv_step [OF _ Suc.IH [OF u(1)]])
qed (use assms(2) in simp)

text \<open>The worker that is not done can always move, a handling one if \<open>handle_connection\<close> returns.\<close>

lemma worker_moves:
  assumes "v_shutdown s" and "\<not> v_open s" and "x \<in> set (v_workers s)" and "x \<noteq> Exited"
    and "\<And>c. x = Busy c \<Longrightarrow> \<exists>r. handle c r"
  shows "\<exists>t. proper_step handle l workers s t"
proof -
  obtain i where i: "i < length (v_workers s)" "v_workers s ! i = x"
    using assms(3) by (auto simp: in_set_conv_nth)
  have changes: "u \<noteq> s" if "v_workers u = (v_workers s)[i := y]" "y \<noteq> x" for u y
    using that i by (metis nth_list_update_eq)
  show ?thesis
  proof (cases x)
    case Idle
    show ?thesis
    proof (cases "v_queue s")
      case Nil
      with i Idle assms(2) have "serve_step handle l workers s (worker_becomes i Exited s)"
        by (intro disconnected) auto
      moreover have "worker_becomes i Exited s \<noteq> s"
        using Idle by (intro changes [of _ Exited]) simp_all
      ultimately show ?thesis
        by blast
    next
      case (Cons c q)
      let ?t = "worker_becomes i (Received c) s\<lparr>v_queue := q, v_received := v_received s @ [c]\<rparr>"
      have "serve_step handle l workers s ?t"
        using i Idle Cons by (intro receive) auto
      moreover have "?t \<noteq> s"
        using Idle by (intro changes [of _ "Received c"]) simp_all
      ultimately show ?thesis
        by blast
    qed
  next
    case (Received c)
    let ?t = "worker_becomes i Exited s\<lparr>v_abandoned := v_abandoned s @ [c]\<rparr>"
    have "serve_step handle l workers s ?t"
      using i Received assms(1) by (intro abandon) auto
    moreover have "?t \<noteq> s"
      using Received by (intro changes [of _ Exited]) simp_all
    ultimately show ?thesis
      by blast
  next
    case (Busy c)
    then obtain r where r: "handle c r"
      using assms(5) by blast
    let ?t = "worker_becomes i Idle s\<lparr>v_served := v_served s @ [(c, r)]\<rparr>"
    have "serve_step handle l workers s ?t"
      using i Busy r by (intro handled) auto
    moreover have "?t \<noteq> s"
      using Busy by (intro changes [of _ Idle]) simp_all
    ultimately show ?thesis
      by blast
  qed (use assms(4) in simp)
qed

lemma main_moves:
  assumes "v_shutdown s" and "v_main s = m" and "m \<noteq> Joining" and "\<forall>r. m \<noteq> Returned r"
  shows "\<exists>t. proper_step handle l workers s t"
proof -
  have changes: "proper_step handle l workers s u" if "serve_step handle l workers s u" "v_main u \<noteq> m" for u
    using that assms(2) by auto
  let ?calls = "\<lparr>ac_accept = Inl Would_Block, ac_stream = kernel_stream, ac_set_blocking = Inr (), ac_set_nodelay = Inr (),
    ac_set_read_timeout = Inr (), ac_set_write_timeout = Inr ()\<rparr> :: 'a accept_calls"
  have block: "listener_accept l ?calls = Inl Would_Block"
    by (simp add: accept_simps)
  have idle: "fst (wait_readable []) = Inr False"
    by simp
  show ?thesis
  proof (cases m)
    case Check
    then show ?thesis
      using changes [OF check_stop] assms(1,2) by auto
  next
    case Listening
    then show ?thesis
      using changes [OF listen [OF _ idle]] assms(2) by auto
  next
    case Recheck
    then show ?thesis
      using changes [OF recheck_stop] assms(1,2) by auto
  next
    case Draining
    then show ?thesis
      using changes [OF drain_stop] assms(1,2) by auto
  next
    case Accepting
    then show ?thesis
      using changes [OF accept_would_block [OF _ block]] assms(2) by auto
  next
    case (Accept_Failed e)
    then show ?thesis
      using changes [OF failed_stop] assms(1,2) by auto
  next
    case Polling
    then show ?thesis
      using changes [OF poll [OF _ idle]] assms(2) by auto
  qed (use assms(3,4) in auto)
qed

lemma stuck_returned:
  assumes "serve_inv handle workers s" and "v_shutdown s" and "\<And>t. \<not> proper_step handle l workers s t"
    and "\<And>c. Busy c \<in> set (v_workers s) \<Longrightarrow> \<exists>r. handle c r"
  shows "(\<exists>r. v_main s = Returned r) \<and> (\<forall>x \<in> set (v_workers s). x = Exited)"
proof -
  have m: "v_main s = Joining \<or> (\<exists>r. v_main s = Returned r)"
    using main_moves [OF assms(2) refl] assms(3) by blast
  then have "\<not> v_open s"
    using assms(1) by (auto simp: serve_inv_def)
  then have w: "\<forall>x \<in> set (v_workers s). x = Exited"
    using worker_moves [OF assms(2)] assms(3,4) by blast
  moreover have "v_main s \<noteq> Joining"
  proof
    assume "v_main s = Joining"
    then have "proper_step handle l workers s (s\<lparr>v_main := Returned (Inr ())\<rparr>)"
      using joined w by (metis main_state.distinct(71) serving.select_convs(2) serving.surjective serving.update_convs(2))
    with assms(3) show False
      by blast
  qed
  ultimately show ?thesis
    using m by blast
qed

section \<open>A concrete run\<close>

definition sample_calls :: "'c \<Rightarrow> 'c accept_calls" where
  "sample_calls c = \<lparr>ac_accept = Inr c, ac_stream = kernel_stream, ac_set_blocking = Inr (), ac_set_nodelay = Inr (),
     ac_set_read_timeout = Inr (), ac_set_write_timeout = Inr ()\<rparr>"

lemma sample_accept: "listener_accept l (sample_calls c) = Inr c"
  by (cases l) (simp_all add: accept_simps sample_calls_def)

definition sample_queued :: "'c \<Rightarrow> 'c serving" where
  "sample_queued c = (serve_start 1)\<lparr>v_main := Polling, v_queue := [c], v_queued := [c]\<rparr>"

text \<open>A step of the accepting thread alone, with the flag as it is.\<close>

definition quiet_step ::
  "('c \<Rightarrow> close_error + unit \<Rightarrow> bool) \<Rightarrow> listener \<Rightarrow> nat \<Rightarrow> 'c serving \<Rightarrow> 'c serving \<Rightarrow> bool" where
  "quiet_step handle l workers s t \<longleftrightarrow>
     serve_step handle l workers s t \<and> v_workers t = v_workers s \<and> v_shutdown t = v_shutdown s"

lemma sample_queued_quiet:
  "(quiet_step handle l 1)\<^sup>*\<^sup>* (serve_start 1) (sample_queued c)"
proof -
  let ?s = "serve_start 1 :: 'a serving"
  have 1: "quiet_step handle l 1 ?s (?s\<lparr>v_main := Listening\<rparr>)"
    using check_go [of ?s handle l 1] by (simp add: quiet_step_def serve_start_def)
  have 2: "quiet_step handle l 1 (?s\<lparr>v_main := Listening\<rparr>) (?s\<lparr>v_main := Recheck\<rparr>)"
    using listen [of "?s\<lparr>v_main := Listening\<rparr>" "[Polled True]" True handle l 1] by (simp add: quiet_step_def)
  have 3: "quiet_step handle l 1 (?s\<lparr>v_main := Recheck\<rparr>) (?s\<lparr>v_main := Draining\<rparr>)"
    using recheck_go [of "?s\<lparr>v_main := Recheck\<rparr>" handle l 1] by (simp add: quiet_step_def serve_start_def)
  have 4: "quiet_step handle l 1 (?s\<lparr>v_main := Draining\<rparr>) (?s\<lparr>v_main := Accepting\<rparr>)"
    using drain_go [of "?s\<lparr>v_main := Draining\<rparr>" handle l 1] by (simp add: quiet_step_def serve_start_def)
  have 5: "quiet_step handle l 1 (?s\<lparr>v_main := Accepting\<rparr>) (sample_queued c)"
    using accept_queued [of "?s\<lparr>v_main := Accepting\<rparr>" l "sample_calls c" c 1 "[c]" handle]
    by (simp add: quiet_step_def serve_start_def sample_accept sample_queued_def try_send_def queue_capacity_def)
  from 1 2 3 4 5 show ?thesis
    by (blast intro: converse_rtranclp_into_rtranclp)
qed

lemma sample_queued_reachable:
  "(serve_step handle l 1)\<^sup>*\<^sup>* (serve_start 1) (sample_queued c)"
  by (rule rtranclp_mono [THEN predicate2D, OF _ sample_queued_quiet]) (auto simp: quiet_step_def)

lemma sample_queued_shutdown:
  "(serve_step handle l 1)\<^sup>*\<^sup>* (serve_start 1) (sample_queued c\<lparr>v_shutdown := True\<rparr>)"
  by (rule rtranclp.rtrancl_into_rtrancl [OF sample_queued_reachable raise_shutdown])

section \<open>Properties\<close>

text \<open>C14: in every reachable state of the accepting thread and the workers the queue holds at most
  two connections per worker, connections are taken from it in the order in which they were
  accepted, each one taken is being handled, was handled with the result of
  \<open>handle_connection\<close>, or was given up, and none is given up before shutdown.\<close>

theorem serve_queue_invariant:
  assumes "(serve_step (\<lambda>c r. r = fst (handle_connection ossl (env c) c)) l workers)\<^sup>*\<^sup>* (serve_start workers) s"
  shows "length (v_queue s) \<le> 2 * workers \<and> v_queued s = v_received s @ v_queue s \<and>
    mset (v_received s) = mset (map fst (v_served s)) + mset (v_abandoned s) + in_hand (v_workers s) \<and>
    size (in_hand (v_workers s)) \<le> workers \<and>
    list_all (\<lambda>(c, r). r = fst (handle_connection ossl (env c) c)) (v_served s) \<and>
    (v_abandoned s \<noteq> [] \<longrightarrow> v_shutdown s)"
proof -
  have "size (in_hand ws) \<le> length ws" for ws :: "conn worker list"
  proof (induction ws)
    case (Cons x ws)
    then show ?case
      by (cases x) (simp_all add: in_hand_def)
  qed (simp add: in_hand_def)
  moreover have "serve_inv (\<lambda>c r. r = fst (handle_connection ossl (env c) c)) workers s"
    using assms by (rule serve_inv_reachable)
  ultimately show ?thesis
    by (auto simp: serve_inv_def queue_capacity_def list_all_iff)
qed

lemma serve_queue_invariant_witness:
  "length (v_queue (sample_queued sample_conn)) \<le> 2 \<and>
   mset (v_received (sample_queued sample_conn)) =
     mset (map fst (v_served (sample_queued sample_conn))) + mset (v_abandoned (sample_queued sample_conn)) +
     in_hand (v_workers (sample_queued sample_conn))"
  using serve_queue_invariant [of sample_openssl "\<lambda>c. sample_environment" "Unix_Listener [''k'']" 1 "sample_queued sample_conn",
      OF sample_queued_reachable] by simp

text \<open>Shutdown completes: once the flag is raised, in any reachable state and under any
  interleaving, at most 7 + 7 * workers further steps are possible, and when none is left the
  accepting thread has returned and every worker has left its loop.\<close>

theorem shutdown_completes:
  assumes "(serve_step (\<lambda>c r. r = handle c) l workers)\<^sup>*\<^sup>* (serve_start workers) s" and "v_shutdown s"
    and "((\<lambda>a b. serve_step (\<lambda>c r. r = handle c) l workers a b \<and> b \<noteq> a) ^^ n) s t"
  shows "n \<le> 7 + 7 * workers \<and>
    ((\<exists>u. serve_step (\<lambda>c r. r = handle c) l workers t u \<and> u \<noteq> t) \<or>
     (\<exists>r. v_main t = Returned r) \<and> list_all (\<lambda>x. x = Exited) (v_workers t))"
proof -
  have inv: "serve_inv (\<lambda>c r. r = handle c) workers s"
    using assms(1) by (rule serve_inv_reachable)
  have "v_shutdown t \<and> rank t + n \<le> rank s"
    using assms(3,2) by (rule proper_steps_rank)
  moreover have "serve_inv (\<lambda>c r. r = handle c) workers t"
    using assms(3) inv by (rule serve_inv_proper_steps)
  ultimately show ?thesis
    using rank_bound [OF inv] stuck_returned [of "\<lambda>c r. r = handle c" workers t l] by (auto simp: list_all_iff)
qed

lemma shutdown_completes_witness:
  "(\<exists>u. serve_step (\<lambda>c r. r = Inr ()) (Unix_Listener [''k'']) 1 (sample_queued (0 :: nat)\<lparr>v_shutdown := True, v_main := Check\<rparr>) u \<and>
      u \<noteq> sample_queued (0 :: nat)\<lparr>v_shutdown := True, v_main := Check\<rparr>) \<or>
   (\<exists>r. v_main (sample_queued (0 :: nat)\<lparr>v_shutdown := True, v_main := Check\<rparr>) = Returned r)"
proof -
  let ?s = "sample_queued (0 :: nat)\<lparr>v_shutdown := True\<rparr>"
  let ?h = "\<lambda>(c :: nat) r. r = Inr ()" and ?l = "Unix_Listener [''k'']"
  have "serve_step ?h ?l 1 ?s (?s\<lparr>v_main := Check\<rparr>)"
    using poll [of ?s "[]" False ?h ?l 1] by (simp add: sample_queued_def)
  moreover have "?s\<lparr>v_main := Check\<rparr> \<noteq> ?s"
    by (simp add: sample_queued_def serve_start_def)
  ultimately have "((\<lambda>a b. serve_step ?h ?l 1 a b \<and> b \<noteq> a) ^^ 1) ?s (?s\<lparr>v_main := Check\<rparr>)"
    unfolding relpowp_1 by blast
  from shutdown_completes [OF sample_queued_shutdown _ this] show ?thesis
    by (simp add: sample_queued_def)
qed

text \<open>A connection is turned away only when the queue is full, and then nothing else changes
  but the state of the accepting thread.\<close>

theorem refusal_means_full:
  assumes "serve_step handle l workers s t" and "v_refused t \<noteq> v_refused s"
  shows "2 * workers \<le> length (v_queue s) \<and>
    (\<exists>c. t = s\<lparr>v_main := Polling, v_refused := v_refused s @ [c]\<rparr>)"
  using assms by cases (auto simp: try_send_def queue_capacity_def split: if_splits)

lemma refusal_means_full_witness:
  "2 \<le> length (v_queue ((serve_start 1)\<lparr>v_main := Accepting, v_queue := [0, 1 :: nat]\<rparr>))"
proof -
  let ?s = "(serve_start 1)\<lparr>v_main := Accepting, v_queue := [0, 1 :: nat]\<rparr>"
  let ?t = "?s\<lparr>v_main := Polling, v_refused := [2]\<rparr>"
  have "serve_step (\<lambda>c r. r = Inr ()) (Unix_Listener [''k'']) 1 ?s ?t"
    using accept_refused [of ?s "Unix_Listener [''k'']" "sample_calls 2" 2 1 "\<lambda>c r. r = Inr ()"]
    by (simp add: sample_accept try_send_def queue_capacity_def serve_start_def)
  from refusal_means_full [OF this] show ?thesis
    by (simp add: serve_start_def)
qed

end
