(* ===== verification/Command_Line.thy ===== *)
theory Command_Line
  imports Keygen
begin

text \<open>
  The command line of src/main.rs: \<open>parse_args\<close> and \<open>parse_generate_args\<close>.

  The lemmas show that the options of a key generation survive being written as arguments, in
  whatever order, and that no argument is ever ignored.
\<close>

section \<open>Commands\<close>

datatype command =
    Serve_Command bytes bool
  | Generate_Key generate_options
  | Version
  | Help

datatype usage_error =
    Config_Requires_Path
  | Duplicate_Argument bytes
  | Unknown_Argument bytes
  | Requires_Value bytes
  | Bits_Not_Integer
  | Fips_Not_Boolean
  | Unknown_Generate_Argument bytes
  | Missing_Argument bytes

section \<open>parse::<u32>\<close>

text \<open>An optional plus sign, then digits; the value must fit.\<close>

definition digits_value :: "bytes \<Rightarrow> nat" where
  "digits_value ds = foldl (\<lambda>n d. 10 * n + (code d - 48)) 0 ds"

definition parse_u32 :: "bytes \<Rightarrow> u32 option" where
  "parse_u32 s =
     (let ds = (if starts_with ''+'' s then tl s else s)
      in if ds = [] \<or> \<not> list_all is_ascii_digit ds \<or> 2 ^ 32 \<le> digits_value ds then None
         else Some (of_nat (digits_value ds)))"

section \<open>parse_generate_args\<close>

record generate_draft =
  gd_domain :: "bytes option"
  gd_selector :: "bytes option"
  gd_private_key :: "bytes option"
  gd_bits :: "u32 option"
  gd_require_fips :: "bool option"

definition generate_draft_empty :: generate_draft where
  "generate_draft_empty = \<lparr>gd_domain = None, gd_selector = None, gd_private_key = None, gd_bits = None,
     gd_require_fips = None\<rparr>"

definition generate_option_names :: "bytes list" where
  "generate_option_names = [''--domain'', ''--selector'', ''--private-key'', ''--bits'', ''--require-fips'']"

text \<open>One option with its value.\<close>

definition generate_option :: "bytes \<Rightarrow> bytes \<Rightarrow> generate_draft \<Rightarrow> usage_error + generate_draft" where
  "generate_option option value d =
     (if option = ''--domain'' \<and> gd_domain d = None then Inr (d\<lparr>gd_domain := Some value\<rparr>)
      else if option = ''--selector'' \<and> gd_selector d = None then Inr (d\<lparr>gd_selector := Some value\<rparr>)
      else if option = ''--private-key'' \<and> gd_private_key d = None then Inr (d\<lparr>gd_private_key := Some value\<rparr>)
      else if option = ''--bits'' \<and> gd_bits d = None
      then (case parse_u32 value of None \<Rightarrow> Inl Bits_Not_Integer | Some n \<Rightarrow> Inr (d\<lparr>gd_bits := Some n\<rparr>))
      else if option = ''--require-fips'' \<and> gd_require_fips d = None
      then (if value = ''true'' then Inr (d\<lparr>gd_require_fips := Some True\<rparr>)
            else if value = ''false'' then Inr (d\<lparr>gd_require_fips := Some False\<rparr>)
            else Inl Fips_Not_Boolean)
      else if option \<in> set generate_option_names then Inl (Duplicate_Argument option)
      else Inl (Unknown_Generate_Argument option))"

text \<open>After the loop: the mandatory options and the defaults.\<close>

definition finish_generate_args :: "generate_draft \<Rightarrow> usage_error + command" where
  "finish_generate_args d =
     and_then (ok_or (gd_domain d) (Missing_Argument ''--domain'')) (\<lambda>domain.
     and_then (ok_or (gd_selector d) (Missing_Argument ''--selector'')) (\<lambda>selector.
     and_then (ok_or (gd_private_key d) (Missing_Argument ''--private-key'')) (\<lambda>private_key.
       Inr (Generate_Key \<lparr>go_domain = domain, go_selector = selector, go_private_key = private_key,
         go_bits = (case gd_bits d of None \<Rightarrow> 2048 | Some n \<Rightarrow> n),
         go_require_fips = (case gd_require_fips d of None \<Rightarrow> True | Some b \<Rightarrow> b)\<rparr>))))"

fun parse_generate_args :: "bytes list \<Rightarrow> generate_draft \<Rightarrow> usage_error + command" where
  "parse_generate_args [] d = finish_generate_args d"
| "parse_generate_args (option # rest) d =
     (if option = ''--help'' \<or> option = ''-h'' then Inr Help
      else (case rest of [] \<Rightarrow> Inl (Requires_Value option)
        | value # rest' \<Rightarrow>
            and_then (generate_option option value d) (\<lambda>d. parse_generate_args rest' d)))"

section \<open>parse_args\<close>

definition default_config :: bytes where
  "default_config = ''/etc/dkim-lite/dkim-lite.conf''"

text \<open>The loop over the arguments from index 1; \<open>count\<close> is their number with the program name.\<close>

fun parse_serve_args :: "nat \<Rightarrow> bytes option \<Rightarrow> bool \<Rightarrow> bytes list \<Rightarrow> usage_error + command" where
  "parse_serve_args count config check [] =
     Inr (Serve_Command (case config of None \<Rightarrow> default_config | Some path \<Rightarrow> path) check)"
| "parse_serve_args count config check (arg # rest) =
     (if arg = ''--version'' \<and> count = 2 then Inr Version
      else if (arg = ''--help'' \<or> arg = ''-h'') \<and> count = 2 then Inr Help
      else if arg = ''--check-config'' \<and> \<not> check then parse_serve_args count config True rest
      else if arg = ''--check-config'' then Inl (Duplicate_Argument arg)
      else if arg = ''--config'' \<and> config = None
      then (case rest of [] \<Rightarrow> Inl Config_Requires_Path
            | value # rest' \<Rightarrow> parse_serve_args count (Some value) check rest')
      else if arg = ''--config'' then Inl (Duplicate_Argument arg)
      else Inl (Unknown_Argument arg))"

definition parse_args :: "bytes list \<Rightarrow> usage_error + command" where
  "parse_args args =
     (if length args > 1 \<and> args ! 1 = ''generate-key''
      then parse_generate_args (drop 2 args) generate_draft_empty
      else parse_serve_args (length args) None False (drop 1 args))"

section \<open>Numbers\<close>

lemma digit_of: "n < 10 \<Longrightarrow> code (char_of (48 + n)) = 48 + n \<and> is_ascii_digit (char_of (48 + n))"
  for n :: nat
  by (simp add: code_char_of is_ascii_digit_def)

lemma digits_dec: "dec n \<noteq> [] \<and> list_all is_ascii_digit (dec n) \<and> digits_value (dec n) = n"
proof (induction n rule: dec.induct)
  case (1 n)
  have "code (char_of (48 + n mod 10)) = 48 + n mod 10 \<and> is_ascii_digit (char_of (48 + n mod 10))"
    by (rule digit_of) simp
  with 1 show ?case
    by (subst (1 2 3) dec.simps) (simp add: digits_value_def)
qed

lemma parse_u32_dec: "parse_u32 (dec (unat x)) = Some x"
proof -
  note d = digits_dec [of "unat x"]
  obtain a ds where "dec (unat x) = a # ds"
    using d by (cases "dec (unat x)") auto
  moreover from this have "is_ascii_digit a"
    using d by simp
  then have "a \<noteq> CHR ''+''"
    by (auto simp: is_ascii_digit_def code_def)
  ultimately have "\<not> starts_with ''+'' (dec (unat x))"
    by (simp add: starts_with_def)
  moreover have "unat x < 2 ^ LENGTH(32)"
    by (rule unsigned_less)
  then have "unat x < 2 ^ 32"
    by simp
  ultimately show ?thesis
    using d by (simp add: parse_u32_def Let_def)
qed

section \<open>What an accepted key generation command says\<close>

text \<open>Name and value of each option, as arguments.\<close>

definition arguments :: "(bytes \<times> bytes) list \<Rightarrow> bytes list" where
  "arguments ps = concat (map (\<lambda>(n, v). [n, v]) ps)"

definition unset :: "generate_draft \<Rightarrow> bytes \<Rightarrow> bool" where
  "unset d n \<longleftrightarrow>
     n = ''--domain'' \<and> gd_domain d = None \<or> n = ''--selector'' \<and> gd_selector d = None \<or>
     n = ''--private-key'' \<and> gd_private_key d = None \<or> n = ''--bits'' \<and> gd_bits d = None \<or>
     n = ''--require-fips'' \<and> gd_require_fips d = None"

definition bool_text :: "bytes \<Rightarrow> bool option" where
  "bool_text v = (if v = ''true'' then Some True else if v = ''false'' then Some False else None)"

text \<open>What the draft holds stays; the rest comes from the assignments, or is the default.\<close>

definition described :: "(bytes \<times> bytes) list \<Rightarrow> generate_draft \<Rightarrow> generate_options \<Rightarrow> bool" where
  "described ps d opts \<longleftrightarrow>
     Some (go_domain opts) = (case gd_domain d of None \<Rightarrow> map_of ps ''--domain'' | x \<Rightarrow> x) \<and>
     Some (go_selector opts) = (case gd_selector d of None \<Rightarrow> map_of ps ''--selector'' | x \<Rightarrow> x) \<and>
     Some (go_private_key opts) = (case gd_private_key d of None \<Rightarrow> map_of ps ''--private-key'' | x \<Rightarrow> x) \<and>
     Some (go_bits opts) = (case gd_bits d of None \<Rightarrow>
       (case map_of ps ''--bits'' of None \<Rightarrow> Some 2048 | Some v \<Rightarrow> parse_u32 v) | x \<Rightarrow> x) \<and>
     Some (go_require_fips opts) = (case gd_require_fips d of None \<Rightarrow>
       (case map_of ps ''--require-fips'' of None \<Rightarrow> Some True | Some v \<Rightarrow> bool_text v) | x \<Rightarrow> x)"

lemma finish_described:
  "finish_generate_args d = Inr (Generate_Key opts) \<longleftrightarrow> described [] d opts"
  by (cases opts) (auto simp: finish_generate_args_def described_def and_then_def ok_or_def split: option.splits)

lemma generate_option_Inr:
  assumes "generate_option n v d = Inr d'"
  shows "unset d n" and "unset d' m \<longleftrightarrow> unset d m \<and> m \<noteq> n"
    and "n \<notin> fst ` set ps \<Longrightarrow> described ps d' opts \<longleftrightarrow> described ((n, v) # ps) d opts"
proof -
  consider (domain) "n = ''--domain''" "gd_domain d = None" "d' = d\<lparr>gd_domain := Some v\<rparr>"
    | (selector) "n = ''--selector''" "gd_selector d = None" "d' = d\<lparr>gd_selector := Some v\<rparr>"
    | (private_key) "n = ''--private-key''" "gd_private_key d = None" "d' = d\<lparr>gd_private_key := Some v\<rparr>"
    | (bits) x where "n = ''--bits''" "gd_bits d = None" "parse_u32 v = Some x" "d' = d\<lparr>gd_bits := Some x\<rparr>"
    | (fips) b where "n = ''--require-fips''" "gd_require_fips d = None" "bool_text v = Some b"
        "d' = d\<lparr>gd_require_fips := Some b\<rparr>"
    using assms by (auto simp: generate_option_def bool_text_def split: if_splits option.splits)
  note c = this
  show "unset d n"
    using c by cases (simp_all add: unset_def)
  show "unset d' m \<longleftrightarrow> unset d m \<and> m \<noteq> n"
    using c by cases (auto simp: unset_def)
  show "described ps d' opts \<longleftrightarrow> described ((n, v) # ps) d opts" if "n \<notin> fst ` set ps"
    using c by cases (simp_all add: described_def cong: option.case_cong)
qed

lemma generate_option_defined:
  assumes "unset d n" and "described ((n, v) # ps) d opts"
  shows "\<exists>d'. generate_option n v d = Inr d'"
proof -
  have bits: "Some (go_bits opts) = parse_u32 v" if "n = ''--bits''" "gd_bits d = None"
    using assms(2) that by (simp add: described_def)
  have fips: "Some (go_require_fips opts) = bool_text v" if "n = ''--require-fips''" "gd_require_fips d = None"
    using assms(2) that by (simp add: described_def)
  show ?thesis
    using assms(1) unfolding unset_def
  proof (elim disjE conjE)
    assume "n = ''--bits''" "gd_bits d = None"
    with bits show ?thesis
      by (cases "parse_u32 v") (simp_all add: generate_option_def)
  next
    assume "n = ''--require-fips''" "gd_require_fips d = None"
    with fips show ?thesis
      by (auto simp: generate_option_def bool_text_def split: if_splits)
  qed (simp_all add: generate_option_def)
qed

lemma unset_name: "unset d n \<Longrightarrow> n \<noteq> ''--help'' \<and> n \<noteq> ''-h''"
  by (auto simp: unset_def)

lemma parse_generate_args_sound:
  "parse_generate_args args d = Inr (Generate_Key opts) \<Longrightarrow>
     \<exists>ps. args = arguments ps \<and> distinct (map fst ps) \<and> (\<forall>n \<in> fst ` set ps. unset d n) \<and> described ps d opts"
proof (induction args d rule: parse_generate_args.induct)
  case (1 d)
  then show ?case
    by (intro exI [of _ "[]"]) (simp add: arguments_def finish_described)
next
  case (2 option rest d)
  then obtain v rest' d' where r: "rest = v # rest'" "\<not> (option = ''--help'' \<or> option = ''-h'')"
    "generate_option option v d = Inr d'" "parse_generate_args rest' d' = Inr (Generate_Key opts)"
    by (auto split: if_splits list.splits)
  obtain ps where ps: "rest' = arguments ps" "distinct (map fst ps)" "\<forall>n \<in> fst ` set ps. unset d' n"
    "described ps d' opts"
    using "2.IH" [OF r(2,1,4)] by blast
  have "option \<notin> fst ` set ps"
    using ps(3) generate_option_Inr(2) [OF r(3)] by blast
  then have "args = arguments ((option, v) # ps) \<Longrightarrow> True" "distinct (map fst ((option, v) # ps))"
    "\<forall>n \<in> fst ` set ((option, v) # ps). unset d n" "described ((option, v) # ps) d opts"
    using ps generate_option_Inr [OF r(3)] by auto
  then show ?case
    using r(1) ps(1) by (intro exI [of _ "(option, v) # ps"]) (simp add: arguments_def)
qed

lemma parse_generate_args_complete:
  "distinct (map fst ps) \<Longrightarrow> \<forall>n \<in> fst ` set ps. unset d n \<Longrightarrow> described ps d opts \<Longrightarrow>
     parse_generate_args (arguments ps) d = Inr (Generate_Key opts)"
proof (induction ps arbitrary: d)
  case Nil
  then show ?case
    by (simp add: arguments_def finish_described)
next
  case (Cons p ps)
  obtain n v where p: "p = (n, v)"
    by (cases p)
  obtain d' where d': "generate_option n v d = Inr d'"
    using generate_option_defined [of d n v ps opts] Cons.prems p by auto
  note facts = generate_option_Inr [OF d']
  have "parse_generate_args (arguments ps) d' = Inr (Generate_Key opts)"
    using Cons.prems facts p by (intro Cons.IH) auto
  then show ?case
    using p d' unset_name [OF facts(1)] by (simp add: arguments_def and_then_def)
qed

section \<open>Properties\<close>

text \<open>C32: the arguments of a key generation are read strictly and completely: a command line is
  accepted as one exactly if it is a sequence of known options with their values, in any order
  and none twice, and then every option of the generation is the given value, or 2048 bits and
  FIPS required where none is given.\<close>

theorem generate_arguments_exact:
  "parse_args (program # ''generate-key'' # args) = Inr (Generate_Key opts) \<longleftrightarrow>
     (\<exists>ps. args = arguments ps \<and> distinct (map fst ps) \<and> fst ` set ps \<subseteq> set generate_option_names \<and>
       described ps generate_draft_empty opts)"
proof -
  have "unset generate_draft_empty n \<longleftrightarrow> n \<in> set generate_option_names" for n
    by (auto simp: unset_def generate_draft_empty_def generate_option_names_def)
  then have names: "(\<forall>n \<in> fst ` set ps. unset generate_draft_empty n) \<longleftrightarrow>
      fst ` set ps \<subseteq> set generate_option_names" for ps :: "(bytes \<times> bytes) list"
    by (auto simp del: set_simps)
  have "parse_args (program # ''generate-key'' # args) = parse_generate_args args generate_draft_empty"
    by (simp add: parse_args_def)
  then show ?thesis
    using parse_generate_args_sound [of args generate_draft_empty opts]
      parse_generate_args_complete [of _ generate_draft_empty opts]
    unfolding names by metis
qed

lemma generate_arguments_exact_witness:
  "parse_args [''dkim-lite'', ''generate-key'', ''--bits'', ''4096'', ''--private-key'', ''/k'', ''--domain'', ''ex.org'',
      ''--selector'', ''s''] =
    Inr (Generate_Key \<lparr>go_domain = ''ex.org'', go_selector = ''s'', go_private_key = ''/k'', go_bits = 4096,
      go_require_fips = True\<rparr>)"
proof -
  have b: "parse_u32 ''4096'' = Some 4096"
    by code_simp
  show ?thesis
    by (rule generate_arguments_exact [THEN iffD2], rule exI [of _ "[(''--bits'', ''4096''), (''--private-key'', ''/k''),
        (''--domain'', ''ex.org''), (''--selector'', ''s'')]"])
      (simp add: arguments_def generate_option_names_def described_def generate_draft_empty_def b)
qed

text \<open>Every set of options can be given on the command line and is read back as it was, the
  number of bits in decimal included.\<close>

theorem generate_arguments_roundtrip:
  "parse_args (program # ''generate-key'' # arguments [(''--domain'', go_domain opts), (''--selector'', go_selector opts),
      (''--private-key'', go_private_key opts), (''--bits'', dec (unat (go_bits opts))),
      (''--require-fips'', if go_require_fips opts then ''true'' else ''false'')]) = Inr (Generate_Key opts)"
proof -
  have "parse_generate_args (arguments [(''--domain'', go_domain opts), (''--selector'', go_selector opts),
      (''--private-key'', go_private_key opts), (''--bits'', dec (unat (go_bits opts))),
      (''--require-fips'', if go_require_fips opts then ''true'' else ''false'')]) generate_draft_empty =
      Inr (Generate_Key opts)"
    by (rule parse_generate_args_complete)
      (simp_all add: unset_def generate_draft_empty_def described_def parse_u32_dec bool_text_def)
  then show ?thesis
    by (simp add: parse_args_def)
qed

end
