(* ===== verification/Daemon.thy ===== *)
theory Daemon
  imports Command_Line Serve
begin

text \<open>
  src/main.rs: \<open>run\<close>, \<open>run_daemon\<close> with its monitor thread, and the signal flags.

  The lemmas show that the configuration check succeeds exactly on configurations the daemon
  would start with, and that whatever signals arrive and whatever the configuration file holds
  at each reload, the active configuration is always sound, passed the FIPS gate when it asks for
  it, and keeps the listener of the start.
\<close>

section \<open>run and run_daemon\<close>

text \<open>The queries to the environment: the files, and OpenSSL's two FIPS queries.\<close>

record system =
  sys_read :: "bytes \<Rightarrow> bytes + bytes"
  sys_default_properties :: "int option"
  sys_fips_mode :: "int option"

definition sys_check_fips :: "system \<Rightarrow> bool \<Rightarrow> config_error + unit" where
  "sys_check_fips sys required =
     check_fips_environment required (sys_read sys) (sys_default_properties sys) (sys_fips_mode sys)"

text \<open>A failed key generation and a failed service come with the path and the address that their messages
  name.\<close>

datatype run_error =
    Usage usage_error
  | Key_Generation bytes keygen_error
  | Configuration config_error
  | Cannot_Install_Signal_Handlers
  | Serving listen_addr serve_error

text \<open>What a successful run has printed, or that the daemon ran until shutdown.\<close>

datatype run_result = Printed_Version | Printed_Usage | Printed_Key generated_key | Configuration_Valid | Served

text \<open>The signals the program handles and what its handlers do; \<open>fails\<close> says for which signals \<open>sigaction\<close>
  fails. A signal without a handler keeps its default action.\<close>

datatype signal = SIGHUP | SIGTERM | SIGINT

datatype signal_handler = On_Reload | On_Shutdown

type_synonym dispositions = "signal \<rightharpoonup> signal_handler"

definition install_signal :: "(signal \<Rightarrow> bool) \<Rightarrow> signal \<Rightarrow> signal_handler \<Rightarrow> dispositions \<Rightarrow> bool \<times> dispositions" where
  "install_signal fails sig handler d = (if fails sig then (True, d) else (False, d(sig \<mapsto> handler)))"

definition install_signal_handlers ::
  "(signal \<Rightarrow> bool) \<Rightarrow> dispositions \<Rightarrow> (run_error + unit) \<times> dispositions" where
  "install_signal_handlers fails d =
     (case install_signal fails SIGHUP On_Reload d of (failed, d) \<Rightarrow>
        if failed then (Inl Cannot_Install_Signal_Handlers, d) else
      case install_signal fails SIGTERM On_Shutdown d of (failed, d) \<Rightarrow>
        if failed then (Inl Cannot_Install_Signal_Handlers, d) else
      case install_signal fails SIGINT On_Shutdown d of (failed, d) \<Rightarrow>
        if failed then (Inl Cannot_Install_Signal_Handlers, d) else (Inr (), d))"

lemma install_signal_handlers_Inr:
  "install_signal_handlers fails d = (Inr (), d') \<longleftrightarrow>
     \<not> fails SIGHUP \<and> \<not> fails SIGTERM \<and> \<not> fails SIGINT \<and>
     d' = d(SIGHUP \<mapsto> On_Reload, SIGTERM \<mapsto> On_Shutdown, SIGINT \<mapsto> On_Shutdown)"
  by (auto simp: install_signal_handlers_def install_signal_def)

definition worker_count :: "nat option \<Rightarrow> nat" where
  "worker_count parallelism = (let n = (case parallelism of None \<Rightarrow> 4 | Some n \<Rightarrow> n) in max 2 (min n 32))"

text \<open>\<open>serve\<close> is what \<open>milter::serve\<close> does to the file system and returns, for the initial configuration and the
  number of workers; its threads are the subject of the theories \<open>Serve\<close> and \<open>Process\<close> and of the monitor
  below.\<close>

definition run_daemon ::
  "('h, 'k, 's) openssl \<Rightarrow> system \<Rightarrow> (signal \<Rightarrow> bool) \<Rightarrow> nat option
    \<Rightarrow> ('k runtime_config \<Rightarrow> nat \<Rightarrow> (fs_world, serve_error, unit) act) \<Rightarrow> bytes \<Rightarrow> bool
    \<Rightarrow> (fs_world, run_error, run_result) act" where
  "run_daemon ossl sys fails parallelism serve config_path check_only =
     (case load ossl (sys_read sys) config_path of
        Inl e \<Rightarrow> err (Configuration e)
      | Inr initial \<Rightarrow>
          (case sys_check_fips sys (cfg_require_fips initial) of
             Inl e \<Rightarrow> err (Configuration e)
           | Inr _ \<Rightarrow>
               if check_only then ok Configuration_Valid
               else
                 (case fst (install_signal_handlers fails Map.empty) of
                    Inl e \<Rightarrow> err e
                  | Inr _ \<Rightarrow>
                      bind_act (map_err (Serving (cfg_listen initial)) (serve initial (worker_count parallelism)))
                        (\<lambda>_. ok Served))))"

definition run ::
  "('h, 'k, 's) openssl \<Rightarrow> ('c, 'k) rsa_keygen \<Rightarrow> system \<Rightarrow> (signal \<Rightarrow> bool) \<Rightarrow> nat option
    \<Rightarrow> ('k runtime_config \<Rightarrow> nat \<Rightarrow> (fs_world, serve_error, unit) act) \<Rightarrow> (nat \<Rightarrow> nat) \<Rightarrow> nat \<Rightarrow> bytes list
    \<Rightarrow> (fs_world, run_error, run_result) act" where
  "run ossl kg sys fails parallelism serve umask pid args =
     (case parse_args args of
        Inl e \<Rightarrow> err (Usage e)
      | Inr Version \<Rightarrow> ok Printed_Version
      | Inr Help \<Rightarrow> ok Printed_Usage
      | Inr (Generate_Key options) \<Rightarrow>
          bind_act (map_err (Key_Generation (go_private_key options))
            (generate ossl kg (sys_check_fips sys (go_require_fips options)) umask pid options))
            (\<lambda>generated. ok (Printed_Key generated))
      | Inr (Serve_Command config_path check_only) \<Rightarrow>
          run_daemon ossl sys fails parallelism serve config_path check_only)"

text \<open>\<open>main\<close>: the exit status, and whether a line goes to standard error.\<close>

definition exit_success :: "run_error + 'a \<Rightarrow> bool" where
  "exit_success r = (case r of Inr _ \<Rightarrow> True | Inl _ \<Rightarrow> False)"

section \<open>The monitor thread\<close>

datatype monitor_line = Reload_Rejected config_error | Listen_Cannot_Change | Reloaded

text \<open>One reload: what becomes of the active configuration, and the line logged. The lock holds
  \<open>None\<close> when it is poisoned.\<close>

definition reload ::
  "('h, 'k, 's) openssl \<Rightarrow> system \<Rightarrow> bytes \<Rightarrow> 'k runtime_config option
    \<Rightarrow> 'k runtime_config option \<times> monitor_line list" where
  "reload ossl sys path current =
     (case load ossl (sys_read sys) path of
        Inl e \<Rightarrow> (current, [Reload_Rejected e])
      | Inr config \<Rightarrow>
          let old_listen = map_option cfg_listen current
          in (case sys_check_fips sys (cfg_require_fips config) of
                Inl e \<Rightarrow> (current, [Reload_Rejected e])
              | Inr _ \<Rightarrow>
                  if old_listen \<noteq> Some (cfg_listen config) then (current, [Listen_Cannot_Change])
                  else (case current of
                      None \<Rightarrow> (current, [])
                    | Some _ \<Rightarrow> (Some config, [Reloaded]))))"

text \<open>Where the monitor stands: before the test of its loop, before the swap of the flag, before the
  reload, asleep, before it raises the shutdown flag of \<open>serve\<close>, done.\<close>

datatype monitor_state = Testing | Swapping | Reloading | Sleeping | Stopping | Stopped

record 'k monitor =
  mo_reload :: bool
  mo_shutdown :: bool
  mo_state :: monitor_state
  mo_active :: "'k runtime_config option"
  mo_stop_serving :: bool
  mo_log :: "monitor_line list"

definition monitor_start :: "'k runtime_config \<Rightarrow> 'k monitor" where
  "monitor_start initial =
     \<lparr>mo_reload = False, mo_shutdown = False, mo_state = Testing, mo_active = Some initial,
      mo_stop_serving = False, mo_log = []\<rparr>"

text \<open>The signal handlers.\<close>

definition on_reload :: "'k monitor \<Rightarrow> 'k monitor" where
  "on_reload s = s\<lparr>mo_reload := True\<rparr>"

definition on_shutdown :: "'k monitor \<Rightarrow> 'k monitor" where
  "on_shutdown s = s\<lparr>mo_shutdown := True\<rparr>"

declare on_reload_def [simp] on_shutdown_def [simp]

text \<open>The handlers run at any time; \<open>serve\<close> returning raises \<open>SHUTDOWN\<close> too. The system may answer
  differently at every reload.\<close>

inductive monitor_step ::
  "('h, 'k, 's) openssl \<Rightarrow> bytes \<Rightarrow> 'k monitor \<Rightarrow> 'k monitor \<Rightarrow> bool"
  for ossl :: "('h, 'k, 's) openssl" and path :: bytes where
  reload_signal: "monitor_step ossl path s (on_reload s)"
| shutdown_signal: "monitor_step ossl path s (on_shutdown s)"
| test_stop: "mo_state s = Testing \<Longrightarrow> mo_shutdown s \<Longrightarrow> monitor_step ossl path s (s\<lparr>mo_state := Stopping\<rparr>)"
| test_go: "mo_state s = Testing \<Longrightarrow> \<not> mo_shutdown s \<Longrightarrow> monitor_step ossl path s (s\<lparr>mo_state := Swapping\<rparr>)"
| swap: "mo_state s = Swapping \<Longrightarrow>
    monitor_step ossl path s (s\<lparr>mo_reload := False, mo_state := if mo_reload s then Reloading else Sleeping\<rparr>)"
| reloads: "mo_state s = Reloading \<Longrightarrow> reload ossl sys path (mo_active s) = (current, lines) \<Longrightarrow>
    monitor_step ossl path s (s\<lparr>mo_active := current, mo_log := mo_log s @ lines, mo_state := Sleeping\<rparr>)"
| wakes: "mo_state s = Sleeping \<Longrightarrow> monitor_step ossl path s (s\<lparr>mo_state := Testing\<rparr>)"
| stops: "mo_state s = Stopping \<Longrightarrow>
    monitor_step ossl path s (s\<lparr>mo_stop_serving := True, mo_state := Stopped\<rparr>)"

section \<open>What stays true of the current configuration\<close>

text \<open>A configuration that may be active: sound, through the FIPS gate, on the first listener.\<close>

definition admissible :: "('h, 'k, 's) openssl \<Rightarrow> listen_addr \<Rightarrow> 'k runtime_config \<Rightarrow> bool" where
  "admissible ossl listen c \<longleftrightarrow>
     config_ok ossl c \<and> cfg_listen c = listen \<and>
     (\<exists>sys path. load ossl (sys_read sys) path = Inr c \<and> sys_check_fips sys (cfg_require_fips c) = Inr ())"

lemma reload_admissible:
  assumes "reload ossl sys path (Some c) = (current, lines)" and "admissible ossl listen c"
  shows "\<exists>c'. current = Some c' \<and> admissible ossl listen c' \<and>
    (c' = c \<or> lines = [Reloaded] \<and> load ossl (sys_read sys) path = Inr c')"
  using assms load_config_ok [of ossl "sys_read sys" path]
  by (auto simp: reload_def admissible_def Let_def split: sum.splits if_splits)

lemma monitor_active:
  assumes "(monitor_step ossl path)\<^sup>*\<^sup>* (monitor_start initial) s" and "admissible ossl listen initial"
  shows "\<exists>c. mo_active s = Some c \<and> admissible ossl listen c"
  using assms(1)
proof (induction rule: rtranclp_induct)
  case base
  then show ?case
    using assms(2) by (simp add: monitor_start_def)
next
  case (step s t)
  from step(2,3) show ?case
    by cases (use reload_admissible in fastforce)+
qed

section \<open>Shutting down\<close>

fun monitor_rank :: "monitor_state \<Rightarrow> nat" where
  "monitor_rank Swapping = 5"
| "monitor_rank Reloading = 4"
| "monitor_rank Sleeping = 3"
| "monitor_rank Testing = 2"
| "monitor_rank Stopping = 1"
| "monitor_rank Stopped = 0"

text \<open>A step of the monitor itself, not of a signal handler.\<close>

definition own_step :: "('h, 'k, 's) openssl \<Rightarrow> bytes \<Rightarrow> 'k monitor \<Rightarrow> 'k monitor \<Rightarrow> bool" where
  "own_step ossl path s t \<longleftrightarrow> monitor_step ossl path s t \<and> mo_state t \<noteq> mo_state s"

lemma own_step_rank:
  assumes "own_step ossl path s t" and "mo_shutdown s"
  shows "mo_shutdown t \<and> monitor_rank (mo_state t) < monitor_rank (mo_state s)"
  using assms(1) unfolding own_step_def
  by (elim conjE monitor_step.cases) (use assms(2) in auto)

lemma monitor_stopped:
  assumes "(monitor_step ossl path)\<^sup>*\<^sup>* (monitor_start initial) s"
  shows "mo_state s = Stopped \<longrightarrow> mo_stop_serving s"
  using assms
proof (induction rule: rtranclp_induct)
  case (step s t)
  from step(2,3) show ?case
    by cases auto
qed (simp add: monitor_start_def)

lemma monitor_moves:
  assumes "mo_state s \<noteq> Stopped"
  shows "\<exists>t. own_step ossl path s t"
proof -
  have own: "own_step ossl path s t" if "monitor_step ossl path s t" "mo_state t \<noteq> mo_state s" for t
    using that by (simp add: own_step_def)
  show ?thesis
  proof (cases "mo_state s")
    case Testing
    then show ?thesis
      using own [OF test_stop] own [OF test_go] by (cases "mo_shutdown s") auto
  next
    case Swapping
    then show ?thesis
      using own [OF swap] by (cases "mo_reload s") auto
  next
    case Reloading
    obtain a ls where "reload ossl \<lparr>sys_read = (\<lambda>p. Inl []), sys_default_properties = None, sys_fips_mode = None\<rparr> path (mo_active s) = (a, ls)"
      by (cases "reload ossl \<lparr>sys_read = (\<lambda>p. Inl []), sys_default_properties = None, sys_fips_mode = None\<rparr> path (mo_active s)")
    then show ?thesis
      using own [OF reloads] Reloading by fastforce
  next
    case Sleeping
    then show ?thesis
      using own [OF wakes] by auto
  next
    case Stopping
    then show ?thesis
      using own [OF stops] by auto
  qed (use assms in simp)
qed

definition sample_system :: system where
  "sample_system = \<lparr>sys_read = sample_read, sys_default_properties = Some 1, sys_fips_mode = None\<rparr>"

lemma sample_shutdown:
  "(monitor_step sample_openssl ''/c'')\<^sup>*\<^sup>* (monitor_start sample_config)
     ((monitor_start sample_config)\<lparr>mo_reload := True, mo_shutdown := True\<rparr>)"
proof -
  have "monitor_step sample_openssl ''/c'' (monitor_start sample_config) ((monitor_start sample_config)\<lparr>mo_reload := True\<rparr>)"
    using reload_signal [of sample_openssl "''/c''" "monitor_start sample_config"] by simp
  moreover have "monitor_step sample_openssl ''/c'' ((monitor_start sample_config)\<lparr>mo_reload := True\<rparr>)
      ((monitor_start sample_config)\<lparr>mo_reload := True, mo_shutdown := True\<rparr>)"
    using shutdown_signal [of sample_openssl "''/c''" "(monitor_start sample_config)\<lparr>mo_reload := True\<rparr>"] by simp
  ultimately show ?thesis
    by (blast intro: rtranclp.intros)
qed

section \<open>Properties\<close>

text \<open>Whatever signals arrive, and whatever the configuration file and the system say at each
  reload, the active configuration of a daemon that started is always one that loaded and is
  sound, passed the FIPS gate if it requires FIPS, and has the listener of the start.\<close>

theorem daemon_configuration_safe:
  assumes "load ossl (sys_read sys) path = Inr initial"
    and "sys_check_fips sys (cfg_require_fips initial) = Inr ()"
    and "(monitor_step ossl path)\<^sup>*\<^sup>* (monitor_start initial) s"
  shows "\<exists>c sys' path'. mo_active s = Some c \<and> config_ok ossl c \<and> cfg_listen c = cfg_listen initial \<and>
    load ossl (sys_read sys') path' = Inr c \<and> sys_check_fips sys' (cfg_require_fips c) = Inr ()"
proof -
  have "admissible ossl (cfg_listen initial) initial"
    using assms(1,2) load_config_ok [OF assms(1)] by (auto simp: admissible_def)
  from monitor_active [OF assms(3) this] show ?thesis
    by (auto simp: admissible_def)
qed

lemma daemon_configuration_safe_witness:
  "\<exists>c sys' path'. mo_active ((monitor_start sample_config)\<lparr>mo_reload := True, mo_shutdown := True\<rparr>) = Some c \<and>
    config_ok sample_openssl c \<and> cfg_listen c = cfg_listen sample_config \<and>
    load sample_openssl (sys_read sys') path' = Inr c \<and> sys_check_fips sys' (cfg_require_fips c) = Inr ()"
proof (rule daemon_configuration_safe [OF _ _ sample_shutdown])
  show "load sample_openssl (sys_read sample_system) ''/c'' = Inr sample_config"
    using load_sample by (simp add: sample_system_def)
  show "sys_check_fips sample_system (cfg_require_fips sample_config) = Inr ()"
    by code_simp
qed

text \<open>A reload is all or nothing: the active configuration is replaced by exactly the one that
  the file now holds, if that loads, passes the FIPS gate and keeps the listener, and one line says
  so; otherwise it stays as it is, and the line logged is a rejection.\<close>

theorem reload_all_or_nothing:
  "reload ossl sys path (Some c) =
     (case load ossl (sys_read sys) path of
        Inr c' \<Rightarrow>
          if sys_check_fips sys (cfg_require_fips c') = Inr () \<and> cfg_listen c' = cfg_listen c
          then (Some c', [Reloaded])
          else (Some c, [case sys_check_fips sys (cfg_require_fips c') of
              Inl e \<Rightarrow> Reload_Rejected e | Inr _ \<Rightarrow> Listen_Cannot_Change])
      | Inl e \<Rightarrow> (Some c, [Reload_Rejected e]))"
  by (auto simp: reload_def Let_def split: sum.splits)

text \<open>C33: \<open>--check-config\<close> predicts the start. Take a command line that asks to check the configuration at a path, and
  one that asks to serve with it, whatever the order of their arguments. The check reports a valid
  configuration exactly when the start gets as far as the signal handlers, with a sound configuration: if one
  of them cannot be installed, the start ends there with that error and has changed nothing; otherwise it
  does what \<open>serve\<close> does with this configuration and 2 to 32 workers. If the check reports an error, the start
  ends with the same one. The check itself leaves the file system as it is.\<close>

theorem check_config_predicts_start:
  assumes "parse_args checking = Inr (Serve_Command path True)"
    and "parse_args starting = Inr (Serve_Command path False)"
  shows "(fst (run ossl kg sys fails parallelism serve umask pid checking w) = Inr Configuration_Valid \<longleftrightarrow>
      (\<exists>c n. load ossl (sys_read sys) path = Inr c \<and> config_ok ossl c \<and> 2 \<le> n \<and> n \<le> 32 \<and>
        (\<forall>serve' v. run ossl kg sys fails parallelism serve' umask pid starting v =
          (if fails SIGHUP \<or> fails SIGTERM \<or> fails SIGINT then (Inl Cannot_Install_Signal_Handlers, v)
           else case serve' c n v of (result, v') \<Rightarrow> (map_sum (Serving (cfg_listen c)) (\<lambda>_. Served) result, v'))))) \<and>
    (\<forall>e. fst (run ossl kg sys fails parallelism serve umask pid checking w) = Inl e \<longrightarrow>
      (\<forall>serve' v. run ossl kg sys fails parallelism serve' umask pid starting v = (Inl e, v))) \<and>
    snd (run ossl kg sys fails parallelism serve umask pid checking w) = w"
proof -
  let ?fails = "fails SIGHUP \<or> fails SIGTERM \<or> fails SIGINT"
  have handlers: "fst (install_signal_handlers fails Map.empty) =
      (if ?fails then Inl Cannot_Install_Signal_Handlers else Inr ())"
    by (auto simp: install_signal_handlers_def install_signal_def)
  have n: "2 \<le> worker_count parallelism" "worker_count parallelism \<le> 32"
    by (simp_all add: worker_count_def Let_def)
  have served: "bind_act (map_err h (m :: (fs_world, serve_error, unit) act)) (\<lambda>_. ok Served) v =
      (case m v of (result, v') \<Rightarrow> (map_sum h (\<lambda>_. Served) result, v'))"
    for h :: "serve_error \<Rightarrow> run_error" and m v
    by (simp add: act_simps split: prod.split sum.split)
  have rejected: ?thesis
    if start: "\<And>serve' v. run ossl kg sys fails parallelism serve' umask pid starting v = (Inl (Configuration e), v)"
      and check: "run ossl kg sys fails parallelism serve umask pid checking w = (Inl (Configuration e), w)" for e
  proof -
    let ?serves = "\<lambda>c n. \<forall>serve' v. run ossl kg sys fails parallelism serve' umask pid starting v =
        (if ?fails then (Inl Cannot_Install_Signal_Handlers, v)
         else case serve' c n v of (result, v') \<Rightarrow> (map_sum (Serving (cfg_listen c)) (\<lambda>_. Served) result, v'))"
    have "\<not> ?serves c n" for c n
    proof
      assume "?serves c n"
      from this [rule_format, of "\<lambda>_ _. ok ()" w] start show False
        by (simp add: act_simps split: if_splits)
    qed
    then have "\<not> (\<exists>c n. load ossl (sys_read sys) path = Inr c \<and> config_ok ossl c \<and> 2 \<le> n \<and> n \<le> 32 \<and> ?serves c n)"
      by blast
    with start check show ?thesis
      by simp
  qed
  show ?thesis
  proof (cases "load ossl (sys_read sys) path")
    case (Inl e)
    then show ?thesis
      using assms by (intro rejected [of e]) (simp_all add: run_def run_daemon_def act_simps)
  next
    case load: (Inr c)
    show ?thesis
    proof (cases "sys_check_fips sys (cfg_require_fips c)")
      case (Inl e)
      then show ?thesis
        using assms load by (intro rejected [of e]) (simp_all add: run_def run_daemon_def act_simps)
    next
      case (Inr u)
      have "run ossl kg sys fails parallelism serve' umask pid starting v =
          (if ?fails then (Inl Cannot_Install_Signal_Handlers, v)
           else case serve' c (worker_count parallelism) v of
             (result, v') \<Rightarrow> (map_sum (Serving (cfg_listen c)) (\<lambda>_. Served) result, v'))" for serve' v
        using assms Inr load by (simp add: run_def run_daemon_def handlers served) (simp add: act_simps)
      moreover have "run ossl kg sys fails parallelism serve umask pid checking w = (Inr Configuration_Valid, w)"
        using assms Inr load by (simp add: run_def run_daemon_def act_simps)
      ultimately show ?thesis
        using n load load_config_ok [OF load] by auto
    qed
  qed
qed

lemma check_config_predicts_start_witness:
  "\<exists>c :: unit runtime_config. run sample_openssl sample_keygen sample_system (\<lambda>_. False) None (\<lambda>_ _. err Worker_Panicked)
       id 7 [''dkim-lite'', ''--config'', ''/c''] sample_world = (Inl (Serving (cfg_listen c) Worker_Panicked), sample_world)"
proof -
  have check: "parse_args [''dkim-lite'', ''--check-config'', ''--config'', ''/c''] = Inr (Serve_Command ''/c'' True)"
    and starting: "parse_args [''dkim-lite'', ''--config'', ''/c''] = Inr (Serve_Command ''/c'' False)"
    by code_simp+
  have load: "load sample_openssl (sys_read sample_system) ''/c'' = Inr sample_config"
    using load_sample by (simp add: sample_system_def)
  have "sys_check_fips sample_system (cfg_require_fips sample_config) = Inr ()"
    by code_simp
  with load check have "fst (run sample_openssl sample_keygen sample_system (\<lambda>_. False) None
      (\<lambda>_ _. ok ()) id 7 [''dkim-lite'', ''--check-config'', ''--config'', ''/c''] sample_world) = Inr Configuration_Valid"
    by (simp add: run_def run_daemon_def act_simps)
  with check_config_predicts_start [OF check starting, of sample_openssl sample_keygen
      sample_system "\<lambda>_. False" None "\<lambda>_ _. ok ()" id 7 sample_world]
  obtain c n where start: "\<forall>serve' v. run sample_openssl sample_keygen sample_system
      (\<lambda>_. False) None serve' id 7 [''dkim-lite'', ''--config'', ''/c''] v =
      (case serve' c n v of (result, v') \<Rightarrow> (map_sum (Serving (cfg_listen c)) (\<lambda>_. Served) result, v'))"
    by (elim conjE) (simp only: simp_thms if_False, blast)
  show ?thesis
    by (intro exI [of _ c]) (simp add: start act_simps)
qed

text \<open>A shutdown signal reaches the serving threads: from any reachable state with the signal
  flag set, the monitor takes at most five more steps of its own, and when it can take none it
  has raised the flag of \<open>serve\<close>.\<close>

theorem monitor_stops:
  assumes "(monitor_step ossl path)\<^sup>*\<^sup>* (monitor_start initial) s" and "mo_shutdown s"
    and "(own_step ossl path ^^ n) s t"
  shows "n \<le> 5 \<and> ((\<exists>u. own_step ossl path t u) \<or> mo_stop_serving t)"
proof -
  have "mo_shutdown t \<and> monitor_rank (mo_state t) + n \<le> monitor_rank (mo_state s) \<and>
      (monitor_step ossl path)\<^sup>*\<^sup>* (monitor_start initial) t"
    using assms(3)
  proof (induction n arbitrary: t)
    case 0
    then show ?case
      using assms(1,2) by simp
  next
    case (Suc n)
    obtain u where u: "(own_step ossl path ^^ n) s u" "own_step ossl path u t"
      using Suc.prems by (rule relpowp_Suc_E)
    with Suc.IH [OF u(1)] own_step_rank [OF u(2)] show ?case
      by (auto simp: own_step_def intro: rtranclp.rtrancl_into_rtrancl)
  qed
  moreover have "monitor_rank (mo_state s) \<le> 5"
    by (cases "mo_state s") simp_all
  ultimately show ?thesis
    using monitor_moves [of t ossl path] monitor_stopped [of ossl path initial t] by auto
qed

lemma monitor_stops_witness:
  "\<exists>u. own_step sample_openssl ''/c''
     ((monitor_start sample_config)\<lparr>mo_reload := True, mo_shutdown := True\<rparr>) u"
  using monitor_stops [OF sample_shutdown, of 0] by (simp add: monitor_start_def)

end
