(* ===== verification/Report.thy ===== *)
theory Report
  imports Daemon
begin

text \<open>
  What the program prints: the text of every error, the lines on standard error, what a run of the
  command prints on standard output, and \<open>main\<close>, which turns the result of \<open>run\<close> into output and an exit
  status (src/main.rs, with the messages of src/config.rs, src/keygen.rs, src/dkim.rs and src/milter.rs).

  The lemmas show that no client of the milter can put a line of its own, or any byte that is not
  printable ASCII, into the log.
\<close>

section \<open>Texts of the standard library\<close>

text \<open>\<open>io_text\<close> is the \<open>Display\<close> of \<open>io::Error\<close>, which is the operating system's text where the program gives none
  of its own; \<open>unicode_debug\<close> is what \<open>Debug\<close> of a string makes of a character outside ASCII, which the tables of
  Unicode decide.\<close>

record texts =
  io_text :: "io_error \<Rightarrow> bytes"
  unicode_debug :: "bytes \<Rightarrow> bytes"

text \<open>\<open>{:?}\<close> of a string.\<close>

definition debug_ascii :: "byte \<Rightarrow> bytes" where
  "debug_ascii b =
     (if b = NUL then [BACKSLASH, CHR ''0'']
      else if b = TAB then [BACKSLASH, CHR ''t'']
      else if b = CR then [BACKSLASH, CHR ''r'']
      else if b = LF then [BACKSLASH, CHR ''n'']
      else if b = DQUOTE \<or> b = BACKSLASH then [BACKSLASH, b]
      else if is_ascii_control b then [BACKSLASH] @ ''u{'' @ hex (code b) @ ''}''
      else [b])"

text \<open>The length of a UTF-8 character by its first byte.\<close>

definition utf8_length :: "byte \<Rightarrow> nat" where
  "utf8_length b = (if code b < 224 then 2 else if code b < 240 then 3 else 4)"

fun debug_chars :: "texts \<Rightarrow> bytes \<Rightarrow> bytes" where
  "debug_chars tx [] = []"
| "debug_chars tx (b # s) =
     (if is_ascii b then debug_ascii b @ debug_chars tx s
      else unicode_debug tx (take (utf8_length b) (b # s)) @ debug_chars tx (drop (utf8_length b - 1) s))"

definition debug_str :: "texts \<Rightarrow> bytes \<Rightarrow> bytes" where
  "debug_str tx s = [DQUOTE] @ debug_chars tx s @ [DQUOTE]"

text \<open>\<open>Path::parent\<close> of an absolute path, as it is displayed: trailing separators and \<open>.\<close> components go, then the last
  component and the separators before it. On the reversed path.\<close>

fun trim_separators :: "bytes \<Rightarrow> bytes" where
  "trim_separators (a # b # s) =
     (if a = CHR ''/'' then trim_separators (b # s)
      else if a = CHR ''.'' \<and> b = CHR ''/'' then trim_separators (b # s)
      else a # b # s)"
| "trim_separators s = s"

definition parent_text :: "bytes \<Rightarrow> bytes" where
  "parent_text p = rev (trim_separators (dropWhile (\<lambda>b. b \<noteq> CHR ''/'') (trim_separators (rev p))))"

section \<open>The texts of the errors\<close>

definition fips_status_path :: bytes where
  "fips_status_path = ''/proc/sys/crypto/fips_enabled''"

fun config_error_text :: "texts \<Rightarrow> config_error \<Rightarrow> bytes" where
  "config_error_text tx (Cannot_Read path e) = ''cannot read '' @ path @ '': '' @ e"
| "config_error_text tx (Expected_Assignment n) = ''line '' @ dec n @ '': expected name=value''"
| "config_error_text tx (Empty_Value n name) = ''line '' @ dec n @ '': empty value for '' @ name"
| "config_error_text tx (Duplicate_Setting n name) = ''line '' @ dec n @ '': duplicate setting '' @ name"
| "config_error_text tx (Bad_Require_Fips n) = ''line '' @ dec n @ '': require_fips must be true or false''"
| "config_error_text tx (Unknown_Setting n name) = ''line '' @ dec n @ '': unknown setting '' @ name"
| "config_error_text tx (Invalid_Name kind name) = ''invalid '' @ kind @ '': '' @ name"
| "config_error_text tx Unix_Path_Not_Absolute = ''unix listen path must be absolute''"
| "config_error_text tx (Invalid_Tcp_Address addr) = ''invalid TCP listen address: '' @ addr"
| "config_error_text tx Tcp_Not_Loopback = ''TCP listener must use a loopback address''"
| "config_error_text tx Listen_Without_Scheme = ''listen must start with unix: or tcp:''"
| "config_error_text tx (Missing_Setting name) = ''missing '' @ name"
| "config_error_text tx Key_Path_Not_Absolute = ''private_key must be an absolute path''"
| "config_error_text tx (Cannot_Read_Key path e) = ''cannot read private key '' @ path @ '': '' @ e"
| "config_error_text tx (Cannot_Parse_Key e) = ''cannot parse unencrypted PEM private key: '' @ e"
| "config_error_text tx Key_Not_Rsa = ''private key must be RSA''"
| "config_error_text tx (Key_Too_Small n) = ''RSA key is '' @ dec n @ '' bits; at least 2048 required''"
| "config_error_text tx (Key_Too_Large n) = ''RSA key is '' @ dec n @ '' bits; at most 4096 supported''"
| "config_error_text tx (Signer_Unavailable e) = ''RSA-SHA256 is unavailable from system OpenSSL: '' @ e"
| "config_error_text tx (Self_Test_Failed e) = ''RSA-SHA256 startup self-test failed: '' @ e"
| "config_error_text tx Fips_Openssl_Off =
     ''kernel FIPS mode is enabled but system OpenSSL is not in FIPS mode''"
| "config_error_text tx Fips_Kernel_Off =
     ''system FIPS mode is disabled; dkim-lite production builds require FIPS''"
| "config_error_text tx (Fips_Unexpected_Status v) =
     ''unexpected FIPS status in '' @ fips_status_path @ '': '' @ debug_str tx v"
| "config_error_text tx (Fips_Unreadable e) = ''cannot inspect '' @ fips_status_path @ '': '' @ e"

fun usage_error_text :: "usage_error \<Rightarrow> bytes" where
  "usage_error_text Config_Requires_Path = ''--config requires a path''"
| "usage_error_text (Duplicate_Argument a) = ''duplicate '' @ a"
| "usage_error_text (Unknown_Argument a) = ''unknown argument: '' @ a"
| "usage_error_text (Requires_Value a) = a @ '' requires a value''"
| "usage_error_text Bits_Not_Integer = ''--bits requires an integer''"
| "usage_error_text Fips_Not_Boolean = ''--require-fips must be true or false''"
| "usage_error_text (Unknown_Generate_Argument a) = ''unknown generate-key argument: '' @ a"
| "usage_error_text (Missing_Argument a) = ''generate-key requires '' @ a"

text \<open>\<open>target\<close> is the path of the private key as the user wrote it.\<close>

fun keygen_error_text :: "texts \<Rightarrow> bytes \<Rightarrow> keygen_error \<Rightarrow> bytes" where
  "keygen_error_text tx target (Config_Problem e) = config_error_text tx e"
| "keygen_error_text tx target Bad_Bits = ''RSA bits must be 2048, 3072, or 4096''"
| "keygen_error_text tx target Output_Not_Absolute = ''private key output path must be absolute''"
| "keygen_error_text tx target (Rsa_Init e) = ''system OpenSSL cannot initialize RSA key generation: '' @ e"
| "keygen_error_text tx target (Rsa_Configure e) = ''system OpenSSL cannot configure RSA key generation: '' @ e"
| "keygen_error_text tx target (Rsa_Generate e) = ''system OpenSSL RSA key generation failed: '' @ e"
| "keygen_error_text tx target (Public_Encoding e) = ''cannot encode RSA public key: '' @ e"
| "keygen_error_text tx target (Private_Encoding e) = ''cannot encode PKCS#8 private key: '' @ e"
| "keygen_error_text tx target (Would_Overwrite _) = ''refusing to overwrite '' @ target"
| "keygen_error_text tx target No_Parent = ''private key output path has no parent directory''"
| "keygen_error_text tx target (Parent_Missing _) = ''parent directory does not exist: '' @ parent_text target"
| "keygen_error_text tx target Invalid_File_Name = ''private key output filename is invalid''"
| "keygen_error_text tx target (Cannot_Create_Temporary e) = ''cannot create temporary key file: '' @ io_text tx e"
| "keygen_error_text tx target (Cannot_Secure_Temporary e) = ''cannot secure temporary key file: '' @ io_text tx e"
| "keygen_error_text tx target No_Unique_Temporary = ''cannot allocate a unique temporary key filename''"
| "keygen_error_text tx target (Cannot_Write e) = ''cannot write '' @ target @ '': '' @ io_text tx e"
| "keygen_error_text tx target (Cannot_Install e) =
     ''cannot install private key '' @ target @ '': '' @ io_text tx e"
| "keygen_error_text tx target (Cannot_Remove_Temporary e) = ''cannot remove temporary key file: '' @ io_text tx e"

text \<open>The path of a Unix listener, as the configuration file writes it.\<close>

fun listen_path :: "listen_addr \<Rightarrow> bytes" where
  "listen_path (Unix_Addr p) = p"
| "listen_path (Tcp_Addr _) = []"

fun serve_error_text :: "texts \<Rightarrow> listen_addr \<Rightarrow> serve_error \<Rightarrow> bytes" where
  "serve_error_text tx listen (Tcp_Bind sa e) =
     ''cannot bind TCP listener '' @ socket_addr_text sa @ '': '' @ io_text tx e"
| "serve_error_text tx listen (Tcp_Configure e) = ''cannot configure TCP listener: '' @ io_text tx e"
| "serve_error_text tx listen (Not_A_Socket _) = ''refusing to replace non-socket path '' @ listen_path listen"
| "serve_error_text tx listen (Cannot_Remove_Stale _ e) =
     ''cannot remove stale socket '' @ listen_path listen @ '': '' @ io_text tx e"
| "serve_error_text tx listen (Unix_Bind _ e) =
     ''cannot bind Unix socket '' @ listen_path listen @ '': '' @ io_text tx e"
| "serve_error_text tx listen (Cannot_Set_Mode _ e) =
     ''cannot set permissions on '' @ listen_path listen @ '': '' @ io_text tx e"
| "serve_error_text tx listen (Unix_Configure e) = ''cannot configure Unix listener: '' @ io_text tx e"
| "serve_error_text tx listen (Readiness_Failed e) = ''listener readiness failed: '' @ io_text tx e"
| "serve_error_text tx listen (Listener_Failed e) = ''listener failed: '' @ io_text tx e"
| "serve_error_text tx listen Worker_Panicked = ''milter worker thread panicked''"

fun sign_error_text :: "sign_error \<Rightarrow> bytes" where
  "sign_error_text Not_One_From = ''message must contain exactly one From header''"
| "sign_error_text No_From_Domain = ''cannot extract a single From domain''"
| "sign_error_text (From_Domain_Mismatch d) = ''From domain '' @ d @ '' does not match configured domain''"
| "sign_error_text Clock_Before_Epoch = ''system clock is before Unix epoch''"
| "sign_error_text (Signer_Init e) = ''cannot initialize RSA-SHA256 signer: '' @ e"
| "sign_error_text (Hash_Header e) = ''cannot hash header: '' @ e"
| "sign_error_text (Hash_Signature e) = ''cannot hash DKIM-Signature: '' @ e"
| "sign_error_text (Signing_Failed e) = ''RSA-SHA256 signing failed: '' @ e"

fun message_error_text :: "message_error \<Rightarrow> bytes" where
  "message_error_text Malformed_Header_Packet = ''malformed milter header packet''"
| "message_error_text Malformed_Header_Value = ''malformed milter header value''"
| "message_error_text Header_Limit_Exceeded = ''message header limit exceeded''"
| "message_error_text Invalid_Header = ''invalid header supplied by MTA''"
| "message_error_text Body_Before_Start = ''body received before message start''"
| "message_error_text End_Before_Start = ''end of message received before message start''"
| "message_error_text No_Permission = ''MTA did not grant permission to add headers''"
| "message_error_text (Not_Signed e) = sign_error_text e"

fun write_error_text :: "texts \<Rightarrow> write_error \<Rightarrow> bytes" where
  "write_error_text tx (Write_Error e) = ''cannot write milter response: '' @ io_text tx e"
| "write_error_text tx Response_Too_Large = ''milter response is too large''"

text \<open>\<open>{:02x}\<close> of a byte.\<close>

definition hex2 :: "byte \<Rightarrow> bytes" where
  "hex2 b = (if code b < 16 then ''0'' else []) @ hex (code b)"

fun close_error_text :: "texts \<Rightarrow> close_error \<Rightarrow> bytes" where
  "close_error_text tx (Reading e) = io_text tx e"
| "close_error_text tx Empty_Packet = ''empty milter packet''"
| "close_error_text tx Invalid_Negotiation = ''invalid option negotiation packet''"
| "close_error_text tx Lock_Poisoned = ''configuration lock poisoned''"
| "close_error_text tx No_Configuration = ''message has no configuration''"
| "close_error_text tx (Unsupported_Command c) = ''unsupported milter command 0x'' @ hex2 c"
| "close_error_text tx (Writing e) = write_error_text tx e"

fun run_error_text :: "texts \<Rightarrow> run_error \<Rightarrow> bytes" where
  "run_error_text tx (Usage e) = usage_error_text e"
| "run_error_text tx (Key_Generation target e) = keygen_error_text tx target e"
| "run_error_text tx (Configuration e) = config_error_text tx e"
| "run_error_text tx Cannot_Install_Signal_Handlers = ''cannot install signal handlers''"
| "run_error_text tx (Serving listen e) = serve_error_text tx listen e"

section \<open>What is printed\<close>

text \<open>The prefix of every line on standard error.\<close>

definition log_prefix :: bytes where
  "log_prefix = ''dkim-lite: ''"

text \<open>The constant \<open>USAGE\<close>.\<close>

definition usage_text :: bytes where
  "usage_text =
     ''Usage:'' @ [LF] @
     ''  dkim-lite [--config PATH] [--check-config]'' @ [LF] @
     ''  dkim-lite generate-key --domain DOMAIN --selector SELECTOR --private-key PATH '' @
     ''[--bits 2048|3072|4096] [--require-fips true|false]'' @ [LF] @
     ''  dkim-lite --version'' @ [LF]"

text \<open>The version of src/Cargo.toml.\<close>

definition package_version :: bytes where
  "package_version = ''0.2.0''"

fun run_stdout :: "run_result \<Rightarrow> bytes" where
  "run_stdout Printed_Version = ''dkim-lite '' @ package_version @ [LF]"
| "run_stdout Printed_Usage = usage_text"
| "run_stdout (Printed_Key generated) =
     ''generated '' @ dec (unat (gk_bits generated)) @ ''-bit RSA private key: '' @ gk_private_key generated @ [LF] @
     ''DNS record:'' @ [LF] @ gk_dns_record generated @ [LF]"
| "run_stdout Configuration_Valid = ''configuration valid'' @ [LF]"
| "run_stdout Served = []"

record process_output =
  out_stdout :: bytes
  out_stderr :: bytes
  out_success :: bool

text \<open>\<open>main\<close>. The daemon's threads write to standard error before it returns; their lines are below.\<close>

definition main_output :: "texts \<Rightarrow> run_error + run_result \<Rightarrow> process_output" where
  "main_output tx result =
     (case result of
        Inr r \<Rightarrow> \<lparr>out_stdout = run_stdout r, out_stderr = [], out_success = True\<rparr>
      | Inl e \<Rightarrow> \<lparr>out_stdout = [], out_stderr = log_prefix @ run_error_text tx e @ [LF], out_success = False\<rparr>)"

text \<open>The lines of the threads.\<close>

definition message_line :: "message_error \<Rightarrow> bytes" where
  "message_line e = log_prefix @ ''accepting message unsigned: '' @ message_error_text e"

definition close_line :: "texts \<Rightarrow> close_error \<Rightarrow> bytes" where
  "close_line tx e = log_prefix @ ''milter connection closed: '' @ close_error_text tx e"

definition queue_full_line :: bytes where
  "queue_full_line = log_prefix @ ''worker queue full; dropping milter connection''"

fun monitor_line_text :: "texts \<Rightarrow> monitor_line \<Rightarrow> bytes" where
  "monitor_line_text tx (Reload_Rejected e) = log_prefix @ ''reload rejected: '' @ config_error_text tx e"
| "monitor_line_text tx Listen_Cannot_Change =
     log_prefix @ ''reload rejected: listen cannot change without restart''"
| "monitor_line_text tx Reloaded = log_prefix @ ''configuration reloaded''"

text \<open>The lines that a worker writes for a connection that it found as \<open>c\<close> and left as \<open>c'\<close> with the result \<open>r\<close>, and
  what they are on standard error.\<close>

definition connection_lines :: "texts \<Rightarrow> conn \<Rightarrow> close_error + unit \<Rightarrow> conn \<Rightarrow> bytes list" where
  "connection_lines tx c r c' =
     map message_line (drop (length (k_log c)) (k_log c')) @
     (case r of Inl e \<Rightarrow> [close_line tx e] | Inr _ \<Rightarrow> [])"

definition eprint_lines :: "bytes list \<Rightarrow> bytes" where
  "eprint_lines ls = concat (map (\<lambda>l. l @ [LF]) ls)"

section \<open>What a command reports\<close>

text \<open>Every run ends in one of two ways: success with nothing on standard error, or failure with nothing on standard
  output and one message with the program's prefix.\<close>

theorem main_reports:
  "let result = fst (run ossl kg sys fails parallelism serve umask pid args w); printed = main_output tx result
   in if out_success printed then out_stderr printed = []
      else out_stdout printed = [] \<and>
        (\<exists>e. result = Inl e \<and> out_stderr printed = log_prefix @ run_error_text tx e @ [LF])"
  by (cases "fst (run ossl kg sys fails parallelism serve umask pid args w)") (simp_all add: main_output_def)

lemma usage_output:
  "map (\<lambda>args. main_output tx (fst (run ossl kg sys fails parallelism serve umask pid args w)))
     [[program, ''--help''], [program, ''-h''], [program, ''--version''], [program, ''--versoin'']] =
   [\<lparr>out_stdout = usage_text, out_stderr = [], out_success = True\<rparr>,
    \<lparr>out_stdout = usage_text, out_stderr = [], out_success = True\<rparr>,
    \<lparr>out_stdout = ''dkim-lite 0.2.0'' @ [LF], out_stderr = [], out_success = True\<rparr>,
    \<lparr>out_stdout = [], out_stderr = ''dkim-lite: unknown argument: --versoin'' @ [LF], out_success = False\<rparr>]"
  by (simp add: run_def parse_args_def main_output_def log_prefix_def package_version_def act_simps)

text \<open>What the generation of a key prints is public: the size, the path, and the DNS record of the public key;
  nothing of it depends on the private encoding.\<close>

theorem generate_prints_public:
  assumes "fst (run ossl kg sys fails parallelism serve umask pid args w) = Inr (Printed_Key generated)"
  shows "\<exists>options domain selector key public_der.
    parse_args args = Inr (Generate_Key options) \<and>
    validate_dns_name ''domain'' (go_domain options) = Inr domain \<and>
    validate_dns_name ''selector'' (go_selector options) = Inr selector \<and>
    generate_rsa kg (go_bits options) = Inr key \<and> public_key_to_der kg key = Inr public_der \<and>
    run_stdout (Printed_Key generated) =
      ''generated '' @ dec (unat (go_bits options)) @ ''-bit RSA private key: '' @ go_private_key options @ [LF] @
      ''DNS record:'' @ [LF] @ dns_record ossl domain selector public_der @ [LF]"
proof -
  obtain options where options: "parse_args args = Inr (Generate_Key options)"
    and made: "fst (generate ossl kg (sys_check_fips sys (go_require_fips options)) umask pid options w) = Inr generated"
    using assms
    by (auto simp: run_def run_daemon_def act_simps split: sum.splits command.splits prod.splits if_splits)
  from made obtain domain selector key public_der where
    "validate_dns_name ''domain'' (go_domain options) = Inr domain"
    "validate_dns_name ''selector'' (go_selector options) = Inr selector"
    "generate_rsa kg (go_bits options) = Inr key" "public_key_to_der kg key = Inr public_der"
    "generated = \<lparr>gk_domain = domain, gk_selector = selector, gk_private_key = go_private_key options,
       gk_bits = go_bits options, gk_dns_record = dns_record ossl domain selector public_der\<rparr>"
    by (auto simp: generate_def and_then_def act_simps split: sum.splits prod.splits if_splits)
  with options show ?thesis
    by auto
qed

end
