(* ===== verification/Fairness.thy ===== *)
theory Fairness
  imports Prelude
begin

text \<open>
  Infinite executions of a step relation under weak fairness, and the rule by which the liveness of the
  daemon is proved: a rank that no step raises and every step of one actor lowers, while that
  actor can move, leads to the goal.
\<close>

text \<open>One step at a time; nothing may happen for a while, or any more.\<close>

definition execution :: "('s \<Rightarrow> 's \<Rightarrow> bool) \<Rightarrow> (nat \<Rightarrow> 's) \<Rightarrow> bool" where
  "execution step run \<longleftrightarrow> (\<forall>i. step (run i) (run (Suc i)) \<or> run (Suc i) = run i)"

text \<open>An actor that can move from some point on moves at some time after it.\<close>

definition weakly_fair :: "('s \<Rightarrow> 's \<Rightarrow> bool) \<Rightarrow> (nat \<Rightarrow> 's) \<Rightarrow> bool" where
  "weakly_fair own run \<longleftrightarrow>
     (\<forall>i. (\<forall>j \<ge> i. \<exists>t. own (run j) t) \<longrightarrow> (\<exists>j \<ge> i. own (run j) (run (Suc j))))"

lemma execution_reachable: "execution step run \<Longrightarrow> step\<^sup>*\<^sup>* (run 0) (run i)"
proof (induction i)
  case (Suc i)
  then show ?case
    unfolding execution_def by (metis rtranclp.rtrancl_into_rtrancl)
qed simp

locale fair_progress =
  fixes step own :: "'s \<Rightarrow> 's \<Rightarrow> bool" and stable goal :: "'s \<Rightarrow> bool" and rank :: "'s \<Rightarrow> nat"
  assumes stable_step: "stable s \<Longrightarrow> step s t \<Longrightarrow> stable t"
    and rank_step: "stable s \<Longrightarrow> step s t \<Longrightarrow> goal t \<or> rank t \<le> rank s"
    and rank_own: "stable s \<Longrightarrow> own s t \<Longrightarrow> goal t \<or> rank t < rank s"
    and enabled: "stable s \<Longrightarrow> \<not> goal s \<Longrightarrow> \<exists>t. own s t"
begin

lemma stable_later:
  assumes "execution step run" and "stable (run i)" and "i \<le> j"
  shows "stable (run j)"
  using assms(3)
proof (induction rule: dec_induct)
  case (step n)
  then show ?case
    using assms(1) stable_step unfolding execution_def by metis
qed (rule assms(2))

lemma reaches_goal:
  assumes "execution step run" and "weakly_fair own run" and "stable (run i)"
  shows "\<exists>j \<ge> i. goal (run j)"
proof (rule ccontr)
  assume "\<not> (\<exists>j \<ge> i. goal (run j))"
  then have no: "\<not> goal (run j)" if "i \<le> j" for j
    using that by blast
  have stable: "stable (run j)" if "i \<le> j" for j
    using stable_later [OF assms(1,3) that] .
  have down: "rank (run (Suc j)) \<le> rank (run j)" if "i \<le> j" for j
    using assms(1) rank_step [OF stable [OF that]] no [of "Suc j"] that
    unfolding execution_def by (metis le_SucI order_refl)
  have below: "rank (run j) \<le> rank (run k)" if "k \<le> j" "i \<le> k" for j k
    using that by (induction rule: dec_induct) (auto intro: le_trans [OF down])
  have "False" if "i \<le> k" for k
    using that
  proof (induction "rank (run k)" arbitrary: k rule: less_induct)
    case less
    have "\<forall>j \<ge> k. \<exists>t. own (run j) t"
      using enabled stable no less.prems by (meson le_trans)
    then obtain j where j: "k \<le> j" "own (run j) (run (Suc j))"
      using assms(2) unfolding weakly_fair_def by blast
    then have "rank (run (Suc j)) < rank (run j)"
      using rank_own [OF stable] no [of "Suc j"] less.prems by (meson le_SucI le_trans)
    then have "rank (run (Suc j)) < rank (run k)"
      using below [OF j(1) less.prems] by simp
    then show ?case
      using less.hyps [of "Suc j"] j(1) less.prems by simp
  qed
  then show False
    by blast
qed

end

end
