(* ===== verification/Process.thy ===== *)
theory Process
  imports Daemon Protocol Fairness
begin

text \<open>
  The running daemon: \<open>run_daemon\<close> of src/main.rs from the moment its signal handlers are installed, with
  the threads it starts. The main thread binds, serves and joins; the monitor thread of the
  theory \<open>Daemon\<close> and the accepting thread and the workers of the theory \<open>Serve\<close> run at the same time; a worker
  handles its connection one packet after the other and reads the shared configuration as it is at
  that packet.

  The lemmas show that this process is the monitor and the serving threads put together, that every
  connection is served as \<open>handle_connection\<close> says with sound configurations only, and that under fair
  scheduling the process ends once SIGTERM or SIGINT arrives.
\<close>

section \<open>The state of the process\<close>

text \<open>A worker inside the loop of \<open>handle_connection_until\<close>. \<open>ro_seen\<close> is what the lock held at each packet handled
  so far; its length numbers the packets.\<close>

record ('h, 'k) round =
  ro_deadline :: nat
  ro_session :: "('h, 'k) session"
  ro_conn :: conn
  ro_seen :: "'k runtime_config option list"

text \<open>A connection that a worker has finished: as it was accepted, what the lock held at its packets, the
  result, and as it was left.\<close>

record 'k closed =
  cl_accepted :: conn
  cl_seen :: "'k runtime_config option list"
  cl_result :: "close_error + unit"
  cl_left :: conn

text \<open>The main thread: in \<open>Listener::bind\<close>, in the rest of \<open>serve\<close>, in \<open>monitor.join()\<close> with the result of \<open>serve\<close>, or
  done, when the process is gone.\<close>

datatype stage = Binding | In_Serve | Joining_Monitor "serve_error + unit" | Finished "serve_error + unit"

record ('h, 'k) process =
  p_handlers :: dispositions
  p_monitor :: "'k monitor"
  p_stage :: stage
  p_listener :: "listener option"
  p_serving :: "conn serving"
  p_rounds :: "nat \<rightharpoonup> ('h, 'k) round"
  p_closed :: "'k closed list"

definition process_start :: "dispositions \<Rightarrow> 'k runtime_config \<Rightarrow> nat \<Rightarrow> ('h, 'k) process" where
  "process_start d initial workers =
     \<lparr>p_handlers = d, p_monitor = monitor_start initial, p_stage = Binding, p_listener = None,
      p_serving = serve_start workers, p_rounds = Map.empty, p_closed = []\<rparr>"

definition round_start :: "('h, 'k, 's) openssl \<Rightarrow> 'k environment \<Rightarrow> conn \<Rightarrow> ('h, 'k) round" where
  "round_start ossl env c =
     \<lparr>ro_deadline = instant env (k_ticks c) + CONNECTION_TIMEOUT, ro_session = session_start ossl,
      ro_conn = c\<lparr>k_ticks := Suc (k_ticks c)\<rparr>, ro_seen = []\<rparr>"

fun finished :: "stage \<Rightarrow> bool" where
  "finished (Finished _) = True"
| "finished _ = False"

section \<open>The steps of the process\<close>

fun run_handler :: "signal_handler \<Rightarrow> 'k monitor \<Rightarrow> 'k monitor" where
  "run_handler On_Reload m = on_reload m"
| "run_handler On_Shutdown m = on_shutdown m"

definition receive_signal :: "signal \<Rightarrow> ('h, 'k) process \<Rightarrow> ('h, 'k) process" where
  "receive_signal sig s =
     (case p_handlers s sig of None \<Rightarrow> s | Some handler \<Rightarrow> s\<lparr>p_monitor := run_handler handler (p_monitor s)\<rparr>)"

text \<open>A step of the monitor. The flag it raises at its end is the one that \<open>serve\<close> and the workers load.\<close>

definition monitor_move :: "('h, 'k, 's) openssl \<Rightarrow> bytes \<Rightarrow> ('h, 'k) process \<Rightarrow> ('h, 'k) process \<Rightarrow> bool" where
  "monitor_move ossl path s t \<longleftrightarrow>
     (\<exists>m. own_step ossl path (p_monitor s) m \<and>
        t = s\<lparr>p_monitor := m, p_serving := (p_serving s)\<lparr>v_shutdown := mo_stop_serving m\<rparr>\<rparr>)"

text \<open>\<open>serve\<close> returns \<open>r\<close>, and the main thread raises \<open>SHUTDOWN\<close>.\<close>

definition serve_returns :: "serve_error + unit \<Rightarrow> ('h, 'k) process \<Rightarrow> ('h, 'k) process" where
  "serve_returns r s = s\<lparr>p_stage := Joining_Monitor r, p_monitor := on_shutdown (p_monitor s)\<rparr>"

fun handling :: "'c worker \<Rightarrow> 'c option" where
  "handling (Busy c) = Some c"
| "handling _ = None"

text \<open>How a round ends the loop, if it does.\<close>

fun round_end :: "close_error + ('h, 'k) session option \<Rightarrow> (close_error + unit) option" where
  "round_end (Inl e) = Some (Inl e)"
| "round_end (Inr None) = Some (Inr ())"
| "round_end (Inr (Some _)) = None"

text \<open>One round of a worker, with the configuration behind the lock at that moment. The clocks are those
  of \<open>env\<close>.\<close>

definition worker_round ::
  "('h, 'k, 's) openssl \<Rightarrow> 'k environment \<Rightarrow> 'k runtime_config option \<Rightarrow> ('h, 'k) round
    \<Rightarrow> (close_error + ('h, 'k) session option) \<times> conn" where
  "worker_round ossl env config r =
     connection_round ossl (instant env) (ro_deadline r) config (wall env (length (ro_seen r)))
       (ro_session r) (ro_conn r)"

text \<open>The steps of the main thread, the accepting thread and the workers. A worker's connection is handled by the
  rules \<open>begins\<close>, \<open>continues\<close> and \<open>closes\<close>; the rule \<open>threads\<close> has all other steps of the theory \<open>Serve\<close>, but the
  raising of the shutdown flag.\<close>

inductive work_step ::
  "('h, 'k, 's) openssl \<Rightarrow> (conn \<Rightarrow> 'k environment) \<Rightarrow> 'k runtime_config \<Rightarrow> nat
    \<Rightarrow> ('h, 'k) process \<Rightarrow> ('h, 'k) process \<Rightarrow> bool"
  for ossl :: "('h, 'k, 's) openssl" and env :: "conn \<Rightarrow> 'k environment"
    and initial :: "'k runtime_config" and workers :: nat where
  binds: "p_stage s = Binding \<Longrightarrow>
    fst (listener_bind umask tcp_bind set_nonblocking (cfg_listen initial) w) = Inr l \<Longrightarrow>
    work_step ossl env initial workers s (s\<lparr>p_stage := In_Serve, p_listener := Some l\<rparr>)"
| bind_fails: "p_stage s = Binding \<Longrightarrow>
    fst (listener_bind umask tcp_bind set_nonblocking (cfg_listen initial) w) = Inl e \<Longrightarrow>
    work_step ossl env initial workers s (serve_returns (Inl e) s)"
| threads: "\<not> finished (p_stage s) \<Longrightarrow> p_listener s = Some l \<Longrightarrow>
    serve_step (\<lambda>_ _. False) l workers (p_serving s) v \<Longrightarrow>
    map handling (v_workers v) = map handling (v_workers (p_serving s)) \<Longrightarrow>
    v_shutdown v = v_shutdown (p_serving s) \<Longrightarrow>
    work_step ossl env initial workers s (s\<lparr>p_serving := v\<rparr>)"
| begins: "\<not> finished (p_stage s) \<Longrightarrow> i < length (v_workers (p_serving s)) \<Longrightarrow>
    v_workers (p_serving s) ! i = Received c \<Longrightarrow> \<not> v_shutdown (p_serving s) \<Longrightarrow>
    work_step ossl env initial workers s
      (s\<lparr>p_serving := worker_becomes i (Busy c) (p_serving s),
         p_rounds := (p_rounds s)(i \<mapsto> round_start ossl (env c) c)\<rparr>)"
| continues: "\<not> finished (p_stage s) \<Longrightarrow> i < length (v_workers (p_serving s)) \<Longrightarrow>
    v_workers (p_serving s) ! i = Busy c \<Longrightarrow> p_rounds s i = Some r \<Longrightarrow>
    worker_round ossl (env c) (mo_active (p_monitor s)) r = (Inr (Some session'), c') \<Longrightarrow>
    work_step ossl env initial workers s
      (s\<lparr>p_rounds := (p_rounds s)(i \<mapsto> r\<lparr>ro_session := session', ro_conn := c',
           ro_seen := ro_seen r @ [mo_active (p_monitor s)]\<rparr>)\<rparr>)"
| closes: "\<not> finished (p_stage s) \<Longrightarrow> i < length (v_workers (p_serving s)) \<Longrightarrow>
    v_workers (p_serving s) ! i = Busy c \<Longrightarrow> p_rounds s i = Some r \<Longrightarrow>
    worker_round ossl (env c) (mo_active (p_monitor s)) r = (x, c') \<Longrightarrow> round_end x = Some result \<Longrightarrow>
    work_step ossl env initial workers s
      (s\<lparr>p_serving := worker_becomes i Idle (p_serving s)\<lparr>v_served := v_served (p_serving s) @ [(c, result)]\<rparr>,
         p_rounds := (p_rounds s)(i := None),
         p_closed := p_closed s @ [\<lparr>cl_accepted = c, cl_seen = ro_seen r @ [mo_active (p_monitor s)],
           cl_result = result, cl_left = c'\<rparr>]\<rparr>)"
| returns: "p_stage s = In_Serve \<Longrightarrow> v_main (p_serving s) = Returned r \<Longrightarrow>
    work_step ossl env initial workers s (serve_returns r s)"
| joins: "p_stage s = Joining_Monitor r \<Longrightarrow> mo_state (p_monitor s) = Stopped \<Longrightarrow>
    work_step ossl env initial workers s (s\<lparr>p_stage := Finished r\<rparr>)"

inductive process_step ::
  "('h, 'k, 's) openssl \<Rightarrow> (conn \<Rightarrow> 'k environment) \<Rightarrow> bytes \<Rightarrow> 'k runtime_config \<Rightarrow> nat
    \<Rightarrow> ('h, 'k) process \<Rightarrow> ('h, 'k) process \<Rightarrow> bool"
  for ossl :: "('h, 'k, 's) openssl" and env :: "conn \<Rightarrow> 'k environment" and path :: bytes
    and initial :: "'k runtime_config" and workers :: nat where
  signalled: "\<not> finished (p_stage s) \<Longrightarrow> process_step ossl env path initial workers s (receive_signal sig s)"
| monitors: "monitor_move ossl path s t \<Longrightarrow> process_step ossl env path initial workers s t"
| works: "work_step ossl env initial workers s t \<Longrightarrow> process_step ossl env path initial workers s t"

section \<open>Serving a connection round by round\<close>

text \<open>A configuration that the lock may hold.\<close>

definition sound_reading :: "('h, 'k, 's) openssl \<Rightarrow> listen_addr \<Rightarrow> 'k runtime_config option \<Rightarrow> bool" where
  "sound_reading ossl listen a \<longleftrightarrow> (\<exists>config. a = Some config \<and> admissible ossl listen config)"

text \<open>The i-th reading of a list of readings.\<close>

definition reading :: "'a list \<Rightarrow> nat \<Rightarrow> 'a" where
  "reading xs i = (if i < length xs then xs ! i else last xs)"

text \<open>A finished connection was served as \<open>handle_connection\<close> says, each packet with what the lock held then,
  and that was a sound configuration.\<close>

definition served_as ::
  "('h, 'k, 's) openssl \<Rightarrow> (conn \<Rightarrow> 'k environment) \<Rightarrow> listen_addr \<Rightarrow> 'k closed \<Rightarrow> bool" where
  "served_as ossl env listen x \<longleftrightarrow>
     list_all (sound_reading ossl listen) (cl_seen x) \<and> cl_seen x \<noteq> [] \<and>
     handle_connection ossl ((env (cl_accepted x))\<lparr>active := reading (cl_seen x)\<rparr>) (cl_accepted x) =
       (cl_result x, cl_left x)"

definition may_return ::
  "('h, 'k, 's) openssl \<Rightarrow> (conn \<Rightarrow> 'k environment) \<Rightarrow> listen_addr \<Rightarrow> conn \<Rightarrow> close_error + unit \<Rightarrow> bool" where
  "may_return ossl env listen c r \<longleftrightarrow> (\<exists>x. served_as ossl env listen x \<and> cl_accepted x = c \<and> cl_result x = r)"

text \<open>A worker in its loop is where \<open>handle_connection\<close> is after the packets seen so far, whatever the lock will hold.\<close>

definition round_ok ::
  "('h, 'k, 's) openssl \<Rightarrow> 'k environment \<Rightarrow> listen_addr \<Rightarrow> conn \<Rightarrow> ('h, 'k) round \<Rightarrow> bool" where
  "round_ok ossl env listen c r \<longleftrightarrow>
     list_all (sound_reading ossl listen) (ro_seen r) \<and>
     (\<forall>configs. (\<forall>i < length (ro_seen r). configs i = ro_seen r ! i) \<longrightarrow>
        handle_connection ossl (env\<lparr>active := configs\<rparr>) c =
        handle_connection_until ossl (env\<lparr>active := configs\<rparr>) (ro_deadline r) (length (ro_seen r))
          (ro_session r) (ro_conn r))"

lemma round_ok_start: "round_ok ossl env listen c (round_start ossl env c)"
  by (simp add: round_ok_def round_start_def handle_connection_def Let_def)

lemma round_ok_unfold:
  assumes "round_ok ossl env listen c r" and "\<forall>i < Suc (length (ro_seen r)). configs i = (ro_seen r @ [a]) ! i"
  shows "handle_connection ossl (env\<lparr>active := configs\<rparr>) c =
    (case worker_round ossl env a r of
        (Inl e, c) \<Rightarrow> (Inl e, c)
      | (Inr None, c) \<Rightarrow> (Inr (), c)
      | (Inr (Some s), c) \<Rightarrow>
          handle_connection_until ossl (env\<lparr>active := configs\<rparr>) (ro_deadline r) (Suc (length (ro_seen r))) s c)"
proof -
  have "\<forall>i < length (ro_seen r). configs i = ro_seen r ! i" "configs (length (ro_seen r)) = a"
    using assms(2) by (auto simp: nth_append)
  then show ?thesis
    using assms(1)
    by (simp add: round_ok_def handle_connection_until_rounds [of _ _ _ "length (ro_seen r)"] worker_round_def)
qed

lemma round_ok_continues:
  assumes "round_ok ossl env listen c r" and "worker_round ossl env a r = (Inr (Some session'), c')"
    and "sound_reading ossl listen a"
  shows "round_ok ossl env listen c (r\<lparr>ro_session := session', ro_conn := c', ro_seen := ro_seen r @ [a]\<rparr>)"
  unfolding round_ok_def
  using round_ok_unfold [OF assms(1), of _ a] assms by (simp add: round_ok_def)

lemma round_closes:
  assumes "round_ok ossl (env c) listen c r" and "worker_round ossl (env c) a r = (x, c')" and "round_end x = Some result"
    and "sound_reading ossl listen a"
  shows "served_as ossl env listen
    \<lparr>cl_accepted = c, cl_seen = ro_seen r @ [a], cl_result = result, cl_left = c'\<rparr>"
proof -
  have "handle_connection ossl ((env c)\<lparr>active := reading (ro_seen r @ [a])\<rparr>) c = (result, c')"
    by (subst round_ok_unfold [OF assms(1), of _ a])
      (use assms(2,3) in \<open>auto simp: reading_def elim!: round_end.elims\<close>)
  with assms(1,4) show ?thesis
    by (simp add: served_as_def round_ok_def)
qed

section \<open>The process refines its parts\<close>

lemma serve_step_mono:
  assumes "serve_step h l workers s t" and "\<And>c r. h c r \<Longrightarrow> h' c r"
  shows "serve_step h' l workers s t"
  using assms by induction (blast intro: serve_step.intros)+

lemma nothing_served: "serve_step (\<lambda>_ _. False) l workers s t \<Longrightarrow> v_served t = v_served s"
  by (induction rule: serve_step.induct) auto

lemma returned_stays:
  "serve_step h l workers s t \<Longrightarrow> v_main s = Returned r \<Longrightarrow> v_main t = Returned r"
  by (induction rule: serve_step.induct) auto

text \<open>What \<open>serve\<close> has returned, when it has.\<close>

definition has_returned :: "serve_error + unit \<Rightarrow> ('h, 'k) process \<Rightarrow> bool" where
  "has_returned r s \<longleftrightarrow>
     (case p_listener s of None \<Rightarrow> (\<exists>e. r = Inl e) | Some l \<Rightarrow> v_main (p_serving s) = Returned r)"

definition stage_inv :: "('h, 'k) process \<Rightarrow> bool" where
  "stage_inv s \<longleftrightarrow>
     (case p_stage s of
        Binding \<Rightarrow> p_listener s = None
      | In_Serve \<Rightarrow> p_listener s \<noteq> None
      | Joining_Monitor r \<Rightarrow> has_returned r s
      | Finished r \<Rightarrow> has_returned r s \<and> mo_state (p_monitor s) = Stopped)"

definition rounds_inv ::
  "('h, 'k, 's) openssl \<Rightarrow> (conn \<Rightarrow> 'k environment) \<Rightarrow> listen_addr \<Rightarrow> ('h, 'k) process \<Rightarrow> bool" where
  "rounds_inv ossl env listen s \<longleftrightarrow>
     (\<forall>i < length (v_workers (p_serving s)). \<forall>c. v_workers (p_serving s) ! i = Busy c \<longrightarrow>
        (\<exists>r. p_rounds s i = Some r \<and> round_ok ossl (env c) listen c r))"

definition process_inv ::
  "('h, 'k, 's) openssl \<Rightarrow> (conn \<Rightarrow> 'k environment) \<Rightarrow> bytes \<Rightarrow> 'k runtime_config \<Rightarrow> nat
    \<Rightarrow> ('h, 'k) process \<Rightarrow> bool" where
  "process_inv ossl env path initial workers s \<longleftrightarrow>
     (monitor_step ossl path)\<^sup>*\<^sup>* (monitor_start initial) (p_monitor s) \<and>
     (\<forall>l. p_listener s \<in> {None, Some l} \<longrightarrow>
        (serve_step (may_return ossl env (cfg_listen initial)) l workers)\<^sup>*\<^sup>* (serve_start workers) (p_serving s)) \<and>
     v_shutdown (p_serving s) = mo_stop_serving (p_monitor s) \<and>
     rounds_inv ossl env (cfg_listen initial) s \<and>
     list_all (served_as ossl env (cfg_listen initial)) (p_closed s) \<and>
     v_served (p_serving s) = map (\<lambda>x. (cl_accepted x, cl_result x)) (p_closed s) \<and>
     stage_inv s"

lemma process_inv_start: "process_inv ossl env path initial workers (process_start d initial workers)"
  by (simp add: process_inv_def process_start_def serve_start_def monitor_start_def rounds_inv_def stage_inv_def)

lemma handling_Busy: "x = Busy c \<longleftrightarrow> handling x = Some c"
  by (cases x) auto

lemma handling_same:
  assumes "map handling ws = map handling ws'"
  shows "length ws = length ws'" and "i < length ws \<Longrightarrow> ws ! i = Busy c \<longleftrightarrow> ws' ! i = Busy c"
  using assms by (auto simp: handling_Busy list_eq_iff_nth_eq)

text \<open>The moves of the monitor and the signals.\<close>

lemma process_inv_monitor:
  assumes "process_inv ossl env path initial workers s" and "monitor_step ossl path (p_monitor s) m"
    and "mo_stop_serving (p_monitor s) \<longrightarrow> mo_stop_serving m" and "finished (p_stage s) \<longrightarrow> mo_state m = Stopped"
  shows "process_inv ossl env path initial workers
    (s\<lparr>p_monitor := m, p_serving := (p_serving s)\<lparr>v_shutdown := mo_stop_serving m\<rparr>\<rparr>)"
proof -
  have "(serve_step h l workers)\<^sup>*\<^sup>* (serve_start workers) ((p_serving s)\<lparr>v_shutdown := mo_stop_serving m\<rparr>)"
    if "(serve_step h l workers)\<^sup>*\<^sup>* (serve_start workers) (p_serving s)" for h l
  proof (cases "mo_stop_serving m")
    case True
    with that raise_shutdown [of h l workers "p_serving s"] show ?thesis
      by simp
  next
    case False
    then have "v_shutdown (p_serving s) = mo_stop_serving m"
      using assms(1,3) by (simp add: process_inv_def)
    then have "(p_serving s)\<lparr>v_shutdown := mo_stop_serving m\<rparr> = p_serving s"
      by (cases "p_serving s") simp
    with that show ?thesis
      by simp
  qed
  then show ?thesis
    using assms
    by (auto simp: process_inv_def rounds_inv_def stage_inv_def has_returned_def
        split: stage.splits option.splits intro: rtranclp.rtrancl_into_rtrancl)
qed

lemma stop_serving_stays:
  "monitor_step ossl path m m' \<Longrightarrow> mo_stop_serving m \<Longrightarrow> mo_stop_serving m'"
  by (induction rule: monitor_step.induct) auto

lemma run_handler_step: "monitor_step ossl path m (run_handler h m)"
  by (cases h) (auto intro: monitor_step.intros simp del: on_reload_def on_shutdown_def)

lemma run_handler_stable [simp]:
  "mo_stop_serving (run_handler h m) = mo_stop_serving m" "mo_state (run_handler h m) = mo_state m"
  "mo_active (run_handler h m) = mo_active m"
  by (cases h; simp)+

lemma same_shutdown: "v_shutdown v = b \<Longrightarrow> v\<lparr>v_shutdown := b\<rparr> = v"
  by (cases v) simp

lemma process_inv_signal:
  assumes "process_inv ossl env path initial workers s" and "\<not> finished (p_stage s)"
  shows "process_inv ossl env path initial workers (receive_signal sig s)"
proof (cases "p_handlers s sig")
  case (Some h)
  have "v_shutdown (p_serving s) = mo_stop_serving (run_handler h (p_monitor s))"
    using assms(1) by (simp add: process_inv_def)
  from same_shutdown [OF this]
  have "(s\<lparr>p_monitor := run_handler h (p_monitor s),
      p_serving := (p_serving s)\<lparr>v_shutdown := mo_stop_serving (run_handler h (p_monitor s))\<rparr>\<rparr>) = receive_signal sig s"
    using Some by (cases s) (simp add: receive_signal_def)
  with process_inv_monitor [OF assms(1) run_handler_step, of h] assms(2) show ?thesis
    by simp
qed (use assms in \<open>simp add: receive_signal_def\<close>)

lemma process_inv_move:
  assumes "process_inv ossl env path initial workers s" and "monitor_move ossl path s t"
  shows "process_inv ossl env path initial workers t"
proof -
  obtain m where m: "monitor_step ossl path (p_monitor s) m" "mo_state m \<noteq> mo_state (p_monitor s)"
    "t = s\<lparr>p_monitor := m, p_serving := (p_serving s)\<lparr>v_shutdown := mo_stop_serving m\<rparr>\<rparr>"
    using assms(2) by (auto simp: monitor_move_def own_step_def)
  have "\<not> finished (p_stage s)"
  proof
    assume "finished (p_stage s)"
    then have "mo_state (p_monitor s) = Stopped"
      using assms(1) by (auto simp: process_inv_def stage_inv_def elim!: finished.elims)
    with m(1,2) show False
      by (auto elim: monitor_step.cases)
  qed
  with process_inv_monitor [OF assms(1) m(1)] stop_serving_stays [OF m(1)] m(3) show ?thesis
    by simp
qed

text \<open>The steps of the main thread and the workers, piece by piece: first the two stages of the main thread.\<close>

lemma process_inv_returns:
  assumes "process_inv ossl env path initial workers s" and "p_stage s = Binding \<or> p_stage s = In_Serve"
    and "has_returned r s"
  shows "process_inv ossl env path initial workers (serve_returns r s)"
proof -
  have "(monitor_step ossl path)\<^sup>*\<^sup>* (monitor_start initial) (on_shutdown (p_monitor s))"
    using assms(1) shutdown_signal [of ossl path "p_monitor s"]
    by (auto simp: process_inv_def simp del: on_shutdown_def intro: rtranclp.rtrancl_into_rtrancl)
  with assms show ?thesis
    by (auto simp: process_inv_def serve_returns_def rounds_inv_def stage_inv_def has_returned_def split: option.splits)
qed

text \<open>A step of the threads, seen by the rest of the process.\<close>

lemma process_inv_serving:
  assumes "process_inv ossl env path initial workers s"
    and "\<And>l. p_listener s \<in> {None, Some l} \<Longrightarrow>
      serve_step (may_return ossl env (cfg_listen initial)) l workers (p_serving s) v"
    and "v_shutdown v = v_shutdown (p_serving s)"
    and "rounds_inv ossl env (cfg_listen initial) (s\<lparr>p_serving := v, p_rounds := rounds\<rparr>)"
    and "list_all (served_as ossl env (cfg_listen initial)) closed"
    and "v_served v = map (\<lambda>x. (cl_accepted x, cl_result x)) closed"
  shows "process_inv ossl env path initial workers (s\<lparr>p_serving := v, p_rounds := rounds, p_closed := closed\<rparr>)"
proof -
  have "stage_inv (s\<lparr>p_serving := v, p_rounds := rounds, p_closed := closed\<rparr>)"
    using assms(1) returned_stays [OF assms(2)]
    by (auto simp: process_inv_def stage_inv_def has_returned_def split: stage.splits option.splits)
  moreover have "rounds_inv ossl env (cfg_listen initial) (s\<lparr>p_serving := v, p_rounds := rounds, p_closed := closed\<rparr>)"
    using assms(4) by (simp add: rounds_inv_def)
  moreover have "(serve_step (may_return ossl env (cfg_listen initial)) l workers)\<^sup>*\<^sup>* (serve_start workers) v"
    if "p_listener s \<in> {None, Some l}" for l
    using assms(1) that assms(2) [OF that] by (auto simp: process_inv_def intro: rtranclp.rtrancl_into_rtrancl)
  ultimately show ?thesis
    using assms(1,3,5,6) by (auto simp: process_inv_def)
qed

lemma process_same_rounds: "s\<lparr>p_serving := v\<rparr> = s\<lparr>p_serving := v, p_rounds := p_rounds s, p_closed := p_closed s\<rparr>"
  and process_same_closed: "s\<lparr>p_serving := v, p_rounds := r\<rparr> = s\<lparr>p_serving := v, p_rounds := r, p_closed := p_closed s\<rparr>"
  by (cases s; simp)+

lemma sound_reading_active:
  assumes "process_inv ossl env path initial workers s" and "admissible ossl (cfg_listen initial) initial"
  shows "sound_reading ossl (cfg_listen initial) (mo_active (p_monitor s))"
  using assms monitor_active unfolding process_inv_def sound_reading_def by blast

lemma process_inv_work:
  assumes "work_step ossl env initial workers s t" and "process_inv ossl env path initial workers s"
    and "admissible ossl (cfg_listen initial) initial"
  shows "process_inv ossl env path initial workers t"
  using assms
proof (induction rule: work_step.induct)
  case (binds s umask tcp_bind set_nonblocking w l)
  then show ?case
    by (auto simp: process_inv_def stage_inv_def rounds_inv_def)
next
  case (bind_fails s umask tcp_bind set_nonblocking w e)
  then show ?case
    by (intro process_inv_returns) (auto simp: process_inv_def stage_inv_def has_returned_def)
next
  case (threads s l v)
  have "rounds_inv ossl env (cfg_listen initial) (s\<lparr>p_serving := v, p_rounds := p_rounds s\<rparr>)"
    using threads(6) handling_same [OF threads(4)] by (auto simp: process_inv_def rounds_inv_def)
  then show ?case
    using threads(2-6) serve_step_mono [OF threads(3)] nothing_served [OF threads(3)]
    by (subst process_same_rounds, intro process_inv_serving) (auto simp: process_inv_def)
next
  case (begins s i c)
  have "rounds_inv ossl env (cfg_listen initial) (s\<lparr>p_serving := worker_becomes i (Busy c) (p_serving s),
      p_rounds := (p_rounds s)(i \<mapsto> round_start ossl (env c) c)\<rparr>)"
    using begins(5) by (auto simp: process_inv_def rounds_inv_def nth_list_update round_ok_start)
  then show ?case
    using begins(2-5) by (subst process_same_closed, intro process_inv_serving) (auto simp: process_inv_def intro: begin_handling)
next
  case (continues s i c r session' c')
  have r: "round_ok ossl (env c) (cfg_listen initial) c r"
    using continues(2-4,6) by (auto simp: process_inv_def rounds_inv_def)
  from round_ok_continues [OF r continues(5) sound_reading_active [OF continues(6,7)]]
  show ?case
    using continues(3,6) by (auto simp: process_inv_def rounds_inv_def stage_inv_def has_returned_def
        split: stage.splits option.splits)
next
  case (closes s i c r x c' result)
  let ?x = "\<lparr>cl_accepted = c, cl_seen = ro_seen r @ [mo_active (p_monitor s)], cl_result = result, cl_left = c'\<rparr>"
  have r: "round_ok ossl (env c) (cfg_listen initial) c r"
    using closes(2-4,7) by (auto simp: process_inv_def rounds_inv_def)
  have x: "served_as ossl env (cfg_listen initial) ?x"
    by (rule round_closes [of ossl env c, OF r closes(5,6) sound_reading_active [OF closes(7,8)]])
  then have "may_return ossl env (cfg_listen initial) c result"
    by (auto simp: may_return_def)
  then have step: "serve_step (may_return ossl env (cfg_listen initial)) l workers (p_serving s)
      (worker_becomes i Idle (p_serving s)\<lparr>v_served := v_served (p_serving s) @ [(c, result)]\<rparr>)" for l
    by (intro handled closes(2,3))
  have rounds: "rounds_inv ossl env (cfg_listen initial)
      (s\<lparr>p_serving := worker_becomes i Idle (p_serving s)\<lparr>v_served := v_served (p_serving s) @ [(c, result)]\<rparr>,
         p_rounds := (p_rounds s)(i := None)\<rparr>)"
    using closes(7) by (auto simp: process_inv_def rounds_inv_def nth_list_update)
  show ?case
    by (rule process_inv_serving [OF closes(7) step _ rounds])
      (use closes(7) x in \<open>simp_all add: process_inv_def\<close>)
next
  case (returns s r)
  then show ?case
    by (intro process_inv_returns) (auto simp: process_inv_def stage_inv_def has_returned_def split: option.splits)
next
  case (joins s r)
  then show ?case
    by (auto simp: process_inv_def stage_inv_def has_returned_def rounds_inv_def cong: option.case_cong)
qed

lemma process_inv_step:
  assumes "process_step ossl env path initial workers s t" and "process_inv ossl env path initial workers s"
    and "admissible ossl (cfg_listen initial) initial"
  shows "process_inv ossl env path initial workers t"
  using assms by cases (auto intro: process_inv_signal process_inv_move process_inv_work)

lemma process_inv_reachable:
  assumes "(process_step ossl env path initial workers)\<^sup>*\<^sup>* (process_start d initial workers) s"
    and "admissible ossl (cfg_listen initial) initial"
  shows "process_inv ossl env path initial workers s"
  using assms by (induction rule: rtranclp_induct) (auto intro: process_inv_start process_inv_step)

section \<open>The process ends\<close>

text \<open>The shutdown flag, once raised, stays, and the monitor alone moves its own state.\<close>

lemma work_step_monitor:
  "work_step ossl env initial workers s t \<Longrightarrow>
     mo_state (p_monitor t) = mo_state (p_monitor s) \<and> mo_stop_serving (p_monitor t) = mo_stop_serving (p_monitor s) \<and>
     (mo_shutdown (p_monitor s) \<longrightarrow> mo_shutdown (p_monitor t)) \<and> p_handlers t = p_handlers s"
  by (induction rule: work_step.induct) (auto simp: serve_returns_def)

lemma receive_signal_monitor:
  "mo_state (p_monitor (receive_signal sig s)) = mo_state (p_monitor s)"
  "mo_stop_serving (p_monitor (receive_signal sig s)) = mo_stop_serving (p_monitor s)"
  "mo_shutdown (p_monitor s) \<Longrightarrow> mo_shutdown (p_monitor (receive_signal sig s))"
  "p_handlers (receive_signal sig s) = p_handlers s" "p_stage (receive_signal sig s) = p_stage s"
  "p_serving (receive_signal sig s) = p_serving s" "p_rounds (receive_signal sig s) = p_rounds s"
proof -
  have "mo_shutdown m \<Longrightarrow> mo_shutdown (run_handler h m)" for h m
    by (cases h) simp_all
  then show "mo_shutdown (p_monitor s) \<Longrightarrow> mo_shutdown (p_monitor (receive_signal sig s))"
    by (auto simp: receive_signal_def split: option.splits)
qed (simp_all add: receive_signal_def split: option.splits)

lemma process_step_handlers:
  "process_step ossl env path initial workers s t \<Longrightarrow> p_handlers t = p_handlers s"
  by (induction rule: process_step.induct) (auto simp: receive_signal_monitor monitor_move_def dest: work_step_monitor)

definition shutting_down ::
  "('h, 'k, 's) openssl \<Rightarrow> (conn \<Rightarrow> 'k environment) \<Rightarrow> bytes \<Rightarrow> 'k runtime_config \<Rightarrow> nat
    \<Rightarrow> ('h, 'k) process \<Rightarrow> bool" where
  "shutting_down ossl env path initial workers s \<longleftrightarrow>
     admissible ossl (cfg_listen initial) initial \<and> process_inv ossl env path initial workers s \<and>
     mo_shutdown (p_monitor s)"

lemma shutting_down_step:
  assumes "shutting_down ossl env path initial workers s" and "process_step ossl env path initial workers s t"
  shows "shutting_down ossl env path initial workers t"
proof -
  have "mo_shutdown (p_monitor t)"
    using assms(2,1)
    by cases (auto simp: shutting_down_def monitor_move_def receive_signal_monitor dest: own_step_rank work_step_monitor)
  with assms process_inv_step [OF assms(2)] show ?thesis
    by (simp add: shutting_down_def)
qed

text \<open>First the monitor: with the signal flag set it comes to raise the flag of \<open>serve\<close>.\<close>

interpretation monitor_progress: fair_progress
  "process_step ossl env path initial workers" "monitor_move ossl path"
  "shutting_down ossl env path initial workers" "\<lambda>s. mo_stop_serving (p_monitor s)"
  "\<lambda>s. monitor_rank (mo_state (p_monitor s))"
proof (unfold_locales, goal_cases)
  case (1 s t)
  then show ?case
    by (rule shutting_down_step)
next
  case (2 s t)
  from 2(2,1) show ?case
    by cases (auto simp: receive_signal_monitor monitor_move_def shutting_down_def
        dest: own_step_rank work_step_monitor)
next
  case (3 s t)
  then show ?case
    by (auto simp: monitor_move_def shutting_down_def dest: own_step_rank)
next
  case (4 s)
  have "mo_state (p_monitor s) \<noteq> Stopped"
    using 4 monitor_stopped by (auto simp: shutting_down_def process_inv_def)
  from monitor_moves [OF this] show ?case
    unfolding monitor_move_def by blast
qed

text \<open>Then the threads. A round takes some of the bytes that still arrive.\<close>

fun round_size :: "conn option \<Rightarrow> ('h, 'k) round option \<Rightarrow> nat" where
  "round_size (Some c) (Some r) = length (arriving (k_reads (ro_conn r)))"
| "round_size _ _ = 0"

definition rounds_size :: "conn worker list \<Rightarrow> (nat \<rightharpoonup> ('h, 'k) round) \<Rightarrow> nat" where
  "rounds_size ws rounds = (\<Sum>i < length ws. round_size (handling (ws ! i)) (rounds i))"

fun stage_rank :: "stage \<Rightarrow> nat" where
  "stage_rank Binding = 3"
| "stage_rank In_Serve = 2"
| "stage_rank (Joining_Monitor _) = 1"
| "stage_rank (Finished _) = 0"

definition process_rank :: "('h, 'k) process \<Rightarrow> nat" where
  "process_rank s =
     stage_rank (p_stage s) + rank (p_serving s) + rounds_size (v_workers (p_serving s)) (p_rounds s)"

lemma rounds_size_update:
  assumes "i < length ws"
  shows "rounds_size (ws[i := x]) (rounds(i := r)) + round_size (handling (ws ! i)) (rounds i) =
    rounds_size ws rounds + round_size (handling x) r"
proof -
  have split: "(\<Sum>j < length ws. f j) = f i + (\<Sum>j \<in> {..<length ws} - {i}. f j)" for f :: "nat \<Rightarrow> nat"
    using assms by (simp add: sum.remove)
  let ?rest = "\<Sum>j \<in> {..<length ws} - {i}. round_size (handling (ws ! j)) (rounds j)"
  have "(\<Sum>j \<in> {..<length ws} - {i}. round_size (handling (ws[i := x] ! j)) ((rounds(i := r)) j)) = ?rest"
    by (intro sum.cong) auto
  then have "rounds_size (ws[i := x]) (rounds(i := r)) = round_size (handling x) r + ?rest"
    using assms unfolding rounds_size_def length_list_update
    by (subst split) simp
  moreover have "rounds_size ws rounds = round_size (handling (ws ! i)) (rounds i) + ?rest"
    unfolding rounds_size_def by (rule split)
  ultimately show ?thesis
    by simp
qed

definition stopping ::
  "('h, 'k, 's) openssl \<Rightarrow> (conn \<Rightarrow> 'k environment) \<Rightarrow> bytes \<Rightarrow> 'k runtime_config \<Rightarrow> nat
    \<Rightarrow> ('h, 'k) process \<Rightarrow> bool" where
  "stopping ossl env path initial workers s \<longleftrightarrow>
     shutting_down ossl env path initial workers s \<and> mo_stop_serving (p_monitor s)"

definition work_move ::
  "('h, 'k, 's) openssl \<Rightarrow> (conn \<Rightarrow> 'k environment) \<Rightarrow> 'k runtime_config \<Rightarrow> nat
    \<Rightarrow> ('h, 'k) process \<Rightarrow> ('h, 'k) process \<Rightarrow> bool" where
  "work_move ossl env initial workers s t \<longleftrightarrow> work_step ossl env initial workers s t \<and> t \<noteq> s"

lemma stop_serving_stopped:
  assumes "(monitor_step ossl path)\<^sup>*\<^sup>* (monitor_start initial) m"
  shows "mo_stop_serving m \<longrightarrow> mo_state m = Stopped"
  using assms
proof (induction rule: rtranclp_induct)
  case (step m m')
  from step(2,3) show ?case
    by cases auto
qed (simp add: monitor_start_def)

lemma stopping_facts:
  assumes "stopping ossl env path initial workers s"
  shows "v_shutdown (p_serving s)" and "mo_state (p_monitor s) = Stopped"
    and "rounds_inv ossl env (cfg_listen initial) s" and "stage_inv s"
    and "\<And>l. p_listener s = Some l \<Longrightarrow>
      serve_inv (may_return ossl env (cfg_listen initial)) workers (p_serving s)"
  using assms stop_serving_stopped serve_inv_reachable
  unfolding stopping_def shutting_down_def process_inv_def by blast+

lemma worker_round_reads:
  "worker_round ossl env a r = (Inr (Some session'), c') \<Longrightarrow>
     length (arriving (k_reads c')) < length (arriving (k_reads (ro_conn r)))"
  unfolding worker_round_def by (rule connection_round_reads)

lemma work_move_rank:
  assumes "work_move ossl env initial workers s t" and "stopping ossl env path initial workers s"
  shows "process_rank t < process_rank s"
proof -
  have "work_step ossl env initial workers s t" "t \<noteq> s"
    using assms(1) by (simp_all add: work_move_def)
  then show ?thesis
    using assms(2)
  proof (induction rule: work_step.induct)
    case (threads s l v)
    then have "v \<noteq> p_serving s"
      by (metis process.surjective process.update_convs(5))
    with threads(3) have "rank v < rank (p_serving s)"
      using step_rank stopping_facts(1) [OF threads(7)] by blast
    moreover have "rounds_size (v_workers v) (p_rounds s) = rounds_size (v_workers (p_serving s)) (p_rounds s)"
      using threads(4) unfolding rounds_size_def
      by (metis (no_types, lifting) length_map lessThan_iff nth_map sum.cong)
    ultimately show ?case
      by (simp add: process_rank_def)
  next
    case (begins s i c)
    then show ?case
      using stopping_facts(1) by blast
  next
    case (continues s i c r session' c')
    then show ?case
      using rounds_size_update [OF continues(2), of "Busy c" "p_rounds s"
          "Some (r\<lparr>ro_session := session', ro_conn := c', ro_seen := ro_seen r @ [mo_active (p_monitor s)]\<rparr>)"]
        worker_round_reads [OF continues(5)]
      by (simp add: process_rank_def)
        (metis add_less_cancel_left add_less_cancel_right continues.hyps(3) list_update_id nat_add_left_cancel_less)
  next
    case (closes s i c r x c' result)
    then show ?case
      using rounds_size_update [OF closes(2), of Idle "p_rounds s" None]
        workers_rank_update [OF closes(2,3), of Idle]
      by (simp add: process_rank_def rank_def)
  qed (simp_all add: process_rank_def serve_returns_def)
qed

text \<open>What can still move: a worker in its loop, the serving threads, the main thread.\<close>

lemma worker_can_move:
  assumes "stopping ossl env path initial workers s" and "\<not> finished (p_stage s)"
    and "i < length (v_workers (p_serving s))" and "v_workers (p_serving s) ! i = Busy c"
  shows "\<exists>t. work_move ossl env initial workers s t"
proof -
  obtain r where r: "p_rounds s i = Some r"
    using stopping_facts(3) [OF assms(1)] assms(3,4) by (auto simp: rounds_inv_def)
  obtain x c' where x: "worker_round ossl (env c) (mo_active (p_monitor s)) r = (x, c')"
    by (cases "worker_round ossl (env c) (mo_active (p_monitor s)) r")
  show ?thesis
  proof (cases "round_end x")
    case None
    then obtain session' where "x = Inr (Some session')"
      by (auto elim: round_end.elims)
    with continues [OF assms(2-4) r] x
    have "work_step ossl env initial workers s
        (s\<lparr>p_rounds := (p_rounds s)(i \<mapsto> r\<lparr>ro_session := session', ro_conn := c',
             ro_seen := ro_seen r @ [mo_active (p_monitor s)]\<rparr>)\<rparr>)" (is "work_step _ _ _ _ _ ?t")
      by simp
    moreover have "p_rounds ?t i \<noteq> p_rounds s i"
      by (cases r) (simp add: r)
    then have "?t \<noteq> s"
      by metis
    ultimately show ?thesis
      unfolding work_move_def by blast
  next
    case (Some result)
    let ?t = "s\<lparr>p_serving := worker_becomes i Idle (p_serving s)\<lparr>v_served := v_served (p_serving s) @ [(c, result)]\<rparr>,
         p_rounds := (p_rounds s)(i := None),
         p_closed := p_closed s @ [\<lparr>cl_accepted = c, cl_seen = ro_seen r @ [mo_active (p_monitor s)],
           cl_result = result, cl_left = c'\<rparr>]\<rparr>"
    have "length (p_closed ?t) \<noteq> length (p_closed s)"
      by simp
    then have "?t \<noteq> s"
      by metis
    with closes [of s i c r ossl env, OF assms(2-4) r x Some] show ?thesis
      unfolding work_move_def by blast
  qed
qed

lemma step_without_handling:
  assumes "serve_step h l workers s t" and "\<And>c. Busy c \<notin> set (v_workers s)"
  shows "serve_step (\<lambda>_ _. False) l workers s t"
  using assms
proof (induction rule: serve_step.induct)
  case (handled i s c r)
  then show ?case
    by (metis nth_mem)
qed (blast intro: serve_step.intros)+

lemma handling_stays:
  "serve_step (\<lambda>_ _. False) l workers s t \<Longrightarrow> v_shutdown s \<Longrightarrow> map handling (v_workers t) = map handling (v_workers s)"
  by (induction rule: serve_step.induct) (simp_all add: map_update list_update_same_conv)

lemma serving_can_move:
  assumes "stopping ossl env path initial workers s" and "p_stage s = In_Serve"
  shows "\<exists>t. work_move ossl env initial workers s t"
proof -
  obtain l where l: "p_listener s = Some l"
    using stopping_facts(4) [OF assms(1)] assms(2) by (auto simp: stage_inv_def)
  have running: "\<not> finished (p_stage s)"
    using assms(2) by simp
  let ?v = "p_serving s"
  consider (busy) c where "Busy c \<in> set (v_workers ?v)"
    | (step) v where "\<And>c. Busy c \<notin> set (v_workers ?v)"
        "serve_step (may_return ossl env (cfg_listen initial)) l workers ?v v" "v \<noteq> ?v"
    | (returned) r where "v_main ?v = Returned r"
    using stuck_returned [OF stopping_facts(5) [OF assms(1) l] stopping_facts(1) [OF assms(1)]] by blast
  then show ?thesis
  proof cases
    case busy
    with worker_can_move [OF assms(1) running] show ?thesis
      by (metis in_set_conv_nth)
  next
    case step
    note shutdown = stopping_facts(1) [OF assms(1)]
    have "v_shutdown v"
      using step_rank [OF step(2,3) shutdown] by simp
    with step_without_handling [OF step(2,1)] handling_stays [OF _ shutdown] shutdown
    have "work_step ossl env initial workers s (s\<lparr>p_serving := v\<rparr>)"
      by (intro threads [OF running l]) auto
    moreover have "s\<lparr>p_serving := v\<rparr> \<noteq> s"
      using step(3) by (metis process.select_convs(5) process.surjective process.update_convs(5))
    ultimately show ?thesis
      unfolding work_move_def by blast
  next
    case returned
    have "p_stage (serve_returns r s) \<noteq> p_stage s"
      using assms(2) by (simp add: serve_returns_def)
    then have "serve_returns r s \<noteq> s"
      by metis
    with returns [OF assms(2) returned] show ?thesis
      unfolding work_move_def by blast
  qed
qed

lemma main_can_move:
  assumes "stopping ossl env path initial workers s" and "\<not> finished (p_stage s)"
  shows "\<exists>t. work_move ossl env initial workers s t"
proof -
  have changes: "\<exists>t. work_move ossl env initial workers s t"
    if "work_step ossl env initial workers s t" "p_stage t \<noteq> p_stage s" for t
    using that unfolding work_move_def by metis
  show ?thesis
  proof (cases "p_stage s")
    case Binding
    let ?bind = "fst (listener_bind id (\<lambda>_. Inr ()) (Inr ()) (cfg_listen initial) undefined)"
    show ?thesis
    proof (cases ?bind)
      case (Inl e)
      from changes [OF bind_fails [OF Binding Inl]] Binding show ?thesis
        by (simp add: serve_returns_def)
    next
      case (Inr l)
      from changes [OF binds [OF Binding Inr]] Binding show ?thesis
        by simp
    qed
  next
    case In_Serve
    with assms(1) show ?thesis
      by (rule serving_can_move)
  next
    case (Joining_Monitor r)
    from changes [OF joins [OF this stopping_facts(2) [OF assms(1)]]] this show ?thesis
      by simp
  qed (use assms(2) in simp)
qed

interpretation work_progress: fair_progress
  "process_step ossl env path initial workers" "work_move ossl env initial workers"
  "stopping ossl env path initial workers" "\<lambda>s. finished (p_stage s)" process_rank
proof (unfold_locales, goal_cases)
  case (1 s t)
  have "mo_stop_serving (p_monitor t)"
    using 1(2,1) stop_serving_stays
    by cases (auto simp: stopping_def receive_signal_monitor monitor_move_def own_step_def dest: work_step_monitor)
  with 1 show ?case
    using shutting_down_step by (auto simp: stopping_def)
next
  case (2 s t)
  from 2(2) show ?case
  proof cases
    case (signalled sig)
    then show ?thesis
      by (simp add: process_rank_def receive_signal_monitor)
  next
    case monitors
    then show ?thesis
      using stopping_facts(2) [OF 2(1)] by (auto simp: monitor_move_def own_step_def elim: monitor_step.cases)
  next
    case works
    then show ?thesis
      using work_move_rank [OF _ 2(1)] by (cases "t = s") (auto simp: work_move_def intro: less_imp_le)
  qed
next
  case (3 s t)
  then show ?case
    using work_move_rank by blast
next
  case (4 s)
  then show ?case
    by (rule main_can_move)
qed

lemma run_handlers:
  assumes "execution (process_step ossl env path initial workers) trace"
  shows "p_handlers (trace i) = p_handlers (trace 0)"
proof (induction i)
  case (Suc i)
  then show ?case
    using assms process_step_handlers unfolding execution_def by metis
qed simp

lemma no_hands: "\<forall>x \<in> set ws. x = Exited \<Longrightarrow> in_hand ws = {#}"
  by (induction ws) (simp_all add: in_hand_def)

text \<open>A clean end: every worker has left its loop, and no connection was cut off.\<close>

lemma clean_end:
  assumes "process_inv ossl env path initial workers s" and "p_stage s = Finished (Inr ())"
  shows "list_all (\<lambda>x. x = Exited) (v_workers (p_serving s)) \<and>
    mset (v_received (p_serving s)) = mset (map cl_accepted (p_closed s)) + mset (v_abandoned (p_serving s))"
proof -
  obtain l where l: "p_listener s = Some l" "v_main (p_serving s) = Returned (Inr ())"
    using assms by (auto simp: process_inv_def stage_inv_def has_returned_def split: option.splits)
  then have "serve_inv (may_return ossl env (cfg_listen initial)) workers (p_serving s)"
    using assms(1) serve_inv_reachable unfolding process_inv_def by blast
  moreover have "map fst (v_served (p_serving s)) = map cl_accepted (p_closed s)"
    using assms(1) by (simp add: process_inv_def)
  ultimately show ?thesis
    using l(2) no_hands [of "v_workers (p_serving s)"] by (auto simp: serve_inv_def list_all_iff)
qed

lemma admissible_start:
  "load ossl (sys_read sys) path = Inr initial \<Longrightarrow> sys_check_fips sys (cfg_require_fips initial) = Inr () \<Longrightarrow>
     admissible ossl (cfg_listen initial) initial"
  using load_config_ok [of ossl "sys_read sys" path initial] by (auto simp: admissible_def)

section \<open>A connection from accept to close\<close>

text \<open>A worker left alone finishes its connection as \<open>handle_connection_until\<close> does while the lock holds what it
  holds now.\<close>

lemma worker_finishes:
  assumes "\<not> finished (p_stage s)" and "i < length (v_workers (p_serving s))"
    and "v_workers (p_serving s) ! i = Busy c" and "p_rounds s i = Some r"
    and "handle_connection_until ossl ((env c)\<lparr>active := \<lambda>_. mo_active (p_monitor s)\<rparr>) (ro_deadline r)
      (length (ro_seen r)) (ro_session r) (ro_conn r) = (result, left)"
  shows "\<exists>t seen. (work_step ossl env initial workers)\<^sup>*\<^sup>* s t \<and>
    set seen \<subseteq> insert (mo_active (p_monitor s)) (set (ro_seen r)) \<and>
    p_closed t = p_closed s @ [\<lparr>cl_accepted = c, cl_seen = seen, cl_result = result, cl_left = left\<rparr>]"
  using assms
proof (induction "length (arriving (k_reads (ro_conn r)))" arbitrary: r s rule: less_induct)
  case less
  obtain x c' where x: "worker_round ossl (env c) (mo_active (p_monitor s)) r = (x, c')"
    by (cases "worker_round ossl (env c) (mo_active (p_monitor s)) r")
  note unfold = less.prems(5) [unfolded handle_connection_until_rounds [of _ _ _ "length (ro_seen r)"]]
  show ?case
  proof (cases "round_end x")
    case None
    then obtain session' where session: "x = Inr (Some session')"
      by (auto elim: round_end.elims)
    let ?r = "r\<lparr>ro_session := session', ro_conn := c', ro_seen := ro_seen r @ [mo_active (p_monitor s)]\<rparr>"
    let ?s = "s\<lparr>p_rounds := (p_rounds s)(i \<mapsto> ?r)\<rparr>"
    have step: "work_step ossl env initial workers s ?s"
      using continues [OF less.prems(1-4)] x session by simp
    have "\<exists>t seen. (work_step ossl env initial workers)\<^sup>*\<^sup>* ?s t \<and>
        set seen \<subseteq> insert (mo_active (p_monitor ?s)) (set (ro_seen ?r)) \<and>
        p_closed t = p_closed ?s @ [\<lparr>cl_accepted = c, cl_seen = seen, cl_result = result, cl_left = left\<rparr>]"
    proof (rule less.hyps [of ?r])
      show "length (arriving (k_reads (ro_conn ?r))) < length (arriving (k_reads (ro_conn r)))"
        using worker_round_reads x session by fastforce
      show "handle_connection_until ossl ((env c)\<lparr>active := \<lambda>_. mo_active (p_monitor ?s)\<rparr>) (ro_deadline ?r)
          (length (ro_seen ?r)) (ro_session ?r) (ro_conn ?r) = (result, left)"
        using unfold x session by (simp add: worker_round_def)
    qed (use less.prems in simp_all)
    then obtain t seen where "(work_step ossl env initial workers)\<^sup>*\<^sup>* ?s t"
      "set seen \<subseteq> insert (mo_active (p_monitor s)) (set (ro_seen r))"
      "p_closed t = p_closed s @ [\<lparr>cl_accepted = c, cl_seen = seen, cl_result = result, cl_left = left\<rparr>]"
      by auto
    with step show ?thesis
      by (blast intro: converse_rtranclp_into_rtranclp)
  next
    case (Some result')
    then have ends: "result' = result" "c' = left"
      using unfold x by (auto simp: worker_round_def elim!: round_end.elims)
    let ?x = "\<lparr>cl_accepted = c, cl_seen = ro_seen r @ [mo_active (p_monitor s)], cl_result = result, cl_left = left\<rparr>"
    let ?t = "s\<lparr>p_serving := worker_becomes i Idle (p_serving s)\<lparr>v_served := v_served (p_serving s) @ [(c, result)]\<rparr>,
      p_rounds := (p_rounds s)(i := None), p_closed := p_closed s @ [?x]\<rparr>"
    have "work_step ossl env initial workers s ?t"
      using closes [of s i c r ossl env, OF less.prems(1-4) x Some] ends by simp
    then have "(work_step ossl env initial workers)\<^sup>*\<^sup>* s ?t" "p_closed ?t = p_closed s @ [?x]"
      "set (ro_seen r @ [mo_active (p_monitor s)]) \<subseteq> insert (mo_active (p_monitor s)) (set (ro_seen r))"
      by auto
    then show ?thesis
      by blast
  qed
qed

lemma work_steps: "(work_step ossl env initial workers)\<^sup>*\<^sup>* s t \<Longrightarrow> (process_step ossl env path initial workers)\<^sup>*\<^sup>* s t"
  by (erule rtranclp_mono [THEN predicate2D, rotated]) (auto intro: works)

lemma quiet_steps:
  assumes "(quiet_step (\<lambda>_ _. False) l workers)\<^sup>*\<^sup>* (p_serving s) v" and "\<not> finished (p_stage s)" and "p_listener s = Some l"
  shows "(work_step ossl env initial workers)\<^sup>*\<^sup>* s (s\<lparr>p_serving := v\<rparr>)"
  using assms(1)
proof (induction rule: rtranclp_induct)
  case base
  then show ?case
    by (simp add: rtranclp.rtrancl_refl)
next
  case (step v v')
  have "work_step ossl env initial workers (s\<lparr>p_serving := v\<rparr>) ((s\<lparr>p_serving := v\<rparr>)\<lparr>p_serving := v'\<rparr>)"
    using step(2) assms(2,3) by (intro threads [of _ l]) (simp_all add: quiet_step_def)
  with step(3) show ?case
    by (simp add: rtranclp.rtrancl_into_rtrancl)
qed

text \<open>The daemon of the sample configuration, with one worker, up to the end of a connection.\<close>

definition sample_listener :: listener where
  "sample_listener = Tcp_Listener \<lparr>sa_ip = V4 127 0 0 1, sa_port = 8891, sa_scope = 0\<rparr>"

lemma sample_bind: "fst (listener_bind id (\<lambda>_. Inr ()) (Inr ()) (cfg_listen sample_config) w) = Inr sample_listener"
  by (simp add: listener_bind_def sample_config_def sample_listener_def and_then_def)

lemma sample_process:
  "\<exists>t seen result left.
     (process_step sample_openssl (\<lambda>_. sample_environment) ''/c'' sample_config 1)\<^sup>*\<^sup>* (process_start d sample_config 1) t \<and>
     set seen \<subseteq> {Some sample_config} \<and> p_closed t = [\<lparr>cl_accepted = c, cl_seen = seen, cl_result = result, cl_left = left\<rparr>]"
proof -
  let ?work = "work_step sample_openssl (\<lambda>_. sample_environment) sample_config 1"
  let ?s0 = "process_start d sample_config 1 :: (bytes, unit) process"
  let ?s1 = "?s0\<lparr>p_stage := In_Serve, p_listener := Some sample_listener\<rparr>"
  let ?s2 = "?s1\<lparr>p_serving := sample_queued c\<rparr>"
  let ?v = "(sample_queued c)\<lparr>v_workers := [Received c], v_queue := [], v_received := [c]\<rparr>"
  let ?s3 = "?s2\<lparr>p_serving := ?v\<rparr>"
  let ?r = "round_start sample_openssl sample_environment c"
  let ?s4 = "?s3\<lparr>p_serving := worker_becomes 0 (Busy c) ?v, p_rounds := [0 \<mapsto> ?r]\<rparr>"
  have 1: "?work ?s0 ?s1"
    by (rule binds [OF _ sample_bind]) (simp add: process_start_def)
  have 2: "?work\<^sup>*\<^sup>* ?s1 ?s2"
    by (rule quiet_steps) (use sample_queued_quiet in \<open>simp_all add: process_start_def\<close>)
  have "serve_step (\<lambda>_ _. False) sample_listener 1 (sample_queued c) ?v"
    using receive [of 0 "sample_queued c" c "[]" "\<lambda>_ _. False" sample_listener 1]
    by (simp add: sample_queued_def serve_start_def)
  then have 3: "?work ?s2 ?s3"
    by (intro threads [of _ sample_listener]) (simp_all add: sample_queued_def serve_start_def process_start_def)
  have 4: "?work ?s3 ?s4"
    using begins [of ?s3 0 c sample_openssl "\<lambda>_. sample_environment" sample_config 1]
    by (simp add: sample_queued_def serve_start_def process_start_def)
  obtain result left where handled: "handle_connection_until sample_openssl
      (sample_environment\<lparr>active := \<lambda>_. mo_active (p_monitor ?s4)\<rparr>) (ro_deadline ?r) (length (ro_seen ?r))
      (ro_session ?r) (ro_conn ?r) = (result, left)"
    by fastforce
  have "\<exists>t seen. ?work\<^sup>*\<^sup>* ?s4 t \<and> set seen \<subseteq> insert (mo_active (p_monitor ?s4)) (set (ro_seen ?r)) \<and>
      p_closed t = p_closed ?s4 @ [\<lparr>cl_accepted = c, cl_seen = seen, cl_result = result, cl_left = left\<rparr>]"
    by (rule worker_finishes [OF _ _ _ _ handled]) (simp_all add: process_start_def sample_queued_def serve_start_def)
  moreover have "p_closed ?s4 = []" "insert (mo_active (p_monitor ?s4)) (set (ro_seen ?r)) = {Some sample_config}"
    by (simp_all add: process_start_def monitor_start_def round_start_def)
  ultimately obtain t seen where "?work\<^sup>*\<^sup>* ?s4 t" "set seen \<subseteq> {Some sample_config}"
    "p_closed t = [\<lparr>cl_accepted = c, cl_seen = seen, cl_result = result, cl_left = left\<rparr>]"
    by (metis append_Nil)
  moreover from 1 2 3 4 this(1) have "?work\<^sup>*\<^sup>* ?s0 t"
    by (meson converse_rtranclp_into_rtranclp rtranclp_trans)
  ultimately show ?thesis
    using work_steps by blast
qed

lemma sample_daemon:
  "load sample_openssl (sys_read sample_system) ''/c'' = Inr sample_config"
  "sys_check_fips sample_system (cfg_require_fips sample_config) = Inr ()"
  using load_sample by (simp add: sample_system_def) code_simp

text \<open>A daemon with one worker that gets SIGTERM before it has bound its listener.\<close>

definition sample_dispositions :: dispositions where
  "sample_dispositions = [SIGHUP \<mapsto> On_Reload, SIGTERM \<mapsto> On_Shutdown, SIGINT \<mapsto> On_Shutdown]"

definition sample_state ::
  "bool \<Rightarrow> monitor_state \<Rightarrow> bool \<Rightarrow> stage \<Rightarrow> listener option \<Rightarrow> main_state \<Rightarrow> bool \<Rightarrow> conn worker
    \<Rightarrow> (bytes, unit) process" where
  "sample_state sig m stop stage l main senders w =
     (process_start sample_dispositions sample_config 1)
       \<lparr>p_monitor := (monitor_start sample_config)\<lparr>mo_shutdown := sig, mo_state := m, mo_stop_serving := stop\<rparr>,
        p_stage := stage, p_listener := l,
        p_serving := (serve_start 1)\<lparr>v_shutdown := stop, v_main := main, v_open := senders, v_workers := [w]\<rparr>\<rparr>"

definition sample_states :: "(bytes, unit) process list" where
  "sample_states =
     [sample_state False Testing False Binding None Check True Idle,
      sample_state True Testing False Binding None Check True Idle,
      sample_state True Stopping False Binding None Check True Idle,
      sample_state True Stopped True Binding None Check True Idle,
      sample_state True Stopped True In_Serve (Some sample_listener) Check True Idle,
      sample_state True Stopped True In_Serve (Some sample_listener) Joining False Idle,
      sample_state True Stopped True In_Serve (Some sample_listener) Joining False Exited,
      sample_state True Stopped True In_Serve (Some sample_listener) (Returned (Inr ())) False Exited,
      sample_state True Stopped True (Joining_Monitor (Inr ())) (Some sample_listener) (Returned (Inr ())) False Exited,
      sample_state True Stopped True (Finished (Inr ())) (Some sample_listener) (Returned (Inr ())) False Exited]"

definition sample_trace :: "nat \<Rightarrow> (bytes, unit) process" where
  "sample_trace i = sample_states ! min i 9"

lemma sample_monitor_move:
  assumes "monitor_step sample_openssl ''/c''
      ((monitor_start sample_config)\<lparr>mo_shutdown := True, mo_state := m, mo_stop_serving := False\<rparr>)
      ((monitor_start sample_config)\<lparr>mo_shutdown := True, mo_state := m', mo_stop_serving := stop\<rparr>)" and "m' \<noteq> m"
  shows "monitor_move sample_openssl ''/c'' (sample_state True m False Binding None Check True Idle)
    (sample_state True m' stop Binding None Check True Idle)"
  unfolding monitor_move_def own_step_def using assms
  by (intro exI [of _ "(monitor_start sample_config)\<lparr>mo_shutdown := True, mo_state := m', mo_stop_serving := stop\<rparr>"])
    (simp add: sample_state_def process_start_def serve_start_def)

lemma sample_threads_step:
  assumes "serve_step (\<lambda>_ _. False) sample_listener (Suc 0)
      ((serve_start (Suc 0))\<lparr>v_shutdown := True, v_main := m, v_open := o1, v_workers := [w]\<rparr>)
      ((serve_start (Suc 0))\<lparr>v_shutdown := True, v_main := m', v_open := o2, v_workers := [w']\<rparr>)"
    and "handling w' = handling w"
  shows "work_step sample_openssl (\<lambda>_. sample_environment) sample_config (Suc 0)
    (sample_state True Stopped True In_Serve (Some sample_listener) m o1 w)
    (sample_state True Stopped True In_Serve (Some sample_listener) m' o2 w')"
  using threads [of "sample_state True Stopped True In_Serve (Some sample_listener) m o1 w" sample_listener "Suc 0"
      "(serve_start (Suc 0))\<lparr>v_shutdown := True, v_main := m', v_open := o2, v_workers := [w']\<rparr>"
      sample_openssl "\<lambda>_. sample_environment" sample_config] assms
  by (simp add: sample_state_def process_start_def)

lemma sample_execution:
  "execution (process_step sample_openssl (\<lambda>_. sample_environment) ''/c'' sample_config 1) sample_trace"
proof -
  let ?step = "process_step sample_openssl (\<lambda>_. sample_environment) ''/c'' sample_config 1"
  have "receive_signal SIGTERM (sample_states ! 0) = sample_states ! 1"
    by (simp add: sample_states_def receive_signal_def sample_state_def process_start_def sample_dispositions_def monitor_start_def)
  then have 0: "?step (sample_states ! 0) (sample_states ! 1)"
    using signalled [of "sample_states ! 0" sample_openssl "\<lambda>_. sample_environment" "''/c''" sample_config 1 SIGTERM]
    by (simp add: sample_states_def sample_state_def)
  have 1: "?step (sample_states ! 1) (sample_states ! 2)"
    using test_stop [of "(monitor_start sample_config)\<lparr>mo_shutdown := True, mo_state := Testing, mo_stop_serving := False\<rparr>"
        sample_openssl "''/c''"]
    by (intro monitors) (simp add: sample_states_def sample_monitor_move monitor_start_def)
  have 2: "?step (sample_states ! 2) (sample_states ! 3)"
    using stops [of "(monitor_start sample_config)\<lparr>mo_shutdown := True, mo_state := Stopping, mo_stop_serving := False\<rparr>"
        sample_openssl "''/c''"]
    by (intro monitors) (simp add: sample_states_def sample_monitor_move monitor_start_def)
  have 3: "?step (sample_states ! 3) (sample_states ! 4)"
    using binds [OF _ sample_bind, of "sample_states ! 3" sample_openssl "\<lambda>_. sample_environment" 1]
    by (intro works) (simp add: sample_states_def sample_state_def process_start_def)
  have 4: "?step (sample_states ! 4) (sample_states ! 5)"
    using check_stop [of "(serve_start 1 :: conn serving)\<lparr>v_shutdown := True, v_main := Check, v_open := True, v_workers := [Idle]\<rparr>"
        "\<lambda>_ _. False" sample_listener 1]
    by (intro works) (simp add: sample_states_def sample_threads_step serve_start_def)
  have 5: "?step (sample_states ! 5) (sample_states ! 6)"
    using disconnected [of 0 "(serve_start 1 :: conn serving)\<lparr>v_shutdown := True, v_main := Joining, v_open := False, v_workers := [Idle]\<rparr>"
        "\<lambda>_ _. False" sample_listener 1]
    by (intro works) (simp add: sample_states_def sample_threads_step serve_start_def)
  have 6: "?step (sample_states ! 6) (sample_states ! 7)"
    using joined [of "(serve_start 1 :: conn serving)\<lparr>v_shutdown := True, v_main := Joining, v_open := False, v_workers := [Exited]\<rparr>"
        "\<lambda>_ _. False" sample_listener 1]
    by (intro works) (simp add: sample_states_def sample_threads_step serve_start_def)
  have 7: "?step (sample_states ! 7) (sample_states ! 8)"
    using returns [of "sample_states ! 7" "Inr ()" sample_openssl "\<lambda>_. sample_environment" sample_config 1]
    by (intro works) (simp add: sample_states_def sample_state_def process_start_def serve_returns_def monitor_start_def)
  have 8: "?step (sample_states ! 8) (sample_states ! 9)"
    using joins [of "sample_states ! 8" "Inr ()" sample_openssl "\<lambda>_. sample_environment" sample_config 1]
    by (intro works) (simp add: sample_states_def sample_state_def process_start_def)
  have "?step (sample_trace i) (sample_trace (Suc i)) \<or> sample_trace (Suc i) = sample_trace i" for i
  proof (cases "i < 9")
    case True
    then consider "i = 0" | "i = 1" | "i = 2" | "i = 3" | "i = 4" | "i = 5" | "i = 6" | "i = 7" | "i = 8"
      by linarith
    then show ?thesis
      using 0 1 2 3 4 5 6 7 8 by cases (simp_all add: sample_trace_def numeral_eq_Suc)
  qed (simp add: sample_trace_def)
  then show ?thesis
    by (simp add: execution_def)
qed

section \<open>Properties\<close>

text \<open>C11: the running daemon is the monitor and the serving threads put together: in every state that the
  interleaving of all threads and signals can reach, the monitor is in a state of its own, the accepting
  thread, the queue and the workers are in a state of theirs, and both see the same shutdown flag; every
  connection that was served was served exactly as \<open>handle_connection\<close> serves it, each packet with the
  configuration active at that packet, and each of these is sound, through the FIPS gate, and has
  the listener of the start.\<close>

theorem process_refines_threads:
  assumes "load ossl (sys_read sys) path = Inr initial"
    and "sys_check_fips sys (cfg_require_fips initial) = Inr ()"
    and "(process_step ossl env path initial workers)\<^sup>*\<^sup>* (process_start d initial workers) s"
  shows "(monitor_step ossl path)\<^sup>*\<^sup>* (monitor_start initial) (p_monitor s) \<and>
    (\<exists>l. p_listener s \<in> {None, Some l} \<and>
      (serve_step (may_return ossl env (cfg_listen initial)) l workers)\<^sup>*\<^sup>* (serve_start workers) (p_serving s)) \<and>
    v_shutdown (p_serving s) = mo_stop_serving (p_monitor s) \<and>
    v_served (p_serving s) = map (\<lambda>x. (cl_accepted x, cl_result x)) (p_closed s) \<and>
    list_all (served_as ossl env (cfg_listen initial)) (p_closed s)"
proof -
  have "process_inv ossl env path initial workers s"
    by (rule process_inv_reachable [OF assms(3) admissible_start [OF assms(1,2)]])
  then show ?thesis
    unfolding process_inv_def by (cases "p_listener s") auto
qed

lemma process_refines_threads_witness:
  "\<exists>(t :: (bytes, unit) process) x. p_closed t = [x] \<and> cl_accepted x = sample_conn \<and>
    (monitor_step sample_openssl ''/c'')\<^sup>*\<^sup>* (monitor_start sample_config) (p_monitor t) \<and>
    v_served (p_serving t) = [(sample_conn, cl_result x)] \<and>
    served_as sample_openssl (\<lambda>_. sample_environment) (cfg_listen sample_config) x"
proof -
  obtain t seen result left where t: "(process_step sample_openssl (\<lambda>_. sample_environment) ''/c'' sample_config 1)\<^sup>*\<^sup>*
      (process_start sample_dispositions sample_config 1) t"
    "p_closed t = [\<lparr>cl_accepted = sample_conn, cl_seen = seen, cl_result = result, cl_left = left\<rparr>]"
    using sample_process [of sample_dispositions sample_conn] by blast
  with process_refines_threads [OF sample_daemon t(1)] show ?thesis
    by (intro exI [of _ t]) simp
qed

text \<open>C10: the daemon ends when it is told to: in every fair interleaving of its threads with each other and
  with any other signals, after SIGTERM or SIGINT the process comes to its end; and when it ends without an
  error, every worker has left its loop and every connection that a worker took was handled to
  its end or given up before its first byte.\<close>

theorem process_ends_on_signal:
  assumes start: "load ossl (sys_read sys) path = Inr initial"
      "sys_check_fips sys (cfg_require_fips initial) = Inr ()"
      "install_signal_handlers fails Map.empty = (Inr (), d)" "trace 0 = process_start d initial workers"
    and run: "execution (process_step ossl env path initial workers) trace"
    and fair: "weakly_fair (monitor_move ossl path) trace" "weakly_fair (work_move ossl env initial workers) trace"
    and signal: "sig \<in> {SIGTERM, SIGINT}" "trace (Suc i) = receive_signal sig (trace i)"
  shows "\<exists>j r. p_stage (trace j) = Finished r \<and>
    (r = Inr () \<longrightarrow> list_all (\<lambda>x. x = Exited) (v_workers (p_serving (trace j))) \<and>
       mset (v_received (p_serving (trace j))) =
         mset (map cl_accepted (p_closed (trace j))) + mset (v_abandoned (p_serving (trace j))))"
proof -
  have admissible: "admissible ossl (cfg_listen initial) initial"
    by (rule admissible_start [OF start(1,2)])
  then have inv: "process_inv ossl env path initial workers (trace j)" for j
    using process_inv_reachable execution_reachable [OF run, of j] start(4) by metis
  have "p_handlers (trace i) sig = Some On_Shutdown"
    using run_handlers [OF run, of i] start(3,4) signal(1)
    by (auto simp: install_signal_handlers_Inr process_start_def)
  then have "shutting_down ossl env path initial workers (trace (Suc i))"
    using admissible inv [of "Suc i"] signal(2) by (simp add: shutting_down_def receive_signal_def)
  with monitor_progress.reaches_goal [OF run fair(1)] monitor_progress.stable_later [OF run]
  obtain j where "stopping ossl env path initial workers (trace j)"
    unfolding stopping_def by blast
  from work_progress.reaches_goal [OF run fair(2) this] obtain k r where "p_stage (trace k) = Finished r"
    by (auto elim!: finished.elims)
  with clean_end [OF inv [of k]] show ?thesis
    by blast
qed

lemma process_ends_on_signal_witness: "\<exists>j r. p_stage (sample_trace j) = Finished r"
proof -
  have ended: "finished (p_stage (sample_trace (max i 9)))" for i
    by (simp add: sample_trace_def sample_states_def sample_state_def)
  have stuck: "\<not> work_move sample_openssl (\<lambda>_. sample_environment) sample_config 1 s t"
    if "finished (p_stage s)" for s t
    using that by (auto simp: work_move_def elim!: work_step.cases)
  have state: "mo_state (p_monitor (sample_trace (max i 9))) = Stopped" for i
    by (simp add: sample_trace_def sample_states_def sample_state_def)
  then have still: "\<not> monitor_move sample_openssl ''/c'' (sample_trace (max i 9)) t" for i t
    by (auto simp: monitor_move_def own_step_def elim: monitor_step.cases)
  have "weakly_fair (monitor_move sample_openssl ''/c'') sample_trace"
    unfolding weakly_fair_def using still by (meson max.cobounded1)
  moreover have "weakly_fair (work_move sample_openssl (\<lambda>_. sample_environment) sample_config 1) sample_trace"
    unfolding weakly_fair_def using stuck ended by (meson max.cobounded1)
  moreover have "install_signal_handlers (\<lambda>_. False) Map.empty = (Inr (), sample_dispositions)"
    by (simp add: install_signal_handlers_Inr sample_dispositions_def)
  moreover have "sample_trace 0 = process_start sample_dispositions sample_config 1"
    by (simp add: sample_trace_def sample_states_def sample_state_def process_start_def monitor_start_def serve_start_def)
  moreover have "sample_trace (Suc 0) = receive_signal SIGTERM (sample_trace 0)"
    by (simp add: sample_trace_def sample_states_def receive_signal_def sample_state_def process_start_def
        sample_dispositions_def monitor_start_def)
  ultimately show ?thesis
    using process_ends_on_signal [OF sample_daemon _ _ sample_execution, of "\<lambda>_. False" sample_dispositions SIGTERM 0]
    by blast
qed

end
