(* ===== verification/Log.thy ===== *)
theory Log
  imports Process Report
begin

text \<open>
  What clients of the milter can write into the daemon's log. A line about a message or a connection is built
  from fixed texts, texts of OpenSSL and of the operating system, a byte of the client's in hexadecimal, and the domain
  of a From field, which src/src/dkim.rs has parsed.

  The lemmas follow these lines from \<open>sign\<close> through the message and the connection to the running process.
\<close>

section \<open>Printable texts\<close>

definition printable :: "byte \<Rightarrow> bool" where
  "printable b \<longleftrightarrow> 32 \<le> code b \<and> code b < 127"

abbreviation printable_text :: "bytes \<Rightarrow> bool" where
  "printable_text s \<equiv> list_all printable s"

text \<open>What is relied on: the texts that OpenSSL and the operating system give their errors are printable.\<close>

definition printable_openssl :: "('h, 'k, 's) openssl \<Rightarrow> bool" where
  "printable_openssl ossl \<longleftrightarrow>
     (\<forall>k e. signer_new ossl k = Inl e \<longrightarrow> printable_text e) \<and>
     (\<forall>s bs e. signer_update ossl s bs = Inl e \<longrightarrow> printable_text e) \<and>
     (\<forall>s e. sign_to_vec ossl s = Inl e \<longrightarrow> printable_text e)"

definition printable_texts :: "texts \<Rightarrow> bool" where
  "printable_texts tx \<longleftrightarrow> (\<forall>e. printable_text (io_text tx e))"

lemma printable_domain_byte: "domain_byte b \<Longrightarrow> printable b"
  by (auto simp: domain_byte_def printable_def byte_simps)

lemma printable_char_of: "32 \<le> n \<Longrightarrow> n < 127 \<Longrightarrow> printable (char_of n)" for n :: nat
  by (simp add: printable_def code_char_of)

lemma printable_hex: "printable_text (hex n)"
proof (induction n rule: hex.induct)
  case (1 n)
  have "printable (char_of (if n mod 16 < 10 then 48 + n mod 16 else 87 + n mod 16))"
    by (intro printable_char_of) auto
  with 1 show ?case
    by (subst hex.simps) simp
qed

lemma printable_hex2: "printable_text (hex2 b)"
proof -
  have "printable CHR ''0''"
    by code_simp
  then show ?thesis
    by (simp add: hex2_def printable_hex)
qed

text \<open>The fixed parts.\<close>

lemma printable_parts:
  "printable_text ''From domain ''" "printable_text '' does not match configured domain''"
  "printable_text ''cannot initialize RSA-SHA256 signer: ''" "printable_text ''cannot hash header: ''"
  "printable_text ''cannot hash DKIM-Signature: ''" "printable_text ''RSA-SHA256 signing failed: ''"
  "printable_text ''cannot write milter response: ''" "printable_text ''unsupported milter command 0x''"
  "printable_text ''accepting message unsigned: ''" "printable_text ''milter connection closed: ''"
  "printable_text log_prefix"
  by code_simp+

lemma printable_sign_error:
  "printable_text (sign_error_text Not_One_From)" "printable_text (sign_error_text No_From_Domain)"
  "printable_text (sign_error_text Clock_Before_Epoch)"
  "printable_text (sign_error_text (From_Domain_Mismatch d)) \<longleftrightarrow> printable_text d"
  "printable_text (sign_error_text (Signer_Init d)) \<longleftrightarrow> printable_text d"
  "printable_text (sign_error_text (Hash_Header d)) \<longleftrightarrow> printable_text d"
  "printable_text (sign_error_text (Hash_Signature d)) \<longleftrightarrow> printable_text d"
  "printable_text (sign_error_text (Signing_Failed d)) \<longleftrightarrow> printable_text d"
  by code_simp (simp_all only: sign_error_text.simps list_all_append printable_parts simp_thms, code_simp+)

definition printable_error :: "message_error \<Rightarrow> bool" where
  "printable_error e \<longleftrightarrow> printable_text (message_error_text e)"

lemma printable_message_error:
  "e \<notin> range Not_Signed \<Longrightarrow> printable_error e"
  "printable_error (Not_Signed e') \<longleftrightarrow> printable_text (sign_error_text e')"
proof -
  have "printable_error Malformed_Header_Packet" "printable_error Malformed_Header_Value"
    "printable_error Header_Limit_Exceeded" "printable_error Invalid_Header" "printable_error Body_Before_Start"
    "printable_error End_Before_Start" "printable_error No_Permission"
    by code_simp+
  then show "e \<notin> range Not_Signed \<Longrightarrow> printable_error e"
    by (cases e) auto
qed (simp add: printable_error_def)

lemma printable_close_error:
  assumes "printable_texts tx"
  shows "printable_text (close_error_text tx e)"
proof -
  have "printable_text (close_error_text tx Empty_Packet)" "printable_text (close_error_text tx Invalid_Negotiation)"
    "printable_text (close_error_text tx Lock_Poisoned)" "printable_text (close_error_text tx No_Configuration)"
    "printable_text (write_error_text tx Response_Too_Large)"
    by (simp_all only: close_error_text.simps write_error_text.simps) code_simp+
  moreover have "printable_text (write_error_text tx w)" for w
    using assms calculation(5)
    by (cases w) (simp_all only: write_error_text.simps list_all_append printable_parts printable_texts_def simp_thms)
  ultimately show ?thesis
    using assms printable_hex2
    by (cases e) (simp_all only: close_error_text.simps list_all_append printable_parts printable_texts_def simp_thms)
qed

section \<open>Errors of sign\<close>

lemma feed_all_Inl: "feed_all feed s xss = Inl e \<Longrightarrow> \<exists>s' xs. feed s' xs = Inl e"
  by (induction xss arbitrary: s) (auto split: sum.splits)

lemma map_sum_Inl: "map_sum f g x = Inl e \<longleftrightarrow> (\<exists>d. x = Inl d \<and> e = f d)"
  by (cases x) auto

text \<open>Where the variable part of each error comes from.\<close>

definition error_source ::
  "('h, 'k, 's) openssl \<Rightarrow> 'k runtime_config \<Rightarrow> header list \<Rightarrow> sign_error \<Rightarrow> bool" where
  "error_source ossl config headers e \<longleftrightarrow>
     (case e of
        From_Domain_Mismatch d \<Rightarrow>
          (\<exists>h. filter (\<lambda>h. header_is h ''from'') headers = [h] \<and> from_domain (hdr_value h) = Some d \<and>
             \<not> eq_ignore_ascii_case d (cfg_domain config))
      | Signer_Init t \<Rightarrow> signer_new ossl (cfg_key config) = Inl t
      | Hash_Header t \<Rightarrow> (\<exists>s bs. signer_update ossl s bs = Inl t)
      | Hash_Signature t \<Rightarrow> (\<exists>s bs. signer_update ossl s bs = Inl t)
      | Signing_Failed t \<Rightarrow> (\<exists>s. sign_to_vec ossl s = Inl t)
      | _ \<Rightarrow> True)"

lemma sign_error_source:
  assumes "sign ossl now config headers body = Inl e"
  shows "error_source ossl config headers e"
proof -
  have "error_source ossl config headers e" if "check_from config headers = Inl e"
    using that by (auto simp: check_from_def error_source_def split: list.splits option.splits if_splits)
  with assms show ?thesis
    by (auto simp: sign_def and_then_def Let_def map_sum_Inl error_source_def dest: feed_all_Inl
        split: sum.splits prod.splits if_splits) blast
qed

lemma sign_printable:
  assumes "sign ossl now config headers body = Inl e" and "printable_openssl ossl"
  shows "printable_text (sign_error_text e)"
proof -
  have "printable_text d" if "from_domain v = Some d" for v d
    using from_domain_Some [OF that] address_domain_Some printable_domain_byte by (fastforce simp: list_all_iff)
  with sign_error_source [OF assms(1)] assms(2) [unfolded printable_openssl_def] show ?thesis
    by (cases e) (auto simp: error_source_def printable_sign_error simp del: sign_error_text.simps)
qed

section \<open>The log of a message and of a connection\<close>

text \<open>An operation that appends only lines with \<open>P\<close> to the log, and whose result satisfies \<open>Q\<close>.\<close>

definition logs_within :: "('l \<Rightarrow> bool) \<Rightarrow> ('a \<Rightarrow> bool) \<Rightarrow> ('w \<Rightarrow> 'l list) \<Rightarrow> ('w, 'e, 'a) act \<Rightarrow> bool" where
  "logs_within P Q logged m \<longleftrightarrow>
     (\<forall>w. (\<exists>ls. logged (snd (m w)) = logged w @ ls \<and> list_all P ls) \<and> (\<forall>a. fst (m w) = Inr a \<longrightarrow> Q a))"

lemma logs_within_silent:
  assumes "\<And>w. logged (snd (m w)) = logged w" and "\<And>w a. fst (m w) = Inr a \<Longrightarrow> Q a"
  shows "logs_within P Q logged m"
  using assms by (simp add: logs_within_def)

lemma logs_within_ok: "Q a \<Longrightarrow> logs_within P Q logged (ok a)" and logs_within_err: "logs_within P Q logged (err e)"
  by (simp_all add: logs_within_def act_simps)

lemma logs_within_bind:
  assumes "logs_within P Q m_log m" and "\<And>a. Q a \<Longrightarrow> logs_within P R m_log (f a)"
  shows "logs_within P R m_log (bind_act m f)"
  unfolding logs_within_def
proof
  fix w
  obtain x w1 where m: "m w = (x, w1)"
    by (cases "m w")
  from assms(1) m obtain ls where ls: "m_log w1 = m_log w @ ls" "list_all P ls" "\<And>a. x = Inr a \<Longrightarrow> Q a"
    unfolding logs_within_def by (metis fst_conv snd_conv)
  show "(\<exists>ls. m_log (snd (bind_act m f w)) = m_log w @ ls \<and> list_all P ls) \<and>
      (\<forall>a. fst (bind_act m f w) = Inr a \<longrightarrow> R a)"
  proof (cases x)
    case (Inl e)
    with m ls show ?thesis
      by (auto simp: bind_act_def)
  next
    case (Inr a)
    then have "bind_act m f w = f a w1"
      using m by (simp add: bind_act_def)
    moreover obtain ls' where "m_log (snd (f a w1)) = m_log w1 @ ls'" "list_all P ls'"
      "\<forall>b. fst (f a w1) = Inr b \<longrightarrow> R b"
      using assms(2) [OF ls(3) [OF Inr]] unfolding logs_within_def by meson
    ultimately show ?thesis
      using ls(1,2) by auto
  qed
qed

lemma logs_within_map_err: "logs_within P Q logged m \<Longrightarrow> logs_within P Q logged (map_err h m)"
  unfolding logs_within_def map_err_def
  by (auto split: prod.splits sum.splits) (metis fst_conv snd_conv)+

definition state_printable :: "('h, 'k) message_state \<Rightarrow> bool" where
  "state_printable st \<longleftrightarrow> (\<forall>e. ms_error st = Some e \<longrightarrow> printable_error e)"

lemma state_printable_fail: "state_printable st \<Longrightarrow> printable_error e \<Longrightarrow> state_printable (ms_fail e st)"
  by (auto simp: state_printable_def split: option.splits)

lemma state_printable_start [simp]: "state_printable (ms_default ossl)" "state_printable (ms_begin ossl config st)"
  by (simp_all add: state_printable_def ms_default_def ms_begin_def)

lemma state_printable_update:
  assumes "state_printable st"
  shows "state_printable (receive_header payload st)" and "state_printable (receive_body ossl payload st)"
proof -
  have fixed: "printable_error e" if "e \<notin> range Not_Signed" for e
    using that by (rule printable_message_error(1))
  have more: "state_printable (st\<lparr>ms_header_bytes := n\<rparr>)" "state_printable (st\<lparr>ms_header_bytes := n, ms_headers := hs\<rparr>)"
    "state_printable (st\<lparr>ms_body := b\<rparr>)" for n hs b
    using assms by (simp_all add: state_printable_def)
  show "state_printable (receive_header payload st)"
    unfolding receive_header_def Let_def
    by (auto intro!: state_printable_fail fixed assms more split: option.splits sum.splits prod.splits)
  show "state_printable (receive_body ossl payload st)"
    unfolding receive_body_def by (auto intro!: state_printable_fail fixed assms more)
qed

context message_sink
begin

lemma logs_within_put: "logs_within P (\<lambda>_. True) logged (w_put wr bs)"
  using put_logged by (intro logs_within_silent) auto

lemma logs_within_write:
  "logs_within P (\<lambda>_. True) logged (map_err Writing (write_status wr c))"
  "logs_within P (\<lambda>_. True) logged (map_err Writing (write_packet wr c p))"
  "logs_within P (\<lambda>_. True) logged (map_err Writing (write_continue_if_needed wr protocol c))"
proof -
  show status: "logs_within P (\<lambda>_. True) logged (map_err Writing (write_status wr c))"
    unfolding write_status_def by (intro logs_within_map_err logs_within_put)
  show "logs_within P (\<lambda>_. True) logged (map_err Writing (write_packet wr c p))"
    unfolding write_packet_def
    by (intro logs_within_map_err) (auto intro: logs_within_map_err logs_within_put logs_within_err split: option.splits)
  show "logs_within P (\<lambda>_. True) logged (map_err Writing (write_continue_if_needed wr protocol c))"
    unfolding write_continue_if_needed_def write_status_def
    by (auto intro: logs_within_map_err logs_within_put logs_within_ok)
qed

lemma logs_within_finish:
  fixes st :: "('h, 'k) message_state"
  assumes "state_printable st" and "printable_openssl ossl"
  shows "logs_within printable_error (\<lambda>_. True) logged (finish_message ossl wr now actions st)"
proof -
  have fixed: "printable_error e" if "e \<notin> range Not_Signed" for e
    using that by (rule printable_message_error(1))
  define st1 where "st1 = (if ms_config st = None then ms_fail End_Before_Start st else st)"
  define st2 where "st2 = (if ms_error st1 = None \<and> actions AND (ACTION_ADD_HEADER OR ACTION_CHANGE_HEADER) = 0
    then ms_fail No_Permission st1 else st1)"
  have st2: "state_printable st2"
    using assms(1) by (auto simp: st2_def st1_def intro!: state_printable_fail fixed)
  have body: "state_printable (st2\<lparr>ms_body := b\<rparr>)" for b
    using st2 by (simp add: state_printable_def)
  show ?thesis
    unfolding finish_message_def Let_def st1_def [symmetric] st2_def [symmetric]
  proof (rule logs_within_bind [of _ state_printable])
    show "logs_within printable_error state_printable logged
      (if ms_error st2 = None then
         case ms_config (st2\<lparr>ms_body := body_default ossl\<rparr>) of None \<Rightarrow> err No_Configuration
         | Some config \<Rightarrow>
             (case sign ossl now config (ms_headers (st2\<lparr>ms_body := body_default ossl\<rparr>)) (body_finish ossl (ms_body st2)) of
                Inl e \<Rightarrow> ok (ms_fail (Not_Signed e) (st2\<lparr>ms_body := body_default ossl\<rparr>))
              | Inr v \<Rightarrow>
                  (case signature_packet actions v of (command, payload) \<Rightarrow>
                     bind_act (map_err Writing (write_packet wr command payload))
                       (\<lambda>_. ok (st2\<lparr>ms_body := body_default ossl\<rparr>))))
       else ok st2)"
      using st2 body sign_printable [OF _ assms(2)]
      by (auto intro!: logs_within_err logs_within_ok logs_within_bind [OF logs_within_write(2)] state_printable_fail
          simp: printable_message_error(2) split: option.splits sum.splits prod.splits)
  next
    fix st' :: "('h, 'k) message_state"
    assume st': "state_printable st'"
    have line: "logs_within printable_error (\<lambda>_. True) logged
      (case ms_error st' of Some error \<Rightarrow> (\<lambda>w. ok () (w_log wr error w)) | None \<Rightarrow> ok ())"
    proof (cases "ms_error st'")
      case (Some e)
      with st' have "list_all printable_error [e]"
        by (simp add: state_printable_def)
      with Some show ?thesis
        unfolding logs_within_def by (auto simp: act_simps log_logged)
    qed (simp add: logs_within_ok)
    show "logs_within printable_error (\<lambda>_. True) logged
      (bind_act (case ms_error st' of Some error \<Rightarrow> (\<lambda>w. ok () (w_log wr error w)) | None \<Rightarrow> ok ())
        (\<lambda>_. bind_act (map_err Writing (write_status wr CHR ''a'')) (\<lambda>_. ok st')))"
      by (intro logs_within_bind [OF line] logs_within_bind [OF logs_within_write(1)] logs_within_ok) auto
  qed
qed

text \<open>Every packet; what the session holds on to stays printable.\<close>

lemma logs_within_packet:
  fixes s :: "('h, 'k) session"
  assumes "state_printable (s_state s)" and "printable_openssl ossl"
  shows "logs_within printable_error (\<lambda>s'. \<forall>t. s' = Some t \<longrightarrow> state_printable (s_state t)) logged
    (handle_packet ossl wr config now packet s)"
proof (cases packet)
  case Nil
  then show ?thesis
    by (simp add: handle_packet_def logs_within_err)
next
  case (Cons c payload)
  let ?Q = "\<lambda>s'. \<forall>t. s' = Some t \<longrightarrow> state_printable (s_state (t :: ('h, 'k) session))"
  have continue: "logs_within printable_error ?Q logged (bind_act
      (map_err Writing (write_continue_if_needed wr protocol c)) (\<lambda>_. ok (Some t)))" if "state_printable (s_state t)" for protocol t
    using that by (intro logs_within_bind [OF logs_within_write(3)] logs_within_ok) auto
  have negotiated: "state_printable (s_state t)" if "negotiate payload s = (x, t)" for x t
    using assms(1) that by (auto simp: negotiate_def Let_def)
  have started: "logs_within printable_error state_printable logged (ensure_started ossl config (s_state s))"
    using assms(1) by (auto simp: ensure_started_def intro!: logs_within_ok logs_within_err split: option.splits)
  have branch: "logs_within P Q logged m \<Longrightarrow> logs_within P Q logged m' \<Longrightarrow> logs_within P Q logged (if b then m else m')"
    for P and Q :: "('h, 'k) session option \<Rightarrow> bool" and b and m m' :: "('w, close_error, ('h, 'k) session option) act"
    by simp
  show ?thesis
    unfolding Cons handle_packet_def Let_def list.case
    using assms
    by (intro branch continue logs_within_err logs_within_bind [OF started] logs_within_bind [OF logs_within_finish])
      (auto intro!: continue logs_within_ok logs_within_err logs_within_bind [OF logs_within_write(2)]
        simp: state_printable_update negotiated split: option.splits prod.splits)
qed

end

lemma handle_connection_until_log:
  assumes "printable_openssl ossl" and "state_printable (s_state s)"
    and "handle_connection_until ossl env deadline n s c = (r, c')"
  shows "\<exists>ls. k_log c' = k_log c @ ls \<and> list_all printable_error ls"
  using assms
proof (induction ossl env deadline n s c arbitrary: r c' rule: handle_connection_until.induct)
  case (1 ossl env deadline n s c)
  obtain x c1 where x: "read_packet_into (instant env) deadline c = (x, c1)"
    by (cases "read_packet_into (instant env) deadline c")
  note rd = read_packet_into_reads [OF x]
  show ?case
  proof (cases "\<exists>p. x = Inr (Some p)")
    case False
    then have "c' = c1"
      using "1.prems"(3) x
      by (auto simp: handle_connection_until.simps [of ossl env deadline n s c] split: sum.splits option.splits)
    with rd show ?thesis
      by simp
  next
    case True
    then obtain p where p: "x = Inr (Some p)"
      by blast
    obtain y c2 where y: "handle_packet ossl (conn_writer (instant env) deadline) (active env n) (wall env n) p s c1 = (y, c2)"
      by (cases "handle_packet ossl (conn_writer (instant env) deadline) (active env n) (wall env n) p s c1")
    have "(\<exists>ls. k_log c2 = k_log c1 @ ls \<and> list_all printable_error ls) \<and>
        (\<forall>s'. y = Inr (Some s') \<longrightarrow> state_printable (s_state s'))"
      using conn.logs_within_packet [OF "1.prems"(2,1), of "instant env" deadline "active env n" "wall env n" p,
          unfolded logs_within_def, rule_format, of c1] y by simp
    then obtain ls where ls: "k_log c2 = k_log c @ ls" "list_all printable_error ls"
      and s': "\<And>s'. y = Inr (Some s') \<Longrightarrow> state_printable (s_state s')"
      using rd by auto
    show ?thesis
    proof (cases "\<exists>s'. y = Inr (Some s')")
      case False
      then have "c' = c2"
        using "1.prems"(3) x p y
        by (auto simp: handle_connection_until.simps [of ossl env deadline n s c] split: sum.splits option.splits)
      with ls show ?thesis
        by blast
    next
      case True
      then obtain s2 where s2: "y = Inr (Some s2)"
        by blast
      then have rest: "handle_connection_until ossl env deadline (Suc n) s2 c2 = (r, c')"
        using "1.prems"(3) x p y by (simp add: handle_connection_until.simps [of ossl env deadline n s c])
      obtain ls' where "k_log c' = k_log c2 @ ls'" "list_all printable_error ls'"
        using "1.IH" [OF x [symmetric] p refl y [symmetric] s2 refl "1.prems"(1) s' [OF s2] rest] by blast
      with ls show ?thesis
        by simp
    qed
  qed
qed

lemma handle_connection_log:
  assumes "printable_openssl ossl" and "handle_connection ossl env c = (r, c')"
  shows "\<exists>ls. k_log c' = k_log c @ ls \<and> list_all printable_error ls"
  using handle_connection_until_log [OF assms(1) _ assms(2) [unfolded handle_connection_def Let_def]]
  by (simp add: session_start_def)

section \<open>Reading the log\<close>

text \<open>A reader who cuts standard error into lines finds the lines that were written.\<close>

lemma split_inclusive_lf_line:
  "LF \<notin> set l \<Longrightarrow> split_inclusive_lf (l @ LF # s) = (l @ [LF]) # split_inclusive_lf s"
  by (induction l) auto

lemma str_lines_eprint:
  assumes "list_all printable_text ls"
  shows "str_lines (eprint_lines ls) = ls"
  using assms
proof (induction ls)
  case (Cons l ls)
  have plain: "LF \<notin> set l" "CR \<notin> set l"
    using Cons.prems by (auto simp: list_all_iff printable_def byte_simps)
  have "strip_suffix [LF] (l @ [LF]) = Some l"
    by (simp add: strip_suffix_Some_iff)
  moreover have "strip_suffix [CR] l = None"
  proof (rule ccontr)
    assume "strip_suffix [CR] l \<noteq> None"
    then obtain t where "strip_suffix [CR] l = Some t"
      by blast
    then have "l = t @ [CR]"
      by (simp only: strip_suffix_Some_iff)
    with plain(2) show False
      by simp
  qed
  ultimately have "strip_line_end (l @ [LF]) = l"
    by (simp add: strip_line_end_def)
  moreover have "split_inclusive_lf (eprint_lines (l # ls)) = (l @ [LF]) # split_inclusive_lf (eprint_lines ls)"
    using split_inclusive_lf_line [OF plain(1)] by (simp add: eprint_lines_def)
  ultimately show ?case
    using Cons by (simp add: str_lines_def)
qed (simp add: str_lines_def eprint_lines_def)

lemma printable_lines:
  assumes "list_all printable_error ls" and "printable_texts tx"
  shows "list_all printable_text (map message_line ls)" and "printable_text (close_line tx e)"
proof -
  show "list_all printable_text (map message_line ls)"
    using assms(1) printable_parts(9,11) by (auto simp: list_all_iff message_line_def printable_error_def)
  show "printable_text (close_line tx e)"
    using printable_close_error [OF assms(2)]
    by (simp only: close_line_def list_all_append printable_parts simp_thms)
qed

lemma connection_lines_printable:
  assumes "printable_openssl ossl" and "printable_texts tx" and "handle_connection ossl env c = (r, c')"
  shows "list_all printable_text (connection_lines tx c r c')"
proof -
  obtain ls where ls: "k_log c' = k_log c @ ls" "list_all printable_error ls"
    using handle_connection_log [OF assms(1,3)] by blast
  with printable_lines [OF ls(2) assms(2)] show ?thesis
    by (auto simp: connection_lines_def split: sum.splits)
qed

section \<open>Properties\<close>

text \<open>C12: no client can forge a line of the log: in every state of the running daemon, whatever its clients
  sent and however their connections failed, the lines that the workers and the accepting thread write, in
  whatever order they reach standard error, are printable ASCII with the program's prefix, and cutting
  standard error into lines gives back exactly these lines. This relies on the error texts of OpenSSL and of the
  operating system being printable.\<close>

theorem clients_cannot_forge_log:
  assumes "load ossl (sys_read sys) path = Inr initial"
    and "sys_check_fips sys (cfg_require_fips initial) = Inr ()"
    and "(process_step ossl env path initial workers)\<^sup>*\<^sup>* (process_start d initial workers) s"
    and "printable_openssl ossl" and "printable_texts tx"
    and "set ls \<subseteq> insert queue_full_line
      (\<Union>x \<in> set (p_closed s). set (connection_lines tx (cl_accepted x) (cl_result x) (cl_left x)))"
  shows "str_lines (eprint_lines ls) = ls \<and> list_all (\<lambda>l. printable_text l \<and> prefix log_prefix l) ls"
proof -
  have "list_all (served_as ossl env (cfg_listen initial)) (p_closed s)"
    using process_inv_reachable [OF assms(3) admissible_start [OF assms(1,2)]] by (simp add: process_inv_def)
  then have "printable_text l" if "x \<in> set (p_closed s)" "l \<in> set (connection_lines tx (cl_accepted x) (cl_result x) (cl_left x))" for x l
    using that connection_lines_printable [OF assms(4,5)] by (fastforce simp: served_as_def list_all_iff)
  moreover have "printable_text queue_full_line"
    by code_simp
  ultimately have "list_all printable_text ls"
    using assms(6) by (auto simp: list_all_iff)
  moreover have "prefix log_prefix l" if "l \<in> set ls" for l
    using that assms(6)
    by (auto simp: connection_lines_def queue_full_line_def message_line_def close_line_def split: sum.splits)
  ultimately show ?thesis
    using str_lines_eprint by (simp add: list_all_iff)
qed

definition sample_texts :: texts where
  "sample_texts = \<lparr>io_text = (\<lambda>_. ''Connection reset by peer (os error 104)''), unicode_debug = (\<lambda>c. c)\<rparr>"

lemma sample_printable: "printable_openssl sample_openssl" "printable_texts sample_texts"
proof -
  show "printable_openssl sample_openssl"
    by (simp add: printable_openssl_def sample_openssl_def transcript_openssl_def)
  have "printable_text ''Connection reset by peer (os error 104)''"
    by code_simp
  then show "printable_texts sample_texts"
    by (simp add: printable_texts_def sample_texts_def)
qed

text \<open>A client that ends a message it has not begun and then sends a byte that is no command.\<close>

definition stray_conn :: conn where
  "stray_conn = \<lparr>k_reads = [Arrives (frame ''E'' @ frame [LF])], k_writes = [], k_sent = [], k_log = [], k_ticks = 0\<rparr>"

lemma stray_lines:
  "(case handle_connection sample_openssl (sample_environment\<lparr>active := configs\<rparr>) stray_conn of
      (r, c) \<Rightarrow> connection_lines sample_texts stray_conn r c) =
     [''dkim-lite: accepting message unsigned: end of message received before message start'',
      ''dkim-lite: milter connection closed: unsupported milter command 0x0a'']"
  by code_simp

lemma clients_cannot_forge_log_witness:
  "\<exists>(t :: (bytes, unit) process) x. p_closed t = [x] \<and> cl_accepted x = stray_conn \<and>
    str_lines (eprint_lines (connection_lines sample_texts stray_conn (cl_result x) (cl_left x))) =
     [''dkim-lite: accepting message unsigned: end of message received before message start'',
      ''dkim-lite: milter connection closed: unsupported milter command 0x0a'']"
proof -
  obtain t seen result left where t: "(process_step sample_openssl (\<lambda>_. sample_environment) ''/c'' sample_config 1)\<^sup>*\<^sup>*
      (process_start sample_dispositions sample_config 1) t"
    "p_closed t = [\<lparr>cl_accepted = stray_conn, cl_seen = seen, cl_result = result, cl_left = left\<rparr>]"
    using sample_process [of sample_dispositions stray_conn] by blast
  have "served_as sample_openssl (\<lambda>_. sample_environment) (cfg_listen sample_config)
      \<lparr>cl_accepted = stray_conn, cl_seen = seen, cl_result = result, cl_left = left\<rparr>"
    using process_inv_reachable [OF t(1) admissible_start [OF sample_daemon]] t(2) by (simp add: process_inv_def)
  then have "handle_connection sample_openssl (sample_environment\<lparr>active := reading seen\<rparr>) stray_conn = (result, left)"
    by (simp add: served_as_def)
  then have l: "connection_lines sample_texts stray_conn result left =
     [''dkim-lite: accepting message unsigned: end of message received before message start'',
      ''dkim-lite: milter connection closed: unsupported milter command 0x0a'']"
    using stray_lines [of "reading seen"] by simp
  have "str_lines (eprint_lines (connection_lines sample_texts stray_conn result left)) =
      connection_lines sample_texts stray_conn result left"
    using clients_cannot_forge_log [OF sample_daemon t(1) sample_printable,
        of "connection_lines sample_texts stray_conn result left"] t(2) by auto
  with l t(2) show ?thesis
    by (intro exI [of _ t] exI [of _ "\<lparr>cl_accepted = stray_conn, cl_seen = seen, cl_result = result, cl_left = left\<rparr>"]) simp
qed

end
