(* ===== verification/No_Panic.thy ===== *)
theory No_Panic
  imports Session "HOL-Library.Monad_Syntax"
begin

text \<open>
  The operations of src/dkim.rs and src/milter.rs on bytes of a client, with the places where Rust
  may panic left in: indexing (\<open>value[index]\<close>), slicing of \<open>&[u8]\<close> and of \<open>&str\<close>, where both ends must
  be character boundaries, subtraction of \<open>usize\<close> below zero, \<open>unwrap\<close> and \<open>unreachable!\<close>. A
  computation is an option, \<open>None\<close> the panic, and a sequence of steps panics with its first
  step that does; the loops run over an index as the code's loops do.

  The lemmas show that each of them returns, with the value of the definition the other theories
  use. So no packet, header field or body can make a worker thread panic there: a panic would
  take the worker with it, and \<open>serve\<close> would end with \<open>milter worker thread panicked\<close>.
  The length of a slice is at most \<open>isize::MAX\<close>, so that an index plus two does not overflow.
\<close>

section \<open>Operations that may panic\<close>

text \<open>\<open>v[i]\<close> and \<open>v.get(i)\<close>: the one panics where the other is \<open>None\<close>.\<close>

definition get_at :: "nat \<Rightarrow> 'a list \<Rightarrow> 'a option" where
  "get_at i v = (if i < length v then Some (v ! i) else None)"

definition slice :: "nat \<Rightarrow> nat \<Rightarrow> 'a list \<Rightarrow> 'a list option" where
  "slice a b v = (if a \<le> b \<and> b \<le> length v then Some (take (b - a) (drop a v)) else None)"

definition slice_to :: "nat \<Rightarrow> 'a list \<Rightarrow> 'a list option" where
  "slice_to b v = slice 0 b v"

definition slice_from :: "nat \<Rightarrow> 'a list \<Rightarrow> 'a list option" where
  "slice_from a v = slice a (length v) v"

definition char_boundary :: "nat \<Rightarrow> bytes \<Rightarrow> bool" where
  "char_boundary i s \<longleftrightarrow> i = 0 \<or> i = length s \<or> i < length s \<and> \<not> utf8_cont (s ! i)"

definition str_slice :: "nat \<Rightarrow> nat \<Rightarrow> bytes \<Rightarrow> bytes option" where
  "str_slice a b s = (if char_boundary a s \<and> char_boundary b s then slice a b s else None)"

definition sub_or_panic :: "nat \<Rightarrow> nat \<Rightarrow> nat option" where
  "sub_or_panic a b = (if b \<le> a then Some (a - b) else None)"

lemma slice_append [simp]: "slice (length p) (length p + length q) (p @ q @ r) = Some q"
  by (simp add: slice_def)

lemma slice_to_Some [simp]: "n \<le> length v \<Longrightarrow> slice_to n v = Some (take n v)"
  by (simp add: slice_to_def slice_def)

lemma slice_from_Some [simp]: "n \<le> length v \<Longrightarrow> slice_from n v = Some (drop n v)"
  by (simp add: slice_from_def slice_def)

lemma get_at_Some [simp]: "i < length v \<Longrightarrow> get_at i v = Some (v ! i)"
  by (simp add: get_at_def)

lemma get_at_after: "get_at (i + k) v = get_at k (drop i v)"
  by (auto simp: get_at_def)

lemma get_at_Cons [simp]: "get_at 0 (b # v) = Some b" "get_at (Suc k) (b # v) = get_at k v"
  by (simp_all add: get_at_def)

lemma get_at_Nil [simp]: "get_at k [] = None"
  by (simp add: get_at_def)

lemma rest_after:
  assumes "drop i v = b # rest"
  shows "get_at i v = Some b" and "get_at (i + 1) v = get_at 0 rest" and "get_at (i + 2) v = get_at 1 rest"
    and "drop (i + 1) v = rest" and "drop (i + 2) v = tl rest"
proof -
  show "get_at i v = Some b" "get_at (i + 1) v = get_at 0 rest" "get_at (i + 2) v = get_at 1 rest"
    using get_at_after [of i 0 v] get_at_after [of i 1 v] get_at_after [of i 2 v] assms
    by (simp_all add: numeral_2_eq_2)
  show rest: "drop (i + 1) v = rest"
    using tl_drop [of i v] assms by (simp add: drop_Suc)
  show "drop (i + 2) v = tl rest"
    using tl_drop [of "i + 1" v] rest by (simp add: drop_Suc)
qed

lemma slice_from_shorter: "slice_from n v = Some w \<Longrightarrow> length w = length v - n \<and> n \<le> length v"
  by (auto simp: slice_from_def slice_def split: if_splits)

section \<open>Character boundaries\<close>

text \<open>In UTF-8 a continuation byte never follows an ASCII byte, and that is inherited by every
  part of a text.\<close>

definition chars_apart :: "bytes \<Rightarrow> bool" where
  "chars_apart = successively (\<lambda>b c. is_ascii b \<longrightarrow> \<not> utf8_cont c)"

lemma utf8_valid_hd: "utf8_valid (b # s) \<Longrightarrow> \<not> utf8_cont b"
  by (auto simp: byte_in_def is_ascii_def split: if_splits)

lemma byte_in_not_ascii: "byte_in lo hi b \<Longrightarrow> 0x80 \<le> lo \<Longrightarrow> \<not> is_ascii b"
  by (simp add: byte_in_def is_ascii_def)

lemma chars_apart_Nil [simp]: "chars_apart []"
  by (simp add: chars_apart_def)

lemma chars_apart_Cons:
  "chars_apart (b # s) \<longleftrightarrow> s = [] \<or> (is_ascii b \<longrightarrow> \<not> utf8_cont (hd s)) \<and> chars_apart s"
  by (simp add: chars_apart_def successively_Cons)

lemma chars_apart_skip: "\<not> is_ascii b \<Longrightarrow> chars_apart s \<Longrightarrow> chars_apart (b # s)"
  by (simp add: chars_apart_Cons)

lemma utf8_chars_apart: "utf8_valid s \<Longrightarrow> chars_apart s"
proof (induction s rule: utf8_valid.induct)
  case (2 a s)
  show ?case
  proof (cases "is_ascii a")
    case True
    then have "utf8_valid s"
      using "2.prems" by simp
    with True show ?thesis
      using "2.IH"(1) utf8_valid_hd [of "hd s" "tl s"] by (cases "s = []") (simp_all add: chars_apart_Cons)
  next
    case False
    then show ?thesis
      using 2
      by (auto split: if_splits list.splits intro!: chars_apart_skip dest: byte_in_not_ascii)
  qed
qed simp

lemma chars_apart_append: "chars_apart (s @ t) \<Longrightarrow> chars_apart s \<and> chars_apart t"
  by (simp add: chars_apart_def successively_append_iff)

lemma chars_apart_trim: "chars_apart s \<Longrightarrow> chars_apart (trim s)"
  using chars_apart_append by (metis trim_removes)

lemma boundary_at_ascii [simp]: "is_ascii b \<Longrightarrow> char_boundary (length s) (s @ b # t)"
  by (auto simp: char_boundary_def byte_in_def is_ascii_def)

lemma boundary_after_ascii:
  assumes "chars_apart (s @ b # t)" and "is_ascii b"
  shows "char_boundary (Suc (length s)) (s @ b # t)"
  using chars_apart_append [OF assms(1)] assms(2)
  by (cases t) (auto simp: char_boundary_def chars_apart_Cons nth_append)

lemma boundary_ends [simp]: "char_boundary 0 s" "char_boundary (length s) s"
  by (simp_all add: char_boundary_def)

section \<open>The operations\<close>

text \<open>The loop of \<open>BodyCanonicalizer::update\<close>: \<open>data\<close> is never indexed when it is empty, and the
  last arm of the match is not reached.\<close>

function update_checked ::
  "('h, 'k, 's) openssl \<Rightarrow> 'h body_canonicalizer \<Rightarrow> bytes \<Rightarrow> 'h body_canonicalizer option" where
  "update_checked ossl c data =
     (if data = [] then Some c
      else do {
        first \<leftarrow> get_at 0 data;
        let c' = (if saw_cr c then end_line ossl (c\<lparr>saw_cr := False\<rparr>) else c);
        if saw_cr c \<and> first = LF then do {
          rest \<leftarrow> slice_from 1 data;
          update_checked ossl c' rest
        } else do {
          let ordinary = position_or_len is_special data;
          if 0 < ordinary then do {
            content \<leftarrow> slice_to ordinary data;
            rest \<leftarrow> slice_from ordinary data;
            update_checked ossl (emit_content ossl content c') rest
          } else if first = CR then do {
            rest \<leftarrow> slice_from 1 data;
            update_checked ossl (c'\<lparr>saw_cr := True\<rparr>) rest
          } else if first = LF then do {
            rest \<leftarrow> slice_from 1 data;
            update_checked ossl (end_line ossl c') rest
          } else if is_wsp first then do {
            rest \<leftarrow> slice_from (position_or_len (\<lambda>x. \<not> is_wsp x) data) data;
            update_checked ossl (c'\<lparr>pending_wsp := True\<rparr>) rest
          } else None
        }
      })"
  by pat_completeness auto
termination
  by (relation "measure (\<lambda>(ossl, c, data). length data)")
    (auto simp: get_at_def hd_conv_nth position_or_len_pos_iff dest!: slice_from_shorter)

declare update_checked.simps [simp del]

text \<open>The loop of \<open>canonicalize_header\<close>.\<close>

function canonicalize_checked :: "bytes \<Rightarrow> nat \<Rightarrow> bytes \<Rightarrow> bool \<Rightarrow> nat \<Rightarrow> bytes option" where
  "canonicalize_checked v value_start out pending index =
     (if index < length v then do {
        b \<leftarrow> get_at index v;
        if b = SP \<or> b = TAB then canonicalize_checked v value_start out True (index + 1)
        else if b = CR \<and> get_at (index + 1) v = Some LF
        then canonicalize_checked v value_start out True (index + 2)
        else if b = CR \<or> b = LF then canonicalize_checked v value_start out True (index + 1)
        else canonicalize_checked v value_start
          (out @ (if pending \<and> value_start < length out then [SP] else []) @ [b]) False (index + 1)
      } else Some out)"
  by pat_completeness auto
termination
  by (relation "measure (\<lambda>(v, value_start, out, pending, index). length v - index)") auto

declare canonicalize_checked.simps [simp del]

definition canonicalize_header_checked :: "bytes \<Rightarrow> bytes \<Rightarrow> bytes option" where
  "canonicalize_header_checked name v =
     (let out = lowercase name @ '':''
      in do { out \<leftarrow> canonicalize_checked v (length out) out False 0; Some (out @ CRLF) })"

definition canonicalize_signature_header_checked :: "bytes \<Rightarrow> bytes option" where
  "canonicalize_signature_header_checked v = do {
     canonical \<leftarrow> canonicalize_header_checked ''DKIM-Signature'' v;
     n \<leftarrow> sub_or_panic (length canonical) 2;
     Some (take n canonical)
   }"

text \<open>\<open>from_domain\<close>: \<open>Some None\<close> is its \<open>None\<close>, the rejection of the field.\<close>

function unfold_checked :: "bytes \<Rightarrow> nat \<Rightarrow> bytes \<Rightarrow> bytes option option" where
  "unfold_checked v index unfolded =
     (if index < length v then do {
        b \<leftarrow> get_at index v;
        if b = CR then
          if get_at (index + 1) v \<noteq> Some LF \<or> get_at (index + 2) v \<notin> {Some SP, Some TAB} then Some None
          else unfold_checked v (index + 2) unfolded
        else if is_ascii_control b \<and> b \<noteq> TAB then Some None
        else unfold_checked v (index + 1) (unfolded @ [b])
      } else Some (Some unfolded))"
  by pat_completeness auto
termination
  by (relation "measure (\<lambda>(v, index, unfolded). length v - index)") auto

declare unfold_checked.simps [simp del]

fun strip_comments_checked :: "bool \<Rightarrow> bool \<Rightarrow> nat \<Rightarrow> bytes \<Rightarrow> bytes \<Rightarrow> bytes option option" where
  "strip_comments_checked quoted escaped depth mailbox [] =
     Some (if quoted \<or> escaped \<or> depth \<noteq> 0 then None else Some mailbox)"
| "strip_comments_checked quoted escaped depth mailbox (b # rest) =
     (if escaped
      then strip_comments_checked quoted False depth (if depth = 0 then mailbox @ [b] else mailbox) rest
      else if 0 < depth then
        (if b = BACKSLASH then strip_comments_checked quoted True depth mailbox rest
         else if b = CHR ''('' then
           (case checked_add depth 1 of None \<Rightarrow> Some None
            | Some depth' \<Rightarrow> strip_comments_checked quoted escaped depth' mailbox rest)
         else if b = CHR '')'' then do {
           depth' \<leftarrow> sub_or_panic depth 1;
           strip_comments_checked quoted escaped depth' mailbox rest
         }
         else strip_comments_checked quoted escaped depth mailbox rest)
      else if quoted then
        (if b = BACKSLASH then strip_comments_checked quoted True depth (mailbox @ [b]) rest
         else if b = DQUOTE then strip_comments_checked False escaped depth (mailbox @ [b]) rest
         else strip_comments_checked quoted escaped depth (mailbox @ [b]) rest)
      else
        (if b = CHR ''('' then strip_comments_checked quoted escaped 1 (mailbox @ [SP]) rest
         else if b = CHR '')'' then Some None
         else if b = DQUOTE then strip_comments_checked True escaped depth (mailbox @ [b]) rest
         else strip_comments_checked quoted escaped depth (mailbox @ [b]) rest))"

definition find_address_checked :: "bytes \<Rightarrow> ((bool \<times> bool) \<times> bytes) option option" where
  "find_address_checked text =
     (case find_angles False False None None 0 text of
        None \<Rightarrow> Some None
      | Some (flags, Some start, Some end') \<Rightarrow> do {
          phrase \<leftarrow> slice_to start text;
          if \<not> display_name phrase then Some None
          else do {
            rest \<leftarrow> str_slice (end' + 1) (length text) text;
            if trim rest \<noteq> [] then Some None
            else do {
              address \<leftarrow> str_slice (start + 1) end' text;
              Some (Some (flags, trim address))
            }
          }
        }
      | Some (flags, None, None) \<Rightarrow> Some (Some (flags, text))
      | Some _ \<Rightarrow> Some None)"

text \<open>\<open>index == value.len() - 1\<close> in the quoted branch of \<open>local_part\<close>; \<open>n\<close> is \<open>value.len()\<close>.\<close>

fun quoted_local_checked :: "nat \<Rightarrow> bool \<Rightarrow> nat \<Rightarrow> bytes \<Rightarrow> bool option" where
  "quoted_local_checked n escaped index [] = Some False"
| "quoted_local_checked n escaped index (b # rest) =
     (if is_ascii_control b \<and> b \<noteq> TAB then Some False
      else if escaped then quoted_local_checked n False (index + 1) rest
      else if b = BACKSLASH then quoted_local_checked n True (index + 1) rest
      else if b = DQUOTE then do { l \<leftarrow> sub_or_panic n 1; Some (index = l) }
      else quoted_local_checked n escaped (index + 1) rest)"

definition local_part_checked :: "bytes \<Rightarrow> bool option" where
  "local_part_checked v =
     (if get_at 0 v = Some DQUOTE then quoted_local_checked (length v) False 1 (tl v)
      else Some (v \<noteq> [] \<and> list_all (\<lambda>part. part \<noteq> [] \<and> list_all atom_byte part) (split_on CHR ''.'' v)))"

definition address_domain_checked :: "bool \<times> bool \<Rightarrow> bytes \<Rightarrow> bytes option option" where
  "address_domain_checked flags address =
     (case find_separator (fst flags) (snd flags) None 0 address of
        None \<Rightarrow> Some None
      | Some None \<Rightarrow> Some None
      | Some (Some separator) \<Rightarrow> do {
          before \<leftarrow> str_slice 0 separator address;
          after \<leftarrow> str_slice (separator + 1) (length address) address;
          let domain = trim_end_matches CHR ''.'' (trim after);
          valid \<leftarrow> local_part_checked (trim before);
          Some (if \<not> valid \<or> domain = [] \<or> \<not> list_all domain_byte domain then None
                else Some (lowercase domain))
        })"

definition from_domain_checked :: "bytes \<Rightarrow> bytes option option" where
  "from_domain_checked v = do {
     unfolded \<leftarrow> unfold_checked v 0 [];
     case unfolded of None \<Rightarrow> Some None
     | Some unfolded \<Rightarrow> do {
         mailbox \<leftarrow> strip_comments_checked False False 0 [] unfolded;
         case mailbox of None \<Rightarrow> Some None
         | Some mailbox \<Rightarrow>
             if \<not> utf8_valid mailbox then Some None
             else do {
               address \<leftarrow> find_address_checked (trim mailbox);
               case address of None \<Rightarrow> Some None
               | Some (flags, address) \<Rightarrow> address_domain_checked flags address
             }
       }
   }"

text \<open>The \<open>O\<close> arm of \<open>handle_connection\<close>: \<open>Some None\<close> is the error for a wrong length.\<close>

definition u32_checked :: "bytes \<Rightarrow> u32 option" where
  "u32_checked bs = (if length bs = 4 then Some (from_be_bytes bs) else None)"

definition negotiate_checked :: "bytes \<Rightarrow> ('h, 'k) session \<Rightarrow> (bytes \<times> ('h, 'k) session) option option" where
  "negotiate_checked payload s =
     (if length payload \<noteq> 12 then Some None
      else do {
        v \<leftarrow> slice 0 4 payload;
        v \<leftarrow> u32_checked v;
        let version = min v 6;
        a \<leftarrow> slice 4 8 payload;
        offered \<leftarrow> u32_checked a;
        let actions = offered AND (ACTION_ADD_HEADER OR ACTION_CHANGE_HEADER);
        p \<leftarrow> slice 8 12 payload;
        offered_protocol \<leftarrow> u32_checked p;
        let protocol = (if 6 \<le> version then offered_protocol AND SUPPORTED_NO_REPLY else 0);
        Some (Some (to_be_bytes version @ to_be_bytes actions @ to_be_bytes protocol,
          s\<lparr>s_actions := actions, s_protocol := protocol\<rparr>))
      })"

definition receive_header_checked ::
  "bytes \<Rightarrow> ('h, 'k) message_state \<Rightarrow> ('h, 'k) message_state option" where
  "receive_header_checked payload st =
     (if ms_error st \<noteq> None then Some st
      else
        let separator = position_or_len (\<lambda>b. b = NUL) payload
        in if separator = length payload then Some (ms_fail Malformed_Header_Packet st)
        else do {
          name \<leftarrow> slice_to separator payload;
          value_with_nul \<leftarrow> slice_from (separator + 1) payload;
          case strip_suffix [NUL] value_with_nul of
            None \<Rightarrow> Some (ms_fail Malformed_Header_Value st)
          | Some v \<Rightarrow>
              if NUL \<in> set v then Some (ms_fail Malformed_Header_Value st) else
              let st = st\<lparr>ms_header_bytes := saturating_add (ms_header_bytes st) (length name + length v)\<rparr>
              in if MAX_HEADERS \<le> length (ms_headers st) \<or> MAX_HEADER_BYTES < ms_header_bytes st
                 then Some (ms_fail Header_Limit_Exceeded st)
                 else (case header_new name v of
                     Inr header \<Rightarrow> Some (st\<lparr>ms_headers := ms_headers st @ [header]\<rparr>)
                   | Inl _ \<Rightarrow> Some (ms_fail Invalid_Header st))
        })"

section \<open>None of them panics\<close>

lemma update_checked_returns: "update_checked ossl c data = Some (body_update ossl c data)"
proof (induction ossl c data rule: body_update.induct)
  case (2 ossl c b rest)
  let ?c = "if saw_cr c then end_line ossl (c\<lparr>saw_cr := False\<rparr>) else c"
  let ?ordinary = "position_or_len is_special (b # rest)"
  have lengths: "?ordinary \<le> length (b # rest)" "position_or_len (\<lambda>x. \<not> is_wsp x) (b # rest) \<le> length (b # rest)"
    by (simp_all only: position_or_len_def length_takeWhile_le)
  have wsp: "is_wsp b" if "\<not> 0 < ?ordinary" "b \<noteq> CR" "b \<noteq> LF"
    using that by (simp add: position_or_len_pos_iff is_special_def is_wsp_def)
  have one: "slice_from 1 (b # rest) = Some rest"
    by simp
  show ?case
    unfolding update_checked.simps [of ossl c "b # rest"] body_update.simps(2) Let_def
    using 2 [OF refl refl] lengths wsp one
    by (simp del: drop_position_or_len take_position_or_len)
qed (simp add: update_checked.simps)

lemma canonicalize_checked_returns:
  "canonicalize_checked v value_start out pending index =
     Some (canonicalize_loop value_start out pending (drop index v))"
proof (induction v value_start out pending index rule: canonicalize_checked.induct)
  case (1 v value_start out pending index)
  show ?case
  proof (cases "index < length v")
    case True
    then obtain b rest where split: "drop index v = b # rest"
      by (metis Cons_nth_drop_Suc)
    moreover have "get_at 0 rest = Some LF \<longleftrightarrow> rest \<noteq> [] \<and> hd rest = LF"
      by (cases rest) simp_all
    ultimately show ?thesis
      using 1 True rest_after [OF split] by (simp add: canonicalize_checked.simps [of v _ _ _ index])
  qed (simp add: canonicalize_checked.simps)
qed

lemma canonicalize_header_checked_returns:
  "canonicalize_header_checked name v = Some (canonicalize_header name v)"
  by (simp add: canonicalize_header_checked_def canonicalize_header_def canonicalize_checked_returns)

lemma canonicalize_signature_header_checked_returns:
  "canonicalize_signature_header_checked v = Some (canonicalize_signature_header v)"
proof -
  have "2 \<le> length (canonicalize_header ''DKIM-Signature'' v)"
    by (simp add: canonicalize_header_def Let_def)
  then show ?thesis
    by (simp add: canonicalize_signature_header_checked_def canonicalize_signature_header_def
        canonicalize_header_checked_returns sub_or_panic_def Let_def)
qed

lemma unfold_checked_returns:
  "unfold_checked v index unfolded =
     Some (map_option (\<lambda>u. unfolded @ u) (unfold_value (drop index v)))"
proof (induction v index unfolded rule: unfold_checked.induct)
  case (1 v index unfolded)
  show ?case
  proof (cases "index < length v")
    case True
    then obtain b rest where split: "drop index v = b # rest"
      by (metis Cons_nth_drop_Suc)
    with 1 True rest_after [OF split] show ?thesis
      by (cases rest rule: remdups_adj.cases)
        (auto simp: unfold_checked.simps [of v index] is_wsp_def option.map_comp comp_def)
  qed (simp add: unfold_checked.simps)
qed

lemma strip_comments_checked_returns:
  "strip_comments_checked quoted escaped depth mailbox s = Some (strip_comments quoted escaped depth mailbox s)"
proof (induction quoted escaped depth mailbox s rule: strip_comments.induct)
  case (2 quoted escaped depth mailbox b rest)
  then show ?case
    by (cases "depth = 0") (simp_all add: sub_or_panic_def if_distrib [of Some]
        option.case_distrib [of Some] cong: if_cong option.case_cong split del: if_split)
qed simp

lemma structural_ascii: "is_ascii CHR ''<''" "is_ascii CHR ''>''" "is_ascii CHR ''@''"
  by (simp_all add: byte_simps)

text \<open>The brackets found are ASCII bytes: what follows one begins with a character.\<close>

lemma find_address_checked_returns:
  assumes "chars_apart s"
  shows "find_address_checked s = Some (find_address s)"
proof (cases "find_angles False False None None 0 s")
  case (Some r)
  obtain flags start end' where r: "r = (flags, start, end')"
    by (cases r)
  with Some have "find_angles False False None None 0 s = Some (flags, start, end')"
    by simp
  then show ?thesis
  proof (cases rule: find_angles_split)
    case (angle pre mid post)
    let ?i = "length pre" and ?j = "Suc (length pre + length mid)"
    have "char_boundary (Suc ?i) s" "char_boundary ?j s" "char_boundary (Suc ?j) s"
      using boundary_after_ascii [of pre "CHR ''<''" "mid @ CHR ''>'' # post"]
        boundary_at_ascii [of "CHR ''>''" "pre @ CHR ''<'' # mid" post]
        boundary_after_ascii [of "pre @ CHR ''<'' # mid" "CHR ''>''" post]
        assms angle(1) structural_ascii by simp_all
    moreover have "Suc ?j \<le> length s"
      using angle(1) by simp
    ultimately show ?thesis
      using Some r angle(2,3)
      by (simp add: find_address_checked_def find_address_def str_slice_def slice_def)
  qed (use Some r in \<open>simp_all add: find_address_checked_def find_address_def\<close>)
qed (simp add: find_address_checked_def find_address_def)

lemma quoted_local_checked_returns:
  "0 < index \<Longrightarrow> quoted_local_checked (index + length s) escaped index s = Some (quoted_local escaped s)"
proof (induction s arbitrary: escaped index)
  case (Cons b s)
  show ?case
    using Cons.IH [of "Suc index"] by (auto simp: sub_or_panic_def)
qed simp

lemma local_part_checked_returns: "local_part_checked v = Some (local_part v)"
  using quoted_local_checked_returns [of 1 "tl v" False]
  by (cases v) (simp_all add: local_part_checked_def local_part_def)

lemma address_domain_checked_returns:
  assumes "chars_apart address"
  shows "address_domain_checked flags address = Some (address_domain flags address)"
proof (cases "find_separator (fst flags) (snd flags) None 0 address")
  case (Some separator)
  show ?thesis
  proof (cases separator)
    case (Some i)
    with \<open>find_separator _ _ _ _ _ = _\<close> obtain a b where ab: "address = a @ CHR ''@'' # b" "i = length a"
      using find_separator_split [of "fst flags" "snd flags" address i] by blast
    have "char_boundary i address" "char_boundary (Suc i) address" "Suc i \<le> length address"
      using ab assms boundary_at_ascii [of "CHR ''@''" a b] boundary_after_ascii [of a "CHR ''@''" b]
        structural_ascii by simp_all
    then show ?thesis
      using Some \<open>find_separator _ _ _ _ _ = _\<close>
      by (simp add: address_domain_checked_def address_domain_def str_slice_def slice_def
          local_part_checked_returns Let_def)
  qed (use Some in \<open>simp add: address_domain_checked_def address_domain_def\<close>)
qed (simp add: address_domain_checked_def address_domain_def)

lemma find_address_chars_apart:
  assumes "find_address s = Some (flags, address)" and "chars_apart s"
  shows "chars_apart address"
  using find_address_Some [OF assms(1)]
proof (elim disjE exE conjE)
  fix pre mid post
  assume s: "s = pre @ CHR ''<'' # mid @ CHR ''>'' # post" and "address = trim mid"
  have "chars_apart (CHR ''<'' # mid @ CHR ''>'' # post)"
    using assms(2) s chars_apart_append by blast
  then have "chars_apart (mid @ CHR ''>'' # post)"
    by (auto simp only: chars_apart_Cons append_is_Nil_conv list.distinct)
  then have "chars_apart mid"
    using chars_apart_append by blast
  with \<open>address = trim mid\<close> show ?thesis
    by (simp only: chars_apart_trim)
qed (use assms in simp)

lemma address_checked_returns:
  assumes "chars_apart s"
  shows "(case find_address s of None \<Rightarrow> Some None
      | Some (flags, address) \<Rightarrow> address_domain_checked flags address) =
    Some (case find_address s of None \<Rightarrow> None | Some (flags, address) \<Rightarrow> address_domain flags address)"
  using find_address_chars_apart [OF _ assms] address_domain_checked_returns
  by (cases "find_address s") auto

lemma from_domain_checked_returns: "from_domain_checked v = Some (from_domain v)"
proof (cases "unfold_value v")
  case (Some u)
  show ?thesis
  proof (cases "strip_comments False False 0 [] u")
    case (Some m)
    show ?thesis
    proof (cases "utf8_valid m")
      case True
      then have "chars_apart (trim m)"
        by (intro chars_apart_trim utf8_chars_apart)
      with True Some \<open>unfold_value v = Some u\<close> show ?thesis
        by (simp add: from_domain_checked_def from_domain_def mailbox_text_def unfold_checked_returns
            strip_comments_checked_returns find_address_checked_returns address_checked_returns)
    qed (use Some \<open>unfold_value v = Some u\<close> in \<open>simp add: from_domain_checked_def from_domain_def
        mailbox_text_def unfold_checked_returns strip_comments_checked_returns\<close>)
  qed (use Some in \<open>simp add: from_domain_checked_def from_domain_def mailbox_text_def
      unfold_checked_returns strip_comments_checked_returns\<close>)
qed (simp add: from_domain_checked_def from_domain_def mailbox_text_def unfold_checked_returns)

lemma negotiate_checked_returns:
  "negotiate_checked payload s = Some (if length payload \<noteq> 12 then None else Some (negotiate payload s))"
  by (simp add: negotiate_checked_def negotiate_def u32_checked_def slice_def Let_def)

lemma receive_header_checked_returns: "receive_header_checked payload st = Some (receive_header payload st)"
proof (cases "NUL \<in> set payload")
  case True
  then obtain a b where ab: "payload = a @ NUL # b" "NUL \<notin> set a"
    by (meson split_list_first)
  then have "\<forall>c \<in> set a. c \<noteq> NUL"
    by blast
  with ab(1) have "position_or_len (\<lambda>b. b = NUL) payload = length a"
    by (simp add: position_or_len_def)
  moreover have "split_once NUL payload = Some (a, b)"
    using ab by (simp add: split_once_Some_iff)
  ultimately show ?thesis
    using ab(1) by (simp add: receive_header_checked_def receive_header_def Let_def split: option.split sum.split)
next
  case False
  then have "position_or_len (\<lambda>b. b = NUL) payload = length payload" "split_once NUL payload = None"
    by (auto simp: position_or_len_def split_once_def
        intro!: arg_cong [of _ _ length] takeWhile_eq_all_conv [THEN iffD2])
  then show ?thesis
    by (simp add: receive_header_checked_def receive_header_def Let_def)
qed

text \<open>C13: No client can make a worker panic with what it sends: the negotiation, the header and
  the body packets, the canonicalisation of header fields and the reading of the From field index,
  slice and subtract within bounds, and cut the text of the From field at character boundaries
  only, for all bytes. Each returns the value that the other theories reason about.\<close>

theorem client_bytes_never_panic:
  "negotiate_checked payload s = Some (if length payload \<noteq> 12 then None else Some (negotiate payload s)) \<and>
   receive_header_checked payload st = Some (receive_header payload st) \<and>
   update_checked ossl c payload = Some (body_update ossl c payload) \<and>
   canonicalize_header_checked name v = Some (canonicalize_header name v) \<and>
   canonicalize_signature_header_checked v = Some (canonicalize_signature_header v) \<and>
   from_domain_checked v = Some (from_domain v)"
  by (simp only: negotiate_checked_returns receive_header_checked_returns update_checked_returns
      canonicalize_header_checked_returns canonicalize_signature_header_checked_returns
      from_domain_checked_returns)

end
