(* ===== verification/Tests_Dkim.thy ===== *)
theory Tests_Dkim
  imports Keygen Frame
begin

text \<open>
  The unit tests of src/dkim.rs and the fuzz targets for it, as executable predicates over the
  model: every test of the module passes on the definitions of the theories Body, Header,
  From_Domain and Sign. Tests that compare digests take the digest as an argument and hold for
  every digest with the incremental law; the test over all splits of long inputs
  is a consequence of the equivalence with the reference routine.
\<close>

section \<open>Helpers of the test module\<close>

definition test_body :: "('h, 'k, 's) openssl \<Rightarrow> bytes list \<Rightarrow> bytes" where
  "test_body ossl parts =
     encode_block ossl (body_finish ossl (foldl (body_update ossl) (body_default ossl) parts))"

definition optimized_body :: "('h, 'k, 's) openssl \<Rightarrow> bytes list \<Rightarrow> bytes" where
  "optimized_body ossl parts = body_finish ossl (foldl (body_update ossl) (body_default ossl) parts)"

section \<open>Header canonicalisation\<close>

definition test_relaxed_header_preserves_whitespace_after_value_colons :: bool where
  "test_relaxed_header_preserves_whitespace_after_value_colons \<longleftrightarrow>
     canonicalize_header ''Subject'' (''  Re: '' @ [TAB] @ '' hello: world  '') =
       ''subject:Re: hello: world'' @ CRLF \<and>
     canonicalize_header ''Subject'' (''Re:'' @ CRLF @ [TAB] @ '' hello'') = ''subject:Re: hello'' @ CRLF"

lemma relaxed_header_preserves_whitespace_after_value_colons:
  "test_relaxed_header_preserves_whitespace_after_value_colons"
  by code_simp

definition test_relaxed_header :: bool where
  "test_relaxed_header \<longleftrightarrow>
     canonicalize_header ''SUBJect'' (''  hello'' @ CRLF @ [TAB] @ ''world  '') =
       ''subject:hello world'' @ CRLF"

lemma relaxed_header_passes: "test_relaxed_header"
  by code_simp

section \<open>The From domain\<close>

definition accepted_from_values :: "bytes list" where
  "accepted_from_values =
     [''alice@EXAMPLE.COM.'',
      ''Alice (team) <alice@Example.COM>'',
      ''alice (team) @ example.com'',
      [DQUOTE] @ ''folded'' @ CRLF @ [SP, TAB] @ ''local'' @ [DQUOTE] @ ''@example.com'',
      [DQUOTE] @ ''display <fake@other.test>'' @ [DQUOTE] @ '' <alice@example.com>'',
      ''Alice (outer (nested) note <fake@other.test>) <alice@example.com>'',
      ''Alice (escaped '' @ [BACKSLASH] @ '') <fake@other.test>) <alice@example.com>'',
      [DQUOTE] @ ''a'' @ [BACKSLASH, DQUOTE] @ ''b@local'' @ [DQUOTE] @ ''@Example.COM.'']"

definition test_from_parser_ignores_quoted_and_commented_punctuation :: bool where
  "test_from_parser_ignores_quoted_and_commented_punctuation \<longleftrightarrow>
     list_all (\<lambda>v. from_domain v = Some ''example.com'') accepted_from_values \<and>
     from_domain ''attacker@other.test (note <user@example.com>)'' = Some ''other.test''"

lemma from_parser_ignores_quoted_and_commented_punctuation:
  "test_from_parser_ignores_quoted_and_commented_punctuation"
  by code_simp

definition test_from_parser_rejects_extra_mailboxes_and_unbalanced_syntax :: bool where
  "test_from_parser_rejects_extra_mailboxes_and_unbalanced_syntax \<longleftrightarrow>
     list_all (\<lambda>v. from_domain v = None)
       [''a@example.com, b@example.com'',
        ''a@example.com <b@example.com>'',
        ''<a@example.com> <b@example.com>'',
        ''<a@example.com> b@example.com'',
        ''<a@example.com,b@example.com>'',
        ''a@example.com b@example.com'',
        ''<a@example.com>>'',
        ''<<a@example.com>'',
        ''a@example.com>'',
        ''<a@example.com'',
        ''a@example.com (unfinished'',
        ''a@example.com )'',
        [DQUOTE] @ ''unfinished <a@example.com>'',
        [DQUOTE] @ ''quoted'' @ [DQUOTE] @ '' extra@example.com'',
        ''a@@example.com'',
        ''@example.com'',
        ''a..b@example.com'',
        [DQUOTE] @ ''bad'' @ CRLF @ ''local'' @ [DQUOTE] @ ''@example.com'',
        [DQUOTE] @ ''bad'' @ [LF] @ '' local'' @ [DQUOTE] @ ''@example.com'']"

lemma from_parser_rejects_extra_mailboxes_and_unbalanced_syntax:
  "test_from_parser_rejects_extra_mailboxes_and_unbalanced_syntax"
  by code_simp

definition test_parses_single_from_domain :: bool where
  "test_parses_single_from_domain \<longleftrightarrow>
     from_domain ''Alice (team) <alice@Example.COM>'' = Some ''example.com'' \<and>
     from_domain ''a@example.com, b@example.com'' = None"

lemma parses_single_from_domain: "test_parses_single_from_domain"
  by code_simp

section \<open>The body hash\<close>

text \<open>What the helpers compute, for every digest with the incremental law.\<close>

definition digest :: "('h, 'k, 's) openssl \<Rightarrow> bytes \<Rightarrow> bytes" where
  "digest ossl m = sha_finish ossl (sha_update ossl (sha_new ossl) m)"

lemma optimized_body_relaxed:
  assumes "stream_consumer (sha_update ossl)" and "length (concat parts) < usize_max"
  shows "optimized_body ossl parts = digest ossl (relaxed_body (concat parts))"
  using assms body_hashing.body_finish_chunks [OF body_hashing.intro]
  by (simp add: optimized_body_def digest_def)

lemma test_body_relaxed:
  assumes "stream_consumer (sha_update ossl)" and "length (concat parts) < usize_max"
  shows "test_body ossl parts = encode_block ossl (digest ossl (relaxed_body (concat parts)))"
  using optimized_body_relaxed [OF assms] by (simp add: test_body_def optimized_body_def)

lemma optimized_body_reference:
  assumes "stream_consumer (sha_update ossl)"
  shows "optimized_body ossl parts = reference_body ossl (concat parts)"
  using assms body_hashing.reference_chunks [OF body_hashing.intro]
  by (simp add: optimized_body_def)

text \<open>The bodies of the tests are short.\<close>

lemma below_usize_max: "n < 2 ^ 32 \<Longrightarrow> n < usize_max"
  by (simp add: usize_max_def)

definition test_rfc6376_relaxed_canonicalization_examples :: "('h, 'k, 's) openssl \<Rightarrow> bool" where
  "test_rfc6376_relaxed_canonicalization_examples ossl \<longleftrightarrow>
     canonicalize_header ''A'' ('' X'' @ CRLF @ '' Y'' @ [TAB] @ ''Z  '') = ''a:X Y Z'' @ CRLF \<and>
     test_body ossl ['' C '' @ CRLF @ ''D '' @ [TAB] @ '' E'' @ CRLF @ CRLF] =
       test_body ossl ['' C'' @ CRLF @ ''D E'' @ CRLF]"

lemma rfc6376_relaxed_canonicalization_examples:
  assumes "stream_consumer (sha_update ossl)"
  shows "test_rfc6376_relaxed_canonicalization_examples ossl"
proof -
  have "canonicalize_header ''A'' ('' X'' @ CRLF @ '' Y'' @ [TAB] @ ''Z  '') = ''a:X Y Z'' @ CRLF"
    by code_simp
  moreover have "relaxed_body ('' C '' @ CRLF @ ''D '' @ [TAB] @ '' E'' @ CRLF @ CRLF) =
      relaxed_body ('' C'' @ CRLF @ ''D E'' @ CRLF)"
    by code_simp
  ultimately show ?thesis
    by (simp add: test_rfc6376_relaxed_canonicalization_examples_def test_body_relaxed [OF assms]
        usize_max_def)
qed

definition test_body_accepts_non_utf8_bytes :: "('h, 'k, 's) openssl \<Rightarrow> bool" where
  "test_body_accepts_non_utf8_bytes ossl \<longleftrightarrow>
     test_body ossl [[CHR 0xFF, SP, LF]] = test_body ossl [[CHR 0xFF, CR, LF]]"

lemma body_accepts_non_utf8_bytes:
  assumes "stream_consumer (sha_update ossl)"
  shows "test_body_accepts_non_utf8_bytes ossl"
proof -
  have "relaxed_body [CHR 0xFF, SP, LF] = relaxed_body [CHR 0xFF, CR, LF]"
    by code_simp
  then show ?thesis
    by (simp add: test_body_accepts_non_utf8_bytes_def test_body_relaxed [OF assms] usize_max_def)
qed

definition test_relaxed_body_is_chunk_independent :: "('h, 'k, 's) openssl \<Rightarrow> bool" where
  "test_relaxed_body_is_chunk_independent ossl \<longleftrightarrow>
     test_body ossl ['' C '' @ CRLF @ ''D '' @ [TAB] @ '' E'' @ CRLF @ CRLF] =
     test_body ossl ['' C '' @ [CR], [LF] @ ''D '', [TAB] @ '' E'' @ CRLF, [CR], [LF]]"

lemma relaxed_body_is_chunk_independent:
  assumes "stream_consumer (sha_update ossl)"
  shows "test_relaxed_body_is_chunk_independent ossl"
  by (simp add: test_relaxed_body_is_chunk_independent_def test_body_relaxed [OF assms] usize_max_def)

definition EMPTY_HASH :: bytes where
  "EMPTY_HASH = ''47DEQpj8HBSa+/TImW+5JCeuQeRkm5NMpJWZG3hSuFU=''"

definition test_relaxed_empty_body_hashes_no_bytes :: "('h, 'k, 's) openssl \<Rightarrow> bool" where
  "test_relaxed_empty_body_hashes_no_bytes ossl \<longleftrightarrow>
     list_all (\<lambda>input.
         test_body ossl [input] = EMPTY_HASH \<and>
         list_all (\<lambda>split. test_body ossl [take split input, drop split input] = EMPTY_HASH)
           [0..<Suc (length input)])
       [[], CRLF @ CRLF, [SP, TAB], [SP, TAB] @ CRLF @ [TAB] @ CRLF]"

lemma relaxed_empty_body_hashes_no_bytes:
  assumes "stream_consumer (sha_update ossl)" and "encode_block ossl (digest ossl []) = EMPTY_HASH"
  shows "test_relaxed_empty_body_hashes_no_bytes ossl"
proof -
  have empty: "test_body ossl [take n input, drop n input] = EMPTY_HASH \<and> test_body ossl [input] = EMPTY_HASH"
    if "relaxed_body input = []" "length input < usize_max" for n input
    using that assms(2) by (simp add: test_body_relaxed [OF assms(1)])
  have "list_all (\<lambda>input. relaxed_body input = [] \<and> length input < 9)
      [[], CRLF @ CRLF, [SP, TAB], [SP, TAB] @ CRLF @ [TAB] @ CRLF]"
    by code_simp
  then show ?thesis
    unfolding test_relaxed_empty_body_hashes_no_bytes_def
    by (rule list.pred_mono_strong) (simp add: list_all_iff empty usize_max_def)
qed

definition test_keeps_leading_empty_lines_before_content :: "('h, 'k, 's) openssl \<Rightarrow> bool" where
  "test_keeps_leading_empty_lines_before_content ossl \<longleftrightarrow>
     test_body ossl [CRLF @ ''A''] = test_body ossl [[CR], [LF], ''A''] \<and>
     test_body ossl [CRLF @ ''A''] \<noteq> test_body ossl [''A'']"

lemma keeps_leading_empty_lines_before_content:
  assumes "stream_consumer (sha_update ossl)"
    and "encode_block ossl (digest ossl (CRLF @ ''A'' @ CRLF)) \<noteq> encode_block ossl (digest ossl (''A'' @ CRLF))"
  shows "test_keeps_leading_empty_lines_before_content ossl"
proof -
  have "relaxed_body (CRLF @ ''A'') = CRLF @ ''A'' @ CRLF" "relaxed_body ''A'' = ''A'' @ CRLF"
    by code_simp+
  with assms(2) show ?thesis
    by (simp add: test_keeps_leading_empty_lines_before_content_def test_body_relaxed [OF assms(1)] usize_max_def)
qed

section \<open>All splits of long inputs\<close>

definition xorshift :: "64 word \<Rightarrow> 64 word" where
  "xorshift state =
     (let state = state XOR push_bit 13 state;
          state = state XOR drop_bit 7 state
      in state XOR push_bit 17 state)"

definition arbitrary_byte :: "64 word \<Rightarrow> byte" where
  "arbitrary_byte state =
     (let k = state AND 15
      in if k = 0 then CR
         else if k = 1 then LF
         else if k = 2 \<or> k = 3 then SP
         else if k = 4 then TAB
         else char_of (unat (drop_bit 24 state) mod 256))"

primrec arbitrary_bytes :: "nat \<Rightarrow> 64 word \<Rightarrow> bytes" where
  "arbitrary_bytes 0 state = []"
| "arbitrary_bytes (Suc n) state =
     (let state = xorshift state in arbitrary_byte state # arbitrary_bytes n state)"

definition all_splits_match :: "('h, 'k, 's) openssl \<Rightarrow> bytes \<Rightarrow> bool" where
  "all_splits_match ossl data =
     (let expected = reference_body ossl data
      in optimized_body ossl [data] = expected \<and>
         list_all (\<lambda>split. optimized_body ossl [take split data, drop split data] = expected)
           [0..<Suc (length data)] \<and>
         list_all (\<lambda>chunk_size. optimized_body ossl (slice_chunks chunk_size data) = expected) [1..<65])"

definition test_optimized_body_matches_reference_for_all_split_positions ::
  "('h, 'k, 's) openssl \<Rightarrow> bool" where
  "test_optimized_body_matches_reference_for_all_split_positions ossl \<longleftrightarrow>
     list_all (all_splits_match ossl)
       [[], CRLF @ CRLF, '' C '' @ CRLF @ ''D '' @ [TAB] @ '' E'' @ CRLF @ CRLF,
        [CHR 0xFF, SP, CR, LF, CHR 0x80],
        arbitrary_bytes 4096 0x6d5a56e912345678,
        replicate 2048 SP @ replicate 2048 LF @ replicate 4096 CHR ''x'']"

lemma all_splits_match:
  assumes "stream_consumer (sha_update ossl)"
  shows "all_splits_match ossl data"
  by (simp add: all_splits_match_def optimized_body_reference [OF assms] slice_chunks(1) list_all_iff)

lemma optimized_body_matches_reference_for_all_split_positions:
  assumes "stream_consumer (sha_update ossl)"
  shows "test_optimized_body_matches_reference_for_all_split_positions ossl"
  unfolding test_optimized_body_matches_reference_for_all_split_positions_def
    list_all_iff
  by (intro ballI all_splits_match [OF assms])

section \<open>Signatures against literal inputs\<close>

text \<open>\<open>str::find\<close>, \<open>contains\<close> and \<open>find_map\<close>; \<open>replace\<close> of CRLF TAB by a space is \<open>unfold_tabs\<close>.\<close>

fun find_str :: "bytes \<Rightarrow> bytes \<Rightarrow> nat option" where
  "find_str p [] = (if p = [] then Some 0 else None)"
| "find_str p (b # s) = (if starts_with p (b # s) then Some 0 else map_option Suc (find_str p s))"

definition contains :: "bytes \<Rightarrow> bytes \<Rightarrow> bool" where
  "contains p s \<longleftrightarrow> find_str p s \<noteq> None"

fun find_map :: "('a \<Rightarrow> 'b option) \<Rightarrow> 'a list \<Rightarrow> 'b option" where
  "find_map f [] = None"
| "find_map f (x # xs) = (case f x of Some y \<Rightarrow> Some y | None \<Rightarrow> find_map f xs)"

lemma find_str_length: "find_str p s = Some i \<Longrightarrow> length p \<le> length s"
proof (induction p s arbitrary: i rule: find_str.induct)
  case (2 p b s)
  show ?case
  proof (cases "starts_with p (b # s)")
    case True
    then have "take (length p) (b # s) = p"
      by (simp only: starts_with_def)
    then have "length (take (length p) (b # s)) = length p"
      by simp
    then show ?thesis
      by simp
  next
    case False
    then obtain j where "find_str p s = Some j"
      using 2(2) by auto
    with 2(1) [OF False] show ?thesis
      by fastforce
  qed
qed (simp split: if_splits)

lemma find_str_append: "find_str p s = Some i \<Longrightarrow> find_str p (s @ t) = Some i"
proof (induction p s arbitrary: i rule: find_str.induct)
  case (1 p)
  then show ?case
    by (cases t) (auto simp: starts_with_def split: if_splits)
next
  case (2 p b s)
  have "starts_with p (b # s @ t) = starts_with p (b # s)"
    using find_str_length [OF 2(2)] take_append [of "length p" "b # s" t] by (simp add: starts_with_def)
  with 2 show ?case
    by (auto split: if_splits)
qed

lemma list_all_pairs:
  "list_all Q ys \<Longrightarrow> list_all P xs \<Longrightarrow> (\<And>x y. P x \<Longrightarrow> Q y \<Longrightarrow> R x y) \<Longrightarrow>
     list_all (\<lambda>x. list_all (R x) ys) xs"
  by (auto simp: list_all_iff)

lemma find_map_append: "find_map f xs = Some y \<Longrightarrow> find_map f (xs @ ys) = Some y"
  by (induction xs) (auto split: option.splits)

lemma split_on_append_sep: "split_on c (xs @ c # ys) = split_on c xs @ split_on c ys"
  by (induction xs) (auto split: list.splits)

definition test_config :: "'k \<Rightarrow> 'k runtime_config" where
  "test_config key =
     \<lparr>cfg_domain = ''example.com'', cfg_selector = ''test'', cfg_private_key = ''unused'',
      cfg_listen = Tcp_Addr \<lparr>sa_ip = V4 127 0 0 1, sa_port = 8891, sa_scope = 0\<rparr>,
      cfg_require_fips = False, cfg_key = key\<rparr>"

text \<open>One round of the loops: \<open>verify\<close> decodes the Base64 of a signature and checks it for the
  bytes.\<close>

definition signature_verifies ::
  "('h, 'k, 's) openssl \<Rightarrow> 'k \<Rightarrow> int \<Rightarrow> (bytes \<Rightarrow> bytes \<Rightarrow> bool) \<Rightarrow> bytes \<times> bytes \<Rightarrow> bytes \<times> bytes \<Rightarrow> bool" where
  "signature_verifies ossl key now verify = (\<lambda>(subject, expected_subject) (input, expected_hash).
     (case (header_new ''From'' ''Alice <alice@example.com>'', header_new ''Subject'' subject) of
        (Inr from, Inr subject) \<Rightarrow>
          (case sign ossl now (test_config key) [from, subject]
              (optimized_body ossl (map (\<lambda>byte. [byte]) input)) of
             Inl _ \<Rightarrow> False
           | Inr v \<Rightarrow>
               let unfolded = unfold_tabs v in
               contains ''h=from:from:subject;'' unfolded \<and>
               contains (''bh='' @ expected_hash @ '';'') unfolded \<and>
               (case (find_map (\<lambda>tag. strip_prefix ''t='' (trim tag)) (split_on CHR '';'' unfolded),
                      find_str ''b='' unfolded) of
                  (Some timestamp, Some b_start) \<Rightarrow>
                    verify
                      (''from:Alice <alice@example.com>'' @ CRLF @ expected_subject @
                       ''dkim-signature:v=1; a=rsa-sha256; c=relaxed/relaxed; d=example.com; s=test; t='' @
                       timestamp @ ''; h=from:from:subject; bh='' @ expected_hash @ ''; b='')
                      (drop (b_start + 2) unfolded)
                | _ \<Rightarrow> False))
      | _ \<Rightarrow> False))"

definition test_generated_signatures_verify_against_literal_rfc_inputs ::
  "('h, 'k, 's) openssl \<Rightarrow> 'k \<Rightarrow> int \<Rightarrow> (bytes \<Rightarrow> bytes \<Rightarrow> bool) \<Rightarrow> bool" where
  "test_generated_signatures_verify_against_literal_rfc_inputs ossl key now verify \<longleftrightarrow>
     list_all (\<lambda>subject. list_all (signature_verifies ossl key now verify subject)
         [([], ''47DEQpj8HBSa+/TImW+5JCeuQeRkm5NMpJWZG3hSuFU=''),
          (CRLF @ CRLF, ''47DEQpj8HBSa+/TImW+5JCeuQeRkm5NMpJWZG3hSuFU=''),
          ([SP, TAB] @ CRLF @ [TAB], ''47DEQpj8HBSa+/TImW+5JCeuQeRkm5NMpJWZG3hSuFU=''),
          (''hello'' @ CRLF, ''zS7KNTV0HyeorkDDGwxB1AV6enuRKzO5rthkhdHIRnY='')])
       [(''hello'', ''subject:hello'' @ CRLF),
        (''Re: hello'', ''subject:Re: hello'' @ CRLF),
        (''  Re:'' @ CRLF @ [TAB] @ '' hello: '' @ [TAB] @ ''world  '', ''subject:Re: hello: world'' @ CRLF)]"

text \<open>Signing with the key does not fail.\<close>

definition key_signs :: "('h, 'k, 's) openssl \<Rightarrow> 'k \<Rightarrow> bool" where
  "key_signs ossl key \<longleftrightarrow>
     (\<exists>s. signer_new ossl key = Inr s) \<and> (\<forall>s m. \<exists>s'. signer_update ossl s m = Inr s') \<and>
     (\<forall>s. \<exists>sig. sign_to_vec ossl s = Inr sig)"

text \<open>The unsigned value of the test, up to the hash.\<close>

definition test_unsigned :: "bytes \<Rightarrow> bytes" where
  "test_unsigned hash =
     ''v=1; a=rsa-sha256; c=relaxed/relaxed; d=example.com; s=test; t=1700000000'' @
     ''; h=from:from:subject; bh='' @ hash @ ''; b=''"

definition test_headers :: "bytes \<Rightarrow> header list" where
  "test_headers subject =
     [\<lparr>hdr_name = ''From'', hdr_value = ''Alice <alice@example.com>''\<rparr>,
      \<lparr>hdr_name = ''Subject'', hdr_value = subject\<rparr>]"

lemma test_headers_selected:
  "check_from (test_config key) (test_headers subject) = Inr ()"
  "select_headers (test_headers subject) =
     (test_headers subject, [''from'', ''from'', ''subject''])"
  by code_simp+

lemma test_unsigned_value:
  "unsigned_value (test_config key) 1700000000 [''from'', ''from'', ''subject''] hash = test_unsigned hash"
proof -
  have "dec 1700000000 = ''1700000000''" "join '':'' [''from'', ''from'', ''subject''] = ''from:from:subject''"
    by code_simp+
  then show ?thesis
    by (simp add: unsigned_value_def test_config_def test_unsigned_def)
qed

definition unsigned_reads :: "bytes \<Rightarrow> bool" where
  "unsigned_reads hash \<longleftrightarrow>
     contains ''h=from:from:subject;'' (test_unsigned hash) \<and>
     contains (''bh='' @ hash @ '';'') (test_unsigned hash) \<and>
     find_str ''b='' (test_unsigned hash) = Some (length (test_unsigned hash) - 2) \<and>
     CR \<notin> set (test_unsigned hash)"

lemma unsigned_reads_hashes:
  "unsigned_reads ''47DEQpj8HBSa+/TImW+5JCeuQeRkm5NMpJWZG3hSuFU=''"
  "unsigned_reads ''zS7KNTV0HyeorkDDGwxB1AV6enuRKzO5rthkhdHIRnY=''"
  by code_simp+

lemma contains_append: "contains p s \<Longrightarrow> contains p (s @ t)"
  by (auto simp: contains_def find_str_append)

lemma test_timestamp:
  "find_map (\<lambda>tag. strip_prefix ''t='' (trim tag)) (split_on CHR '';'' (test_unsigned hash @ sig)) =
     Some ''1700000000''"
proof -
  have "find_map (\<lambda>tag. strip_prefix ''t='' (trim tag))
      (split_on CHR '';'' ''v=1; a=rsa-sha256; c=relaxed/relaxed; d=example.com; s=test; t=1700000000'') =
    Some ''1700000000''"
    by code_simp
  from find_map_append [OF this, of "split_on CHR '';'' ('' h=from:from:subject; bh='' @ hash @ ''; b='' @ sig)"]
  show ?thesis
    by (simp only: split_on_append_sep [symmetric] test_unsigned_def append_assoc append_Cons append_Nil)
qed

text \<open>One round of the loops, for any digest and signatures with the incremental laws.\<close>

lemma test_config_key: "cfg_key (test_config key) = key"
  by (simp add: test_config_def)

lemma test_header_lines:
  "map (\<lambda>h. canonicalize_header (hdr_name h) (hdr_value h)) (test_headers subject) =
     [canonicalize_header ''From'' ''Alice <alice@example.com>'', canonicalize_header ''Subject'' subject]"
  by (simp add: test_headers_def)

context dkim_signing
begin

lemma test_sign:
  assumes "key_signs ossl key" and "signatures_verify ossl key verify" and "encode_block ossl bh = hash"
  obtains sig where
    "sign ossl 1700000000 (test_config key) (test_headers subject) bh =
       Inr (fold_signature (test_unsigned hash @ encode_block ossl sig))"
    and "verify (canonicalize_header ''From'' ''Alice <alice@example.com>'' @
      canonicalize_header ''Subject'' subject @ canonicalize_signature_header (test_unsigned hash))
      (encode_block ossl sig)"
proof -
  let ?f = "canonicalize_header ''From'' ''Alice <alice@example.com>''"
  let ?s = "canonicalize_header ''Subject'' subject"
  let ?d = "canonicalize_signature_header (test_unsigned hash)"
  have step: "\<exists>s'. signer_update ossl s m = Inr s'" for s m
    using assms(1) by (simp add: key_signs_def)
  obtain s0 where 0: "signer_new ossl key = Inr s0"
    using assms(1) by (auto simp: key_signs_def)
  obtain s1 where 1: "signer_update ossl s0 ?f = Inr s1"
    using step by blast
  obtain s2 where 2: "signer_update ossl s1 ?s = Inr s2"
    using step by blast
  obtain s3 where 3: "signer_update ossl s2 ?d = Inr s3"
    using step by blast
  obtain sig where 4: "sign_to_vec ossl s3 = Inr sig"
    using assms(1) unfolding key_signs_def by blast
  have "signer_update ossl s0 (?f @ ?s) = Inr s2"
    using feed_append [OF 1] 2 by simp
  from feed_append [OF this] 3 have "signer_update ossl s0 (?f @ ?s @ ?d) = Inr s3"
    by simp
  then have "verify (?f @ ?s @ ?d) (encode_block ossl sig)"
    using assms(2) 0 4 unfolding signatures_verify_def by blast
  moreover have "sign ossl 1700000000 (test_config key) (test_headers subject) bh =
      Inr (fold_signature (test_unsigned hash @ encode_block ossl sig))"
    using 0 1 2 3 4 assms(3)
    by (simp add: sign_def test_headers_selected test_unsigned_value test_config_key test_header_lines and_then_def)
  ultimately show ?thesis
    by (rule that [rotated])
qed

lemma round_verifies:
  assumes "key_signs ossl key" and "signatures_verify ossl key verify"
    and "encode_block ossl (optimized_body ossl (map (\<lambda>byte. [byte]) input)) = hash"
    and "unsigned_reads hash"
    and "header_new ''Subject'' subject = Inr \<lparr>hdr_name = ''Subject'', hdr_value = subject\<rparr>"
    and "canonicalize_header ''Subject'' subject = expected_subject"
    and "canonicalize_signature_header (test_unsigned hash) = ''dkim-signature:'' @ test_unsigned hash"
  shows "signature_verifies ossl key 1700000000 verify (subject, expected_subject) (input, hash)"
proof -
  obtain sig where sign: "sign ossl 1700000000 (test_config key) (test_headers subject)
      (optimized_body ossl (map (\<lambda>byte. [byte]) input)) =
      Inr (fold_signature (test_unsigned hash @ encode_block ossl sig))"
    and verify: "verify (canonicalize_header ''From'' ''Alice <alice@example.com>'' @
      canonicalize_header ''Subject'' subject @ canonicalize_signature_header (test_unsigned hash))
      (encode_block ossl sig)"
    using test_sign [OF assms(1-3)] by blast
  have from_header: "header_new ''From'' ''Alice <alice@example.com>'' =
      Inr \<lparr>hdr_name = ''From'', hdr_value = ''Alice <alice@example.com>''\<rparr>"
    "canonicalize_header ''From'' ''Alice <alice@example.com>'' = ''from:Alice <alice@example.com>'' @ CRLF"
    by code_simp+
  have "CR \<notin> set (encode_block ossl sig)"
    using clean [of _ sig] by blast
  then have unfolded: "unfold_tabs (fold_signature (test_unsigned hash @ encode_block ossl sig)) =
      test_unsigned hash @ encode_block ossl sig"
    using assms(4) by (intro unfold_fold_signature) (auto simp: unsigned_reads_def test_unsigned_def)
  have headers: "[\<lparr>hdr_name = ''From'', hdr_value = ''Alice <alice@example.com>''\<rparr>,
      \<lparr>hdr_name = ''Subject'', hdr_value = subject\<rparr>] = test_headers subject"
    by (simp add: test_headers_def)
  have reads: "contains ''h=from:from:subject;'' (test_unsigned hash @ encode_block ossl sig)"
    "contains (''bh='' @ hash @ '';'') (test_unsigned hash @ encode_block ossl sig)"
    "find_str ''b='' (test_unsigned hash @ encode_block ossl sig) = Some (length (test_unsigned hash) - 2)"
    using assms(4) by (auto simp: unsigned_reads_def intro: contains_append find_str_append)
  have "length (test_unsigned hash) - 2 + 2 = length (test_unsigned hash)"
    by (simp add: test_unsigned_def)
  then have rest: "drop (length (test_unsigned hash) - 2 + 2) (test_unsigned hash @ encode_block ossl sig) =
      encode_block ossl sig"
    by simp
  have signed: "''from:Alice <alice@example.com>'' @ CRLF @ expected_subject @
      ''dkim-signature:v=1; a=rsa-sha256; c=relaxed/relaxed; d=example.com; s=test; t='' @
      ''1700000000'' @ ''; h=from:from:subject; bh='' @ hash @ ''; b='' =
    canonicalize_header ''From'' ''Alice <alice@example.com>'' @
      canonicalize_header ''Subject'' subject @ canonicalize_signature_header (test_unsigned hash)"
    unfolding from_header(2) assms(6,7) by (simp add: test_unsigned_def)
  show ?thesis
    by (simp only: signature_verifies_def prod.case from_header(1) assms(5) sum.case headers sign unfolded Let_def
        reads test_timestamp option.case rest signed verify simp_thms)
qed

end

lemma generated_signatures_verify_against_literal_rfc_inputs:
  assumes "dkim_signing ossl" and "stream_consumer (sha_update ossl)"
    and "key_signs ossl key" and "signatures_verify ossl key verify"
    and "encode_block ossl (digest ossl []) = EMPTY_HASH"
    and "encode_block ossl (digest ossl (''hello'' @ CRLF)) = ''zS7KNTV0HyeorkDDGwxB1AV6enuRKzO5rthkhdHIRnY=''"
  shows "test_generated_signatures_verify_against_literal_rfc_inputs ossl key 1700000000 verify"
proof -
  have body: "encode_block ossl (optimized_body ossl (map (\<lambda>byte. [byte]) input)) =
      encode_block ossl (digest ossl (relaxed_body input))" if "length input < 9" for input
  proof -
    have "concat (map (\<lambda>byte. [byte]) input) = input"
      by (induction input) simp_all
    then show ?thesis
      using optimized_body_relaxed [OF assms(2), of "map (\<lambda>byte. [byte]) input"] that
      by (simp add: usize_max_def)
  qed
  have "list_all (\<lambda>(input, hash). length input < 9 \<and>
      (relaxed_body input = [] \<and> hash = EMPTY_HASH \<or>
       relaxed_body input = ''hello'' @ CRLF \<and> hash = ''zS7KNTV0HyeorkDDGwxB1AV6enuRKzO5rthkhdHIRnY=''))
         [([], ''47DEQpj8HBSa+/TImW+5JCeuQeRkm5NMpJWZG3hSuFU=''),
          (CRLF @ CRLF, ''47DEQpj8HBSa+/TImW+5JCeuQeRkm5NMpJWZG3hSuFU=''),
          ([SP, TAB] @ CRLF @ [TAB], ''47DEQpj8HBSa+/TImW+5JCeuQeRkm5NMpJWZG3hSuFU=''),
          (''hello'' @ CRLF, ''zS7KNTV0HyeorkDDGwxB1AV6enuRKzO5rthkhdHIRnY='')]"
    (is "list_all ?B ?bodies")
    by code_simp
  moreover have "list_all (\<lambda>(subject, expected).
      header_new ''Subject'' subject = Inr \<lparr>hdr_name = ''Subject'', hdr_value = subject\<rparr> \<and>
      canonicalize_header ''Subject'' subject = expected)
       [(''hello'', ''subject:hello'' @ CRLF),
        (''Re: hello'', ''subject:Re: hello'' @ CRLF),
        (''  Re:'' @ CRLF @ [TAB] @ '' hello: '' @ [TAB] @ ''world  '', ''subject:Re: hello: world'' @ CRLF)]"
    (is "list_all ?S ?subjects")
    by code_simp
  moreover have "signature_verifies ossl key 1700000000 verify s b" if "?S s" "?B b" for s b
  proof (cases s; cases b)
    fix subject expected input hash
    assume sb: "s = (subject, expected)" "b = (input, hash)"
    have "canonicalize_signature_header (test_unsigned EMPTY_HASH) = ''dkim-signature:'' @ test_unsigned EMPTY_HASH"
      "canonicalize_signature_header (test_unsigned ''zS7KNTV0HyeorkDDGwxB1AV6enuRKzO5rthkhdHIRnY='') =
        ''dkim-signature:'' @ test_unsigned ''zS7KNTV0HyeorkDDGwxB1AV6enuRKzO5rthkhdHIRnY=''"
      by code_simp+
    then show ?thesis
      using that body [of input] assms(5,6) unsigned_reads_hashes unfolding sb
      by (intro dkim_signing.round_verifies [OF assms(1,3,4)]) (auto simp: EMPTY_HASH_def)
  qed
  ultimately show ?thesis
    unfolding test_generated_signatures_verify_against_literal_rfc_inputs_def
    by (rule list_all_pairs)
qed

section \<open>Fuzz targets\<close>

text \<open>The harnesses drop the results: fuzzing looks for panics. The model's operations are total, so
  the lemmas say what the results are.\<close>

definition fuzz_body :: "('h, 'k, 's) openssl \<Rightarrow> bytes \<Rightarrow> bytes" where
  "fuzz_body ossl data =
     body_finish ossl (foldl (body_update ossl) (body_default ossl) (slice_chunks 17 data))"

definition fuzz_header :: "bytes \<Rightarrow> (unit + header) \<times> bytes" where
  "fuzz_header data =
     (let split = min (length data) 128
      in (header_new (take split data) (drop split data),
          canonicalize_header (take split data) (drop split data)))"

lemma fuzz_body_reference:
  assumes "stream_consumer (sha_update ossl)"
  shows "fuzz_body ossl data = reference_body ossl data"
  using optimized_body_reference [OF assms, of "slice_chunks 17 data"]
  by (simp add: fuzz_body_def optimized_body_def slice_chunks(1))

lemma fuzz_header_relaxed:
  "snd (fuzz_header data) =
     relaxed_header (take (min (length data) 128) data) (drop (min (length data) 128) data) @ CRLF"
  by (simp add: fuzz_header_def Let_def canonicalize_header_relaxed)

end
