(* ===== verification/Tests_Program.thy ===== *)
theory Tests_Program
  imports Command_Line
begin

text \<open>
  The unit tests of src/config.rs, src/keygen.rs and src/main.rs, as executable predicates over the
  model. A closure that must not be called is an arbitrary argument: the test passes whatever it
  would answer. Time-dependent directory names and generated keys are arguments too.
\<close>

fun is_err :: "'e + 'a \<Rightarrow> bool" where
  "is_err (Inl _) = True"
| "is_err (Inr _) = False"

abbreviation is_ok :: "'e + 'a \<Rightarrow> bool" where
  "is_ok r \<equiv> \<not> is_err r"

section \<open>src/config.rs\<close>

definition test_rejects_non_loopback_tcp :: bool where
  "test_rejects_non_loopback_tcp \<longleftrightarrow>
     is_err (parse_listen ''tcp:0.0.0.0:8891'') \<and>
     is_ok (parse_listen ''tcp:127.0.0.1:8891'') \<and>
     is_ok (parse_listen ''tcp:[::1]:8891'')"

lemma rejects_non_loopback_tcp: "test_rejects_non_loopback_tcp"
  by code_simp

definition test_validates_names :: bool where
  "test_validates_names \<longleftrightarrow>
     validate_dns_name ''domain'' ''Example.COM.'' = Inr ''example.com'' \<and>
     is_err (validate_dns_name ''domain'' ''-bad.example'')"

lemma validates_names: "test_validates_names"
  by code_simp

definition test_fips_can_be_explicitly_disabled ::
  "(bytes \<Rightarrow> bytes + bytes) \<Rightarrow> int option \<Rightarrow> int option \<Rightarrow> bytes + bytes \<Rightarrow> bool \<Rightarrow> bool" where
  "test_fips_can_be_explicitly_disabled read default_properties fips_mode status openssl_is_fips \<longleftrightarrow>
     is_ok (check_fips_environment False read default_properties fips_mode) \<and>
     is_ok (check_fips_environment_with False status openssl_is_fips)"

lemma fips_can_be_explicitly_disabled:
  "test_fips_can_be_explicitly_disabled read default_properties fips_mode status openssl_is_fips"
  by (simp add: test_fips_can_be_explicitly_disabled_def check_fips_environment_def
      check_fips_environment_with_def)

text \<open>The texts of the four kinds of error, and the values of the status file.\<close>

definition test_required_fips_rejects_unavailable_or_invalid_kernel_status :: "bool \<Rightarrow> bool" where
  "test_required_fips_rejects_unavailable_or_invalid_kernel_status openssl_is_fips \<longleftrightarrow>
     list_all (\<lambda>kind. check_fips_environment_with True (Inl kind) openssl_is_fips = Inl (Fips_Unreadable kind))
       [''entity not found'', ''permission denied'', ''invalid data'', ''other error''] \<and>
     list_all (\<lambda>v. is_err (check_fips_environment_with True (Inr v) openssl_is_fips))
       [''0'', [], ''2'', ''enabled'', ''1'' @ [LF] @ ''0'']"

lemma required_fips_rejects_unavailable_or_invalid_kernel_status:
  "test_required_fips_rejects_unavailable_or_invalid_kernel_status openssl_is_fips"
  by (cases openssl_is_fips; simp only:; code_simp)

definition test_required_fips_needs_both_kernel_and_openssl_confirmation :: bool where
  "test_required_fips_needs_both_kernel_and_openssl_confirmation \<longleftrightarrow>
     is_ok (check_fips_environment_with True (Inr (''1'' @ [LF])) True) \<and>
     check_fips_environment_with True (Inr ''1'') False = Inl Fips_Openssl_Off"

lemma required_fips_needs_both_kernel_and_openssl_confirmation:
  "test_required_fips_needs_both_kernel_and_openssl_confirmation"
  by code_simp

text \<open>\<open>directory\<close> is the temporary directory, \<open>pem\<close> the generated key.\<close>

definition test_require_fips_defaults_true_and_parses_strict_boolean ::
  "('h, 'k, 's) openssl \<Rightarrow> bytes \<Rightarrow> bytes \<Rightarrow> bool" where
  "test_require_fips_defaults_true_and_parses_strict_boolean ossl pem directory \<longleftrightarrow>
     (let key_path = directory @ ''/key.pem'';
          config_path = directory @ ''/dkim-lite.conf'';
          base = ''domain=example.com'' @ [LF] @ ''selector=test'' @ [LF] @ ''private_key='' @ key_path @ [LF] @
            ''listen=tcp:127.0.0.1:8891'' @ [LF];
          files = (\<lambda>config path.
            if path = config_path then Inr config
            else if path = key_path then Inr pem
            else Inl ''entity not found'');
          loaded = (\<lambda>config. map_sum id cfg_require_fips (load ossl (files config) config_path))
      in loaded base = Inr True \<and>
         loaded (base @ ''require_fips=false'' @ [LF]) = Inr False \<and>
         is_err (loaded (base @ ''require_fips=yes'' @ [LF])))"

lemma require_fips_defaults_true_and_parses_strict_boolean:
  "test_require_fips_defaults_true_and_parses_strict_boolean sample_openssl ''KEY'' ''/tmp/dkim-lite-config-1''"
  by code_simp

section \<open>src/main.rs\<close>

definition test_parses_generate_key_defaults :: bool where
  "test_parses_generate_key_defaults \<longleftrightarrow>
     (case parse_args [''dkim-lite'', ''generate-key'', ''--domain'', ''example.com'', ''--selector'', ''mail'',
         ''--private-key'', ''/tmp/mail.pem''] of
        Inr (Generate_Key options) \<Rightarrow> go_bits options = 2048 \<and> go_require_fips options
      | _ \<Rightarrow> False)"

lemma parses_generate_key_defaults: "test_parses_generate_key_defaults"
  by code_simp

definition test_parses_generate_key_overrides_strictly :: bool where
  "test_parses_generate_key_overrides_strictly \<longleftrightarrow>
     (case parse_args [''dkim-lite'', ''generate-key'', ''--domain'', ''example.com'', ''--selector'', ''mail'',
         ''--private-key'', ''/tmp/mail.pem'', ''--bits'', ''4096'', ''--require-fips'', ''false''] of
        Inr (Generate_Key options) \<Rightarrow> go_bits options = 4096 \<and> \<not> go_require_fips options
      | _ \<Rightarrow> False) \<and>
     is_err (parse_args [''dkim-lite'', ''generate-key'', ''--domain''])"

lemma parses_generate_key_overrides_strictly: "test_parses_generate_key_overrides_strictly"
  by code_simp

section \<open>src/keygen.rs\<close>

text \<open>A file system in which the test's directory was just created.\<close>

definition test_directory :: "bytes \<Rightarrow> fs_world" where
  "test_directory directory =
     \<lparr>f_files = [path_components directory \<mapsto> Directory], f_others = (\<lambda>i f. f), f_faults = (\<lambda>i. None),
      f_calls = 0, f_sequence = 0\<rparr>"

definition test_generate_options :: "bytes \<Rightarrow> bytes \<Rightarrow> bytes \<Rightarrow> u32 \<Rightarrow> generate_options" where
  "test_generate_options domain selector target bits =
     \<lparr>go_domain = domain, go_selector = selector, go_private_key = target, go_bits = bits,
      go_require_fips = False\<rparr>"

definition test_generates_secure_pkcs8_key_and_dns_record ::
  "('h, 'k, 's) openssl \<Rightarrow> ('c, 'k) rsa_keygen \<Rightarrow> (nat \<Rightarrow> nat) \<Rightarrow> nat \<Rightarrow> bytes \<Rightarrow> bool" where
  "test_generates_secure_pkcs8_key_and_dns_record ossl kg umask pid directory \<longleftrightarrow>
     (let target = directory @ ''/selector.pem''
      in case generate ossl kg (Inr ()) umask pid
          (test_generate_options ''Example.COM.'' ''Mail2026'' target 2048) (test_directory directory) of
        (Inr generated, w) \<Rightarrow>
          (case f_files w (path_components target) of
             Some (Regular mode contents) \<Rightarrow>
               mode mod (8 * 8 * 8) = 6 * 8 * 8 \<and>
               (case private_key_from_pem ossl contents of
                  Inr key \<Rightarrow> map_option (\<lambda>n. n * 8) (rsa_size ossl key) = Some 2048
                | Inl _ \<Rightarrow> False)
           | _ \<Rightarrow> False) \<and>
          gk_domain generated = ''example.com'' \<and>
          gk_selector generated = ''mail2026'' \<and>
          starts_with (''mail2026._domainkey.example.com. IN TXT '' @ [DQUOTE] @ ''v=DKIM1; k=rsa; p='')
            (gk_dns_record generated) \<and>
          fst (generate ossl kg (Inr ()) umask pid
            (test_generate_options ''example.com'' ''mail2026'' target 2048) w) =
            Inl (Would_Overwrite (path_components target))
      | (Inl _, _) \<Rightarrow> False)"

lemma generates_secure_pkcs8_key_and_dns_record:
  "test_generates_secure_pkcs8_key_and_dns_record sample_openssl sample_keygen (\<lambda>m. m) 7 ''/tmp/dkim-lite-keygen-1''"
  by code_simp

text \<open>An unsupported size is refused before OpenSSL or the file system is asked for anything.\<close>

definition test_rejects_unsupported_size_before_creating_file ::
  "('h, 'k, 's) openssl \<Rightarrow> ('c, 'k) rsa_keygen \<Rightarrow> (nat \<Rightarrow> nat) \<Rightarrow> nat \<Rightarrow> bytes \<Rightarrow> bool" where
  "test_rejects_unsupported_size_before_creating_file ossl kg umask pid directory \<longleftrightarrow>
     (let target = directory @ ''/key.pem''
      in case generate ossl kg (Inr ()) umask pid
          (test_generate_options ''example.com'' ''test'' target 1024) (test_directory directory) of
        (Inl e, w) \<Rightarrow> e = Bad_Bits \<and> \<not> fst (fs_exists (path_components target) w)
      | (Inr _, _) \<Rightarrow> False)"

lemma rejects_unsupported_size_before_creating_file:
  "test_rejects_unsupported_size_before_creating_file ossl kg umask pid ''/tmp/dkim-lite-keygen-2''"
proof -
  have "validate_dns_name ''domain'' ''example.com'' = Inr ''example.com''"
    "validate_dns_name ''selector'' ''test'' = Inr ''test''"
    "path_components (''/tmp/dkim-lite-keygen-2'' @ ''/key.pem'') \<noteq> path_components ''/tmp/dkim-lite-keygen-2''"
    by code_simp+
  then show ?thesis
    by (simp add: test_rejects_unsupported_size_before_creating_file_def generate_def and_then_def
        test_generate_options_def test_directory_def fs_exists_def enter_call_def Let_def)
qed

end
