(* ===== verification/Tests_Milter.thy ===== *)
theory Tests_Milter
  imports Connection Listener Tests_Dkim
begin

text \<open>
  The unit tests of src/milter.rs that use no scripted mail server, as executable predicates over the
  model: packets, responses, the connection deadline, the accept backlog and the header limits.

  A socket's peer is a list of read and write events; the threads' timing is a clock given as a
  function. Capacities of buffers are not part of the model.
\<close>

section \<open>The accept backlog\<close>

text \<open>The world of the closures: the shutdown flag and the number of accepts.\<close>

definition test_drain :: "bool \<Rightarrow> ((serve_error + unit) \<times> bool \<times> nat) option" where
  "test_drain shutdown_in_accept =
     drain_backlog (\<lambda>(stop, accepts). (stop, stop, accepts))
       (\<lambda>(stop, accepts). (Inr (), stop \<or> shutdown_in_accept, Suc accepts))
       (\<lambda>(stop, accepts). (Inr True, True, accepts)) (False, 0)"

definition test_backlog_drain_stops_after_shutdown_with_continuous_readiness ::
  "('w, io_error, unit) act \<Rightarrow> ('w, io_error, bool) act \<Rightarrow> 'w \<Rightarrow> bool" where
  "test_backlog_drain_stops_after_shutdown_with_continuous_readiness accept readable w \<longleftrightarrow>
     map_option (\<lambda>(r, stop, accepts). (r, accepts)) (test_drain True) = Some (Inr (), 1) \<and>
     map_option (\<lambda>(r, stop, accepts). (r, accepts)) (test_drain False) = Some (Inr (), 1) \<and>
     map_option fst (drain_backlog (\<lambda>w. (True, w)) accept readable w) = Some (Inr ())"

lemma backlog_drain_stops_after_shutdown_with_continuous_readiness:
  "test_backlog_drain_stops_after_shutdown_with_continuous_readiness accept readable w"
proof -
  have "test_drain b = Some (Inr (), True, 1)" for b
    unfolding test_drain_def by (cases b) (simp_all add: drain_backlog.simps)
  then show ?thesis
    by (simp add: test_backlog_drain_stops_after_shutdown_with_continuous_readiness_def
        drain_backlog.simps [of "\<lambda>w. (True, w)"])
qed

section \<open>A writer that records\<close>

record recording_writer =
  rw_bytes :: bytes
  rw_calls :: nat
  rw_limit :: nat

definition recording_write :: "bytes \<Rightarrow> (recording_writer, io_error, nat) act" where
  "recording_write bs w =
     (let count = min (length bs) (rw_limit w)
      in (Inr count, w\<lparr>rw_calls := Suc (rw_calls w), rw_bytes := rw_bytes w @ take count bs\<rparr>))"

text \<open>\<open>write_all\<close> over it.\<close>

function recording_write_all :: "bytes \<Rightarrow> (recording_writer, io_error, unit) act" where
  "recording_write_all bs w =
     (if bs = [] then (Inr (), w)
      else (case recording_write bs w of
          (Inr n, w) \<Rightarrow> if n = 0 then (Inl Write_Zero, w) else recording_write_all (drop n bs) w
        | (Inl e, w) \<Rightarrow> (Inl e, w)))"
  by auto
termination
  by (relation "measure (\<lambda>(bs, w). length bs)") (auto simp: recording_write_def Let_def)

declare recording_write_all.simps [simp del]

definition recording_sink :: "(recording_writer, unit) writer" where
  "recording_sink = \<lparr>w_put = recording_write_all, w_log = (\<lambda>l w. w)\<rparr>"

definition test_response_frames_use_one_write_and_handle_partial_writers :: bool where
  "test_response_frames_use_one_write_and_handle_partial_writers \<longleftrightarrow>
     (case write_packet recording_sink CHR ''O'' ''abc''
         \<lparr>rw_bytes = [], rw_calls = 0, rw_limit = usize_max\<rparr> of
        (Inr _, complete) \<Rightarrow> rw_calls complete = 1 \<and> rw_bytes complete = [NUL, NUL, NUL, CHR 0x04] @ ''Oabc''
      | _ \<Rightarrow> False) \<and>
     (case write_status recording_sink CHR ''c'' \<lparr>rw_bytes = [], rw_calls = 0, rw_limit = 2\<rparr> of
        (Inr _, partial) \<Rightarrow> 1 < rw_calls partial \<and> rw_bytes partial = [NUL, NUL, NUL, CHR 0x01] @ ''c''
      | _ \<Rightarrow> False)"

lemma response_frames_use_one_write_and_handle_partial_writers:
  "test_response_frames_use_one_write_and_handle_partial_writers"
  by code_simp

section \<open>The packet reader\<close>

text \<open>A cursor over bytes: everything is there, and no deadline passes.\<close>

definition cursor :: "bytes \<Rightarrow> conn" where
  "cursor bs = \<lparr>k_reads = [Arrives bs], k_writes = [], k_sent = [], k_log = [], k_ticks = 0\<rparr>"

definition test_read_packet :: "conn \<Rightarrow> (io_error + bytes option) \<times> conn" where
  "test_read_packet = read_packet_into (\<lambda>_. 0) 1"

definition test_packet_reader_handles_partial_reads :: bool where
  "test_packet_reader_handles_partial_reads \<longleftrightarrow>
     fst (test_read_packet (cursor [NUL, NUL, NUL, CHR 0x04, CHR ''B'', CHR 0x01, CHR 0x02, CHR 0x03])) =
       Inr (Some [CHR ''B'', CHR 0x01, CHR 0x02, CHR 0x03])"

lemma packet_reader_handles_partial_reads: "test_packet_reader_handles_partial_reads"
  by code_simp

text \<open>A packet is read back whatever its length, up to the limit.\<close>

lemma test_read_packet_frame:
  assumes "benign c" and "arriving (k_reads c) = frame p @ rest" and "p \<noteq> []" and "length p \<le> MAX_PACKET"
  shows "\<exists>c'. test_read_packet c = (Inr (Some p), c') \<and> benign c' \<and> arriving (k_reads c') = rest"
proof -
  have time: "in_time (\<lambda>_. 0) 1"
    by (simp add: in_time_def)
  have len: "unat (from_be_bytes (to_be_bytes (word_of_nat (length p)))) = length p"
    using assms(4) by (intro unat_from_be_bytes) (simp add: MAX_PACKET_def)
  obtain x c1 where 1: "read_exact (\<lambda>_. 0) 1 4 [] c = (x, c1)"
    by (cases "read_exact (\<lambda>_. 0) 1 4 [] c")
  from read_exact_benign [OF time assms(1) 1] assms(2)
  have x: "benign c1" "x = Inr (to_be_bytes (word_of_nat (length p)))"
    by (simp_all add: frame_def)
  with read_exact_reads [OF 1] assms(2) have c1: "arriving (k_reads c1) = p @ rest"
    by (auto simp: frame_def)
  obtain y c2 where 2: "read_exact (\<lambda>_. 0) 1 (length p) [] c1 = (y, c2)"
    by (cases "read_exact (\<lambda>_. 0) 1 (length p) [] c1")
  from read_exact_benign [OF time x(1) 2] c1 have y: "benign c2" "y = Inr p"
    by simp_all
  with read_exact_reads [OF 2] c1 have "arriving (k_reads c2) = rest"
    by auto
  with 1 2 x y assms(3,4) len show ?thesis
    by (simp add: test_read_packet_def read_packet_into_def Let_def)
qed

text \<open>The contents of the reused buffer; its capacity is not modelled.\<close>

definition test_packet_reader_reuses_bounded_buffer :: bool where
  "test_packet_reader_reuses_bounded_buffer \<longleftrightarrow>
     (case test_read_packet (cursor (to_be_bytes (word_of_nat MAX_PACKET) @ replicate MAX_PACKET CHR ''a'' @
         to_be_bytes 1 @ ''Q'')) of
        (Inr (Some packet), c) \<Rightarrow>
          length packet = MAX_PACKET \<and> fst (test_read_packet c) = Inr (Some ''Q'')
      | _ \<Rightarrow> False)"

lemma packet_reader_reuses_bounded_buffer: "test_packet_reader_reuses_bounded_buffer"
proof -
  let ?p = "replicate MAX_PACKET CHR ''a''"
  have "MAX_PACKET \<noteq> 0"
    by (simp add: MAX_PACKET_def)
  moreover have "frame ''Q'' = to_be_bytes 1 @ ''Q''"
    by (simp add: frame_def)
  ultimately have "benign (cursor (frame ?p @ frame ''Q''))" "?p \<noteq> []"
    by (simp_all add: benign_def cursor_def benign_read_def)
  then obtain c where c: "test_read_packet (cursor (frame ?p @ frame ''Q'')) = (Inr (Some ?p), c)"
    "benign c" "arriving (k_reads c) = frame ''Q''"
    using test_read_packet_frame [of "cursor (frame ?p @ frame ''Q'')" ?p "frame ''Q''"] by (auto simp: cursor_def)
  obtain c' where c': "test_read_packet c = (Inr (Some ''Q''), c')"
    using test_read_packet_frame [OF c(2), of "''Q''" "[]"] c(3) by (auto simp: MAX_PACKET_def)
  have "frame ?p @ frame ''Q'' = to_be_bytes (word_of_nat MAX_PACKET) @ ?p @ to_be_bytes 1 @ ''Q''"
    by (simp add: frame_def)
  with c(1) c' show ?thesis
    by (simp add: test_packet_reader_reuses_bounded_buffer_def)
qed

definition test_rejects_empty_and_oversized_packets_before_allocation :: bool where
  "test_rejects_empty_and_oversized_packets_before_allocation \<longleftrightarrow>
     list_all (\<lambda>len. fst (test_read_packet (cursor (to_be_bytes len))) = Inl Invalid_Data)
       [0, word_of_nat MAX_PACKET + 1]"

lemma rejects_empty_and_oversized_packets_before_allocation:
  "test_rejects_empty_and_oversized_packets_before_allocation"
proof -
  have "fst (test_read_packet (cursor (to_be_bytes len))) = Inl Invalid_Data"
    if "unat len = 0 \<or> MAX_PACKET < unat len" for len
  proof -
    obtain x c1 where 1: "read_exact (\<lambda>_. 0) 1 4 [] (cursor (to_be_bytes len)) = (x, c1)"
      by (cases "read_exact (\<lambda>_. 0) 1 4 [] (cursor (to_be_bytes len))")
    have "to_be_bytes len \<noteq> []"
      using length_to_be_bytes [of len] by (metis list.size(3) zero_neq_numeral)
    then have "benign (cursor (to_be_bytes len))" "in_time (\<lambda>_. 0) 1"
      by (simp_all add: benign_def cursor_def benign_read_def in_time_def)
    from read_exact_benign [OF this(2,1) 1] have "x = Inr (to_be_bytes len)"
      by (simp add: cursor_def)
    with 1 that show ?thesis
      by (auto simp: test_read_packet_def read_packet_into_def Let_def)
  qed
  moreover have "unat (word_of_nat MAX_PACKET + 1 :: u32) = MAX_PACKET + 1"
    by (simp add: MAX_PACKET_def)
  ultimately show ?thesis
    by (simp add: test_rejects_empty_and_oversized_packets_before_allocation_def)
qed

text \<open>The fuzz target for frames reads one packet from arbitrary bytes.\<close>

definition fuzz_milter_frame :: "bytes \<Rightarrow> io_error + bytes option" where
  "fuzz_milter_frame data = fst (test_read_packet (cursor data))"

definition fuzz_target_milter_frame :: "bytes \<Rightarrow> io_error + bytes option" where
  "fuzz_target_milter_frame data = fuzz_milter_frame data"

lemma fuzz_milter_frame_reads:
  assumes "data = frame p @ rest" and "p \<noteq> []" and "length p \<le> MAX_PACKET"
  shows "fuzz_target_milter_frame data = Inr (Some p)"
proof -
  have "data \<noteq> []"
    using assms(1,2) by (simp add: frame_def)
  then have "benign (cursor data)" "arriving (k_reads (cursor data)) = data"
    by (simp_all add: cursor_def benign_def benign_read_def)
  with test_read_packet_frame [of "cursor data" p rest] assms show ?thesis
    by (auto simp: fuzz_target_milter_frame_def fuzz_milter_frame_def)
qed

section \<open>Header packets\<close>

definition test_malformed_header_becomes_message_error :: "('h, 'k, 's) openssl \<Rightarrow> bool" where
  "test_malformed_header_becomes_message_error ossl \<longleftrightarrow>
     ms_error (receive_header ''From: a@example.com'' (ms_default ossl)) \<noteq> None"

lemma malformed_header_becomes_message_error: "test_malformed_header_becomes_message_error ossl"
proof -
  have "split_once NUL ''From: a@example.com'' = None"
    by code_simp
  then show ?thesis
    by (simp add: test_malformed_header_becomes_message_error_def receive_header_def ms_default_def)
qed

definition test_header_limits_fail_the_message_without_growing_state :: "('h, 'k, 's) openssl \<Rightarrow> bool" where
  "test_header_limits_fail_the_message_without_growing_state ossl \<longleftrightarrow>
     (let st = receive_header (''Subject'' @ [NUL] @ replicate MAX_HEADER_BYTES CHR ''a'' @ [NUL]) (ms_default ossl)
      in ms_error st \<noteq> None \<and> ms_headers st = [])"

lemma header_limits_fail_the_message_without_growing_state:
  "test_header_limits_fail_the_message_without_growing_state ossl"
proof -
  let ?text = "replicate MAX_HEADER_BYTES CHR ''a''"
  have "split_once NUL (''Subject'' @ [NUL] @ ?text @ [NUL]) = Some (''Subject'', ?text @ [NUL])"
    by (simp add: split_once_Some_iff)
  moreover have "strip_suffix [NUL] (?text @ [NUL]) = Some ?text"
    by (simp add: strip_suffix_Some_iff)
  moreover have "MAX_HEADER_BYTES < saturating_add 0 (length ''Subject'' + length ?text)"
    by (simp add: saturating_add_def MAX_HEADER_BYTES_def usize_max_def)
  ultimately show ?thesis
    by (simp add: test_header_limits_fail_the_message_without_growing_state_def receive_header_def
        ms_default_def Let_def)
qed

section \<open>The deadline\<close>

definition test_expired_operations_do_not_touch_socket :: "(nat \<Rightarrow> nat) \<Rightarrow> nat \<Rightarrow> bool" where
  "test_expired_operations_do_not_touch_socket clock deadline \<longleftrightarrow>
     (case dc_read clock deadline 1 (cursor ''queued input'') of (r, c) \<Rightarrow>
      case dc_write clock deadline ''output'' c of (r', c) \<Rightarrow>
      case dc_flush clock deadline c of (r'', c) \<Rightarrow>
        r = Inl Timed_Out \<and> r' = Inl Timed_Out \<and> r'' = Inl Timed_Out \<and>
        fst (socket_read 12 c) = Inr ''queued input'' \<and> k_sent c = [])"

lemma expired_operations_do_not_touch_socket:
  assumes "\<And>i. deadline \<le> clock i"
  shows "test_expired_operations_do_not_touch_socket clock deadline"
  using assms
  by (simp add: test_expired_operations_do_not_touch_socket_def dc_read_def dc_write_def dc_flush_def socket_flush_def
      within_deadline_def remaining_def bind_act_def socket_read_def cursor_def Let_def not_less [symmetric])

text \<open>The peer trickles bytes: the rest of a length of 1024, or the payload, one byte in 100 ms.\<close>

definition trickle :: "bytes \<Rightarrow> nat \<Rightarrow> read_event list" where
  "trickle start n =
     Arrives start # map (\<lambda>byte. Arrives [byte])
       ((if length start = 1 then [CHR 0x00, CHR 0x04, CHR 0x00] else []) @ replicate n CHR 0x00)"

definition fragmented_input_expires :: "('h, unit, 's) openssl \<Rightarrow> nat \<Rightarrow> bytes \<Rightarrow> bool" where
  "fragmented_input_expires ossl n start \<longleftrightarrow>
     (let env = \<lparr>instant = (\<lambda>i. 50 * i), wall = (\<lambda>i. 0), active = (\<lambda>i. Some (test_config ()))\<rparr>
      in fst (handle_connection_until ossl env 500 0 (session_start ossl)
           \<lparr>k_reads = trickle start n, k_writes = [], k_sent = [], k_log = [], k_ticks = 0\<rparr>) =
         Inl (Reading Timed_Out))"

definition test_fragmented_length_and_payload_expire :: "('h, unit, 's) openssl \<Rightarrow> bool" where
  "test_fragmented_length_and_payload_expire ossl \<longleftrightarrow>
     list_all (fragmented_input_expires ossl 20) [[NUL], [NUL, NUL, CHR 0x04, NUL, CHR ''B'']]"

lemma fragmented_length_and_payload_expire: "test_fragmented_length_and_payload_expire sample_openssl"
  by code_simp

text \<open>The peer takes \<open>n\<close> bytes and then stops reading; the next write fails with \<open>e\<close> when its
  timeout, what remains until the deadline, is over.\<close>

definition test_stalled_response_expires ::
  "(nat \<Rightarrow> nat) \<Rightarrow> nat \<Rightarrow> nat \<Rightarrow> io_error \<Rightarrow> bool" where
  "test_stalled_response_expires clock deadline n e \<longleftrightarrow>
     (case write_packet (conn_writer clock deadline) CHR ''h'' (replicate (16 * 1024 * 1024) CHR ''x'')
         \<lparr>k_reads = [], k_writes = [Takes n, Write_Fails e], k_sent = [], k_log = [], k_ticks = 0\<rparr> of
        (r, c) \<Rightarrow> (case r of Inl _ \<Rightarrow> True | Inr _ \<Rightarrow> False) \<and> 6 \<le> length (k_sent c) \<and> k_sent c ! 4 = CHR ''h'')"

lemma stalled_response_expires_after_partial_output:
  assumes "clock 0 < deadline" and "clock 1 < deadline" and "6 \<le> n" and "n < 16 * 1024 * 1024" and "e \<noteq> Interrupted"
  shows "test_stalled_response_expires clock deadline n e"
proof -
  define payload where "payload = replicate (16 * 1024 * 1024) CHR ''x''"
  define bs where "bs = frame (CHR ''h'' # payload)"
  let ?c = "\<lparr>k_reads = [], k_writes = [Takes n, Write_Fails e], k_sent = [], k_log = [], k_ticks = 0\<rparr>"
  let ?c1 = "\<lparr>k_reads = [], k_writes = [Write_Fails e], k_sent = take n bs, k_log = [], k_ticks = 2\<rparr>"
  have len: "length bs = 5 + 16 * 1024 * 1024"
    by (simp add: bs_def payload_def frame_def)
  then have n: "n < length bs" "bs \<noteq> []" "drop n bs \<noteq> []"
    using assms(4) by auto
  have "dc_write clock deadline bs ?c = (Inr n, ?c1)"
    using assms(1,2) n(1)
    by (simp add: dc_write_def within_deadline_def remaining_def bind_act_def socket_write_def
        set_write_timeout_def Let_def)
  then have first: "write_all clock deadline bs ?c = write_all clock deadline (drop n bs) ?c1"
    using n(2) assms(3) by (subst write_all.simps) simp
  obtain x c2 where x: "dc_write clock deadline (drop n bs) ?c1 = (Inl x, c2)" "x \<noteq> Interrupted"
    "k_sent c2 = take n bs"
    using assms(5)
    by (cases "clock 2 < deadline"; cases "clock 3 < deadline")
      (simp_all add: dc_write_def within_deadline_def remaining_def bind_act_def socket_write_def
        set_write_timeout_def Let_def)
  then have "write_all clock deadline bs ?c = (Inl x, c2)"
    using n(3) first by (subst (asm) write_all.simps [of _ _ "drop n bs"]) simp
  then have "write_packet (conn_writer clock deadline) CHR ''h'' payload ?c = (Inl (Write_Error x), c2)"
    by (simp add: write_packet_frame payload_def bs_def conn_writer_def act_simps)
  moreover have "length (k_sent c2) = n" "k_sent c2 ! 4 = CHR ''h''"
    using n(1) x(3) assms(3) by (simp_all add: bs_def frame_def nth_append)
  ultimately show ?thesis
    using assms(3) by (simp add: test_stalled_response_expires_def payload_def)
qed

section \<open>Listening and accepting\<close>

text \<open>The test of \<open>TCP_NODELAY\<close>: the accepted stream after \<open>set_timeouts\<close>.\<close>

definition test_tcp_connections_disable_nagle_delays :: "'c accept_calls \<Rightarrow> bool" where
  "test_tcp_connections_disable_nagle_delays calls \<longleftrightarrow>
     (case set_timeouts calls (Tcp_Stream (ac_stream calls)) of
        (Inr _, Tcp_Stream s) \<Rightarrow> st_nodelay s
      | _ \<Rightarrow> False)"

lemma tcp_connections_disable_nagle_delays:
  assumes "ac_set_nodelay calls = Inr ()" and "ac_set_read_timeout calls = Inr ()" and "ac_set_write_timeout calls = Inr ()"
  shows "test_tcp_connections_disable_nagle_delays calls"
  using assms by (simp add: test_tcp_connections_disable_nagle_delays_def accept_simps)

text \<open>The test of the readiness of a listener: \<open>polls\<close> and \<open>calls\<close> are what the system answers to the calls of \<open>poll\<close> and
  \<open>accept\<close>, first with no connection, then with two in the backlog. The time that has passed is not modelled.\<close>

fun accepts :: "io_error + 'c \<Rightarrow> bool" where
  "accepts (Inr _) = True"
| "accepts (Inl _) = False"

definition test_listener_readiness_wakes_for_backlog ::
  "socket_addr \<Rightarrow> (nat \<Rightarrow> poll_answer list) \<Rightarrow> (nat \<Rightarrow> 'c accept_calls) \<Rightarrow> bool" where
  "test_listener_readiness_wakes_for_backlog address polls calls \<longleftrightarrow>
     (let listener = Tcp_Listener address
      in fst (wait_readable (polls 0)) = Inr False \<and>
         fst (wait_readable (polls 1)) = Inr True \<and>
         accepts (listener_accept listener (calls 0)) \<and>
         fst (wait_readable (polls 2)) = Inr True \<and>
         accepts (listener_accept listener (calls 1)))"

lemma wait_readable_interrupted: "wait_readable (replicate n (Poll_Fails Interrupted) @ ps) = wait_readable ps"
  by (induction n) auto

lemma listener_readiness_wakes_for_backlog:
  assumes "\<And>i. polls i = replicate (interrupts i) (Poll_Fails Interrupted) @ [if i = 0 then Poll_Timeout else Polled True]"
    and "\<And>i. ac_accept (calls i) = Inr (c i) \<and> ac_set_blocking (calls i) = Inr () \<and> ac_set_nodelay (calls i) = Inr () \<and>
      ac_set_read_timeout (calls i) = Inr () \<and> ac_set_write_timeout (calls i) = Inr ()"
  shows "test_listener_readiness_wakes_for_backlog address polls calls"
  using assms
  by (simp add: test_listener_readiness_wakes_for_backlog_def wait_readable_interrupted accept_simps)

end
