(* ===== verification/Tests_Exchange.thy ===== *)
theory Tests_Exchange
  imports Session Tests_Dkim "HOL-Library.Monad_Syntax"
begin

text \<open>
  The scripted exchanges of the unit tests of src/milter.rs: a client writes packets to a connection
  handled by the program and reads its answers. Each test is an executable script in the option
  monad; \<open>None\<close> is a failed assertion, a panic of the handler's thread, or a read that would block
  forever.
\<close>

section \<open>The client\<close>

text \<open>\<open>x_session\<close> is the handler's state, \<open>None\<close> once it has returned; \<open>x_unread\<close> is what it has
  sent and the client has not read yet.\<close>

record ('h, 'k) exchange =
  x_session :: "('h, 'k) session option"
  x_unread :: bytes

definition exchange_start :: "('h, 'k, 's) openssl \<Rightarrow> ('h, 'k) exchange" where
  "exchange_start ossl = \<lparr>x_session = Some (session_start ossl), x_unread = []\<rparr>"

text \<open>The client's packet is handled before the client goes on; the handler's error is a panic.\<close>

definition client_write ::
  "('h, 'k, 's) openssl \<Rightarrow> 'k runtime_config \<Rightarrow> int \<Rightarrow> byte \<Rightarrow> bytes \<Rightarrow> ('h, 'k) exchange
    \<Rightarrow> ('h, 'k) exchange option" where
  "client_write ossl config now command payload x =
     (case x_session x of None \<Rightarrow> None
      | Some s \<Rightarrow>
          (case handle_packet ossl tape_writer (Some config) now (command # payload) s \<lparr>t_sent = [], t_log = []\<rparr> of
             (Inl _, _) \<Rightarrow> None
           | (Inr s, t) \<Rightarrow> Some \<lparr>x_session = s, x_unread = x_unread x @ t_sent t\<rparr>))"

definition client_read :: "('h, 'k) exchange \<Rightarrow> (bytes \<times> ('h, 'k) exchange) option" where
  "client_read x =
     (let len = unat (from_be_bytes (take 4 (x_unread x)))
      in if length (x_unread x) < 4 \<or> len = 0 \<or> MAX_PACKET < len \<or> length (x_unread x) < 4 + len then None
         else Some (take len (drop 4 (x_unread x)), x\<lparr>x_unread := drop (4 + len) (x_unread x)\<rparr>))"

definition ensure :: "bool \<Rightarrow> unit option" where
  "ensure b = (if b then Some () else None)"

definition expect :: "bytes \<Rightarrow> ('h, 'k) exchange \<Rightarrow> ('h, 'k) exchange option" where
  "expect packet x = do { (p, x) \<leftarrow> client_read x; ensure (p = packet); Some x }"

definition expect_command :: "byte \<Rightarrow> ('h, 'k) exchange \<Rightarrow> ('h, 'k) exchange option" where
  "expect_command command x = do { (p, x) \<leftarrow> client_read x; ensure (hd p = command); Some x }"

text \<open>\<open>handle.join()\<close> blocks until the handler has returned.\<close>

definition join_handler :: "('h, 'k) exchange \<Rightarrow> unit option" where
  "join_handler x = ensure (x_session x = None)"

primrec write_packets ::
  "('h, 'k, 's) openssl \<Rightarrow> 'k runtime_config \<Rightarrow> int \<Rightarrow> (byte \<times> bytes) list \<Rightarrow> ('h, 'k) exchange
    \<Rightarrow> ('h, 'k) exchange option" where
  "write_packets ossl config now [] x = Some x"
| "write_packets ossl config now (p # ps) x =
     do { x \<leftarrow> client_write ossl config now (fst p) (snd p) x; write_packets ossl config now ps x }"

definition offer_payload :: "u32 \<Rightarrow> u32 \<Rightarrow> u32 \<Rightarrow> bytes" where
  "offer_payload version actions protocol = to_be_bytes version @ to_be_bytes actions @ to_be_bytes protocol"

definition header_packet :: "bytes \<Rightarrow> bytes \<Rightarrow> bytes" where
  "header_packet name v = name @ [NUL] @ v @ [NUL]"

section \<open>The scripts\<close>

definition test_complete_milter_exchange_adds_signature ::
  "('h, 'k, 's) openssl \<Rightarrow> 'k \<Rightarrow> int \<Rightarrow> unit option" where
  "test_complete_milter_exchange_adds_signature ossl key now =
     (let write = client_write ossl (test_config key) now
      in do {
        x \<leftarrow> write CHR ''O'' (offer_payload 6 (ACTION_ADD_HEADER OR ACTION_CHANGE_HEADER) 0) (exchange_start ossl);
        x \<leftarrow> expect_command CHR ''O'' x;
        x \<leftarrow> write CHR ''D'' (''M{i}'' @ [NUL] @ ''ABC123'' @ [NUL]) x;
        x \<leftarrow> write CHR ''M'' (''<alice@example.com>'' @ [NUL]) x;
        x \<leftarrow> expect ''c'' x;
        x \<leftarrow> write CHR ''L'' (header_packet ''From'' ''Alice <alice@example.com>'') x;
        x \<leftarrow> expect ''c'' x;
        x \<leftarrow> write CHR ''L'' (header_packet ''Subject'' ''milter test'') x;
        x \<leftarrow> expect ''c'' x;
        x \<leftarrow> write CHR ''N'' [] x;
        x \<leftarrow> expect ''c'' x;
        x \<leftarrow> write CHR ''B'' (''hello'' @ CRLF) x;
        x \<leftarrow> expect ''c'' x;
        x \<leftarrow> write CHR ''E'' [] x;
        (action, x) \<leftarrow> client_read x;
        ensure (hd action = CHR ''i'');
        ensure (contains ''DKIM-Signature'' action);
        x \<leftarrow> expect ''a'' x;
        x \<leftarrow> write CHR ''Q'' [] x;
        join_handler x
      })"

text \<open>OpenSSL with a fixed digest and signature.\<close>

definition fixed_openssl :: "(bytes, unit, unit \<times> bytes) openssl" where
  "fixed_openssl = transcript_openssl (\<lambda>m. ''digest'') (\<lambda>k m. Inr ''signature'') (\<lambda>pem. Inr ()) (\<lambda>k. Some 256)"

lemma complete_milter_exchange_adds_signature:
  "test_complete_milter_exchange_adds_signature fixed_openssl () 1700000000 = Some ()"
  by code_simp

definition test_negotiates_no_reply_flags_and_still_replies_at_eom ::
  "('h, 'k, 's) openssl \<Rightarrow> 'k \<Rightarrow> int \<Rightarrow> unit option" where
  "test_negotiates_no_reply_flags_and_still_replies_at_eom ossl key now =
     (let write = client_write ossl (test_config key) now
      in do {
        x \<leftarrow> write CHR ''O'' (offer_payload 6 ACTION_ADD_HEADER SUPPORTED_NO_REPLY) (exchange_start ossl);
        (negotiation, x) \<leftarrow> client_read x;
        ensure (from_be_bytes (take 4 (drop 9 negotiation)) = SUPPORTED_NO_REPLY);
        x \<leftarrow> write_packets ossl (test_config key) now
          [(CHR ''C'', ''localhost'' @ [NUL]),
           (CHR ''H'', ''localhost'' @ [NUL]),
           (CHR ''U'', ''unknown'' @ [NUL]),
           (CHR ''M'', ''<alice@example.com>'' @ [NUL]),
           (CHR ''R'', ''<bob@example.net>'' @ [NUL]),
           (CHR ''T'', []),
           (CHR ''L'', header_packet ''From'' ''alice@example.com''),
           (CHR ''N'', []),
           (CHR ''B'', ''body'' @ CRLF)] x;
        x \<leftarrow> write CHR ''E'' [] x;
        x \<leftarrow> expect_command CHR ''h'' x;
        x \<leftarrow> expect ''a'' x;
        x \<leftarrow> write CHR ''Q'' [] x;
        join_handler x
      })"

lemma negotiates_no_reply_flags_and_still_replies_at_eom:
  "test_negotiates_no_reply_flags_and_still_replies_at_eom fixed_openssl () 1700000000 = Some ()"
  by code_simp

definition test_no_reply_malformed_message_fails_open_and_connection_is_reusable ::
  "('h, 'k, 's) openssl \<Rightarrow> 'k \<Rightarrow> int \<Rightarrow> unit option" where
  "test_no_reply_malformed_message_fails_open_and_connection_is_reusable ossl key now =
     (let write = client_write ossl (test_config key) now
      in do {
        x \<leftarrow> write CHR ''O'' (offer_payload 6 ACTION_ADD_HEADER SUPPORTED_NO_REPLY) (exchange_start ossl);
        x \<leftarrow> expect_command CHR ''O'' x;
        x \<leftarrow> write CHR ''M'' (''<alice@example.com>'' @ [NUL]) x;
        x \<leftarrow> write CHR ''L'' ''malformed-without-nuls'' x;
        x \<leftarrow> write CHR ''B'' (''body'' @ CRLF) x;
        x \<leftarrow> write CHR ''E'' [] x;
        x \<leftarrow> expect ''a'' x;
        x \<leftarrow> write CHR ''M'' (''<alice@example.com>'' @ [NUL]) x;
        x \<leftarrow> write CHR ''L'' (header_packet ''From'' ''alice@example.com'') x;
        x \<leftarrow> write CHR ''B'' (''body'' @ CRLF) x;
        x \<leftarrow> write CHR ''E'' [] x;
        x \<leftarrow> expect_command CHR ''h'' x;
        x \<leftarrow> expect ''a'' x;
        x \<leftarrow> write CHR ''Q'' [] x;
        join_handler x
      })"

lemma no_reply_malformed_message_fails_open_and_connection_is_reusable:
  "test_no_reply_malformed_message_fails_open_and_connection_is_reusable fixed_openssl () 1700000000 = Some ()"
  by code_simp

text \<open>One round of the loop over versions and offers.\<close>

definition partial_offer_round ::
  "('h, 'k, 's) openssl \<Rightarrow> 'k \<Rightarrow> int \<Rightarrow> u32 \<Rightarrow> u32 \<Rightarrow> u32 \<Rightarrow> unit option" where
  "partial_offer_round ossl key now version offered expected =
     (let write = client_write ossl (test_config key) now
      in do {
        x \<leftarrow> write CHR ''O'' (offer_payload version ACTION_ADD_HEADER offered) (exchange_start ossl);
        (negotiation, x) \<leftarrow> client_read x;
        ensure (from_be_bytes (take 4 (drop 9 negotiation)) = expected);
        x \<leftarrow> write CHR ''M'' (''<alice@example.com>'' @ [NUL]) x;
        x \<leftarrow> expect ''c'' x;
        x \<leftarrow> write CHR ''L'' (header_packet ''From'' ''alice@example.com'') x;
        x \<leftarrow> (if expected = 0 then expect ''c'' x else Some x);
        x \<leftarrow> write CHR ''B'' (''body'' @ CRLF) x;
        x \<leftarrow> expect ''c'' x;
        x \<leftarrow> write CHR ''E'' [] x;
        x \<leftarrow> expect_command CHR ''h'' x;
        x \<leftarrow> expect ''a'' x;
        x \<leftarrow> write CHR ''Q'' [] x;
        join_handler x
      })"

definition test_old_protocol_and_partial_offers_keep_required_replies ::
  "('h, 'k, 's) openssl \<Rightarrow> 'k \<Rightarrow> int \<Rightarrow> unit option" where
  "test_old_protocol_and_partial_offers_keep_required_replies ossl key now =
     do {
       partial_offer_round ossl key now 5 SUPPORTED_NO_REPLY 0;
       partial_offer_round ossl key now 6 PROTOCOL_NR_HEADER PROTOCOL_NR_HEADER
     }"

lemma old_protocol_and_partial_offers_keep_required_replies:
  "test_old_protocol_and_partial_offers_keep_required_replies fixed_openssl () 1700000000 = Some ()"
  by code_simp

text \<open>A read whose packet is not looked at.\<close>

definition skip_packet :: "('h, 'k) exchange \<Rightarrow> ('h, 'k) exchange option" where
  "skip_packet x = map_option snd (client_read x)"

definition test_abort_resets_state_and_connection_can_be_reused ::
  "('h, 'k, 's) openssl \<Rightarrow> 'k \<Rightarrow> int \<Rightarrow> unit option" where
  "test_abort_resets_state_and_connection_can_be_reused ossl key now =
     (let write = client_write ossl (test_config key) now
      in do {
        x \<leftarrow> write CHR ''O'' (offer_payload 6 ACTION_ADD_HEADER 0) (exchange_start ossl);
        x \<leftarrow> skip_packet x;
        x \<leftarrow> write CHR ''M'' (''<bad@example.com>'' @ [NUL]) x;
        x \<leftarrow> skip_packet x;
        x \<leftarrow> write CHR ''L'' (header_packet ''From'' ''broken'') x;
        x \<leftarrow> skip_packet x;
        x \<leftarrow> write CHR ''A'' [] x;
        x \<leftarrow> write CHR ''M'' (''<alice@example.com>'' @ [NUL]) x;
        x \<leftarrow> expect ''c'' x;
        x \<leftarrow> write CHR ''L'' (header_packet ''From'' ''alice@example.com'') x;
        x \<leftarrow> skip_packet x;
        x \<leftarrow> write CHR ''B'' (''ok'' @ CRLF) x;
        x \<leftarrow> skip_packet x;
        x \<leftarrow> write CHR ''E'' [] x;
        x \<leftarrow> expect_command CHR ''h'' x;
        x \<leftarrow> expect ''a'' x;
        x \<leftarrow> write CHR ''Q'' [] x;
        join_handler x
      })"

lemma abort_resets_state_and_connection_can_be_reused:
  "test_abort_resets_state_and_connection_can_be_reused fixed_openssl () 1700000000 = Some ()"
  by code_simp

end
