(* ===== verification/Tests_Commands.thy ===== *)
theory Tests_Commands
  imports Report Tests_Program Tests_Dkim
begin

text \<open>
  The integration tests src/tests/keygen.rs and src/tests/fips.rs, which run the program as a command, as
  executable predicates over the command's output and exit status. A process starts with \<open>TEMP_SEQUENCE\<close> at zero; the
  temporary directory, the process ids, the texts of the operating system's errors and the system's FIPS status
  are arguments.
\<close>

section \<open>src/tests/keygen.rs\<close>

definition generate_command :: "bytes \<Rightarrow> bytes \<Rightarrow> bytes list \<Rightarrow> bytes list" where
  "generate_command selector key_path options =
     [''dkim-lite'', ''generate-key'', ''--domain'', ''example.com'', ''--selector'', selector,
      ''--private-key'', key_path] @ options"

text \<open>A new process on the file system as it is.\<close>

definition run_process ::
  "('h, 'k, 's) openssl \<Rightarrow> ('c, 'k) rsa_keygen \<Rightarrow> system \<Rightarrow> (nat \<Rightarrow> nat) \<Rightarrow> nat \<Rightarrow> bytes list
    \<Rightarrow> (fs_world, run_error, run_result) act" where
  "run_process ossl kg sys umask pid args w =
     run ossl kg sys (\<lambda>_. False) None (\<lambda>_ _. ok ()) umask pid args (w\<lparr>f_sequence := 0\<rparr>)"

text \<open>\<open>Command::output\<close> of the compiled program.\<close>

definition command_output ::
  "texts \<Rightarrow> ('h, 'k, 's) openssl \<Rightarrow> ('c, 'k) rsa_keygen \<Rightarrow> system \<Rightarrow> (nat \<Rightarrow> nat) \<Rightarrow> nat \<Rightarrow> bytes list \<Rightarrow> fs_world
    \<Rightarrow> process_output \<times> fs_world" where
  "command_output tx ossl kg sys umask pid args w = apfst (main_output tx) (run_process ossl kg sys umask pid args w)"

text \<open>A file that only its owner may read and write, with a key of 2048 bits.\<close>

definition key_installed :: "('h, 'k, 's) openssl \<Rightarrow> node option \<Rightarrow> bool" where
  "key_installed ossl file \<longleftrightarrow>
     (case file of
        Some (Regular mode contents) \<Rightarrow>
          mode mod (8 * 8 * 8) = 6 * 8 * 8 \<and>
          (case private_key_from_pem ossl contents of
             Inr key \<Rightarrow> map_option (\<lambda>n. n * 8) (rsa_size ossl key) = Some 2048
           | Inl _ \<Rightarrow> False)
      | _ \<Rightarrow> False)"

definition test_command_generates_key_and_refuses_overwrite ::
  "texts \<Rightarrow> ('h, 'k, 's) openssl \<Rightarrow> ('c, 'k) rsa_keygen \<Rightarrow> system \<Rightarrow> (nat \<Rightarrow> nat) \<Rightarrow> nat \<Rightarrow> nat \<Rightarrow> bytes \<Rightarrow> bool" where
  "test_command_generates_key_and_refuses_overwrite tx ossl kg sys umask pid pid' directory \<longleftrightarrow>
     (let key_path = directory @ ''/mail.pem'';
          arguments = generate_command ''mail2026'' key_path [''--require-fips'', ''false''];
          (output, w) = command_output tx ossl kg sys umask pid arguments (test_directory directory);
          (second, w') = command_output tx ossl kg sys umask pid' arguments w
      in out_success output \<and>
         contains ''generated 2048-bit RSA private key'' (out_stdout output) \<and>
         contains ''mail2026._domainkey.example.com. IN TXT'' (out_stdout output) \<and>
         key_installed ossl (f_files w (path_components key_path)) \<and>
         \<not> out_success second \<and> contains ''refusing to overwrite'' (out_stderr second))"

lemma run_process_generate:
  assumes "parse_args args = Inr (Generate_Key options)"
  shows "run_process ossl kg sys umask pid args w =
    bind_act (map_err (Key_Generation (go_private_key options))
      (generate ossl kg (sys_check_fips sys (go_require_fips options)) umask pid options))
      (\<lambda>generated. ok (Printed_Key generated)) (w\<lparr>f_sequence := 0\<rparr>)"
  by (simp add: run_process_def run_def assms)

lemma no_fips_required: "sys_check_fips sys False = Inr ()"
  by (simp add: sys_check_fips_def check_fips_environment_def check_fips_environment_with_def)

definition generate_command_options :: "bytes \<Rightarrow> bytes \<Rightarrow> bool \<Rightarrow> generate_options" where
  "generate_command_options selector key_path fips =
     \<lparr>go_domain = ''example.com'', go_selector = selector, go_private_key = key_path, go_bits = 2048,
      go_require_fips = fips\<rparr>"

lemma parse_generate_command:
  "parse_args (generate_command selector key_path [''--require-fips'', ''false'']) =
     Inr (Generate_Key (generate_command_options selector key_path False))"
  "parse_args (generate_command selector key_path [''--require-fips'', ''true'']) =
     Inr (Generate_Key (generate_command_options selector key_path True))"
  "parse_args (generate_command selector key_path []) =
     Inr (Generate_Key (generate_command_options selector key_path True))"
  by (simp_all add: generate_command_def generate_command_options_def parse_args_def generate_option_def
      generate_draft_empty_def finish_generate_args_def and_then_def ok_or_def)

lemma command_generates_key_and_refuses_overwrite:
  "test_command_generates_key_and_refuses_overwrite tx sample_openssl sample_keygen sys (\<lambda>m. m) 7 8 ''/tmp/k''"
proof -
  let ?options = "generate_command_options ''mail2026'' (''/tmp/k'' @ ''/mail.pem'') False"
  have "case generate sample_openssl sample_keygen (Inr ()) (\<lambda>m. m) 7 ?options
        ((test_directory ''/tmp/k'')\<lparr>f_sequence := 0\<rparr>) of
      (Inr generated, w) \<Rightarrow>
        contains ''generated 2048-bit RSA private key'' (run_stdout (Printed_Key generated)) \<and>
        contains ''mail2026._domainkey.example.com. IN TXT'' (run_stdout (Printed_Key generated)) \<and>
        key_installed sample_openssl (f_files w (path_components (''/tmp/k'' @ ''/mail.pem''))) \<and>
        fst (generate sample_openssl sample_keygen (Inr ()) (\<lambda>m. m) 8 ?options (w\<lparr>f_sequence := 0\<rparr>)) =
          Inl (Would_Overwrite (path_components (''/tmp/k'' @ ''/mail.pem'')))
    | (Inl _, _) \<Rightarrow> False"
    by code_simp
  moreover have "go_require_fips ?options = False" "go_private_key ?options = ''/tmp/k'' @ ''/mail.pem''"
    by (simp_all add: generate_command_options_def)
  moreover have "contains ''refusing to overwrite''
      (log_prefix @ (''refusing to overwrite '' @ (''/tmp/k'' @ ''/mail.pem'')) @ [LF])"
    by code_simp
  ultimately show ?thesis
    unfolding test_command_generates_key_and_refuses_overwrite_def Let_def
    by (auto simp: command_output_def main_output_def run_process_generate [OF parse_generate_command(1)] no_fips_required
        act_simps simp del: run_stdout.simps split: prod.splits sum.splits)
qed

section \<open>src/tests/fips.rs\<close>

text \<open>The generation of a key with FIPS required, by default or explicitly, succeeds exactly if the
  environment's check does, and leaves no key otherwise.\<close>

definition fips_generate_round ::
  "texts \<Rightarrow> ('h, 'k, 's) openssl \<Rightarrow> ('c, 'k) rsa_keygen \<Rightarrow> system \<Rightarrow> (nat \<Rightarrow> nat) \<Rightarrow> nat \<Rightarrow> bytes \<Rightarrow> bool \<Rightarrow> bool" where
  "fips_generate_round tx ossl kg sys umask pid directory explicit \<longleftrightarrow>
     (let expected = sys_check_fips sys True;
          key = directory @ ''/generated-'' @ (if explicit then ''true'' else ''false'') @ ''.pem'';
          (output, w) = command_output tx ossl kg sys umask pid
            (generate_command ''test'' key (if explicit then [''--require-fips'', ''true''] else []))
            (test_directory directory)
      in out_success output = is_ok expected \<and>
         fst (fs_exists (path_components key) w) = is_ok expected \<and>
         (case expected of
            Inl e \<Rightarrow> contains (config_error_text tx e) (out_stderr output) \<and> out_stdout output = []
          | Inr _ \<Rightarrow> True))"

text \<open>The configuration check with a policy line appended, on a directory that holds a key.\<close>

definition fips_check_round ::
  "texts \<Rightarrow> ('h, 'k, 's) openssl \<Rightarrow> ('c, 'k) rsa_keygen \<Rightarrow> system \<Rightarrow> bytes \<Rightarrow> (nat \<Rightarrow> nat) \<Rightarrow> nat \<Rightarrow> bytes \<Rightarrow> bytes \<Rightarrow> bool" where
  "fips_check_round tx ossl kg sys original umask pid directory policy \<longleftrightarrow>
     (let expected = sys_check_fips sys True;
          key = directory @ ''/existing.pem''; config = directory @ ''/signer.conf''; socket = directory @ ''/signer.sock'';
          base = ''domain=example.com'' @ [LF] @ ''selector=test'' @ [LF] @ ''private_key='' @ key @ [LF] @
            ''listen=unix:'' @ socket @ [LF];
          sys' = sys\<lparr>sys_read := (\<lambda>p. if p = config then Inr (base @ policy)
            else if p = key then Inr original else sys_read sys p)\<rparr>;
          w0 = (test_directory directory)\<lparr>f_files := [path_components directory \<mapsto> Directory,
            path_components key \<mapsto> Regular key_mode original]\<rparr>;
          (output, w) = command_output tx ossl kg sys' umask pid
            [''dkim-lite'', ''--check-config'', ''--config'', config] w0;
          should_succeed = (policy = ''require_fips=false'' @ [LF] \<or> is_ok expected)
      in out_success output = should_succeed \<and>
         (case expected of
            Inl e \<Rightarrow> should_succeed \<or> contains (config_error_text tx e) (out_stderr output) | Inr _ \<Rightarrow> True) \<and>
         f_files w (path_components key) = Some (Regular key_mode original) \<and>
         \<not> fst (fs_exists (path_components socket) w))"

definition test_required_fips_cli_matches_environment_and_preserves_files_on_failure ::
  "texts \<Rightarrow> ('h, 'k, 's) openssl \<Rightarrow> ('c, 'k) rsa_keygen \<Rightarrow> system \<Rightarrow> bytes \<Rightarrow> (nat \<Rightarrow> nat) \<Rightarrow> nat \<Rightarrow> bytes \<Rightarrow> bool" where
  "test_required_fips_cli_matches_environment_and_preserves_files_on_failure tx ossl kg sys original umask pid directory \<longleftrightarrow>
     (let kernel_confirmed = (case read_to_string (sys_read sys) ''/proc/sys/crypto/fips_enabled'' of
            Inr v \<Rightarrow> trim v = ''1'' | Inl _ \<Rightarrow> False)
      in (kernel_confirmed \<or> is_err (sys_check_fips sys True)) \<and>
         list_all (fips_generate_round tx ossl kg sys umask pid directory) [False, True] \<and>
         list_all (fips_check_round tx ossl kg sys original umask pid directory)
           [[], ''require_fips=true'' @ [LF], ''require_fips=false'' @ [LF]])"

lemma contains_infix: "contains p (a @ p @ s)"
proof (induction a)
  case Nil
  show ?case
    using starts_with_append [of p s] by (cases "p @ s") (simp_all add: contains_def del: starts_with_append)
qed (simp add: contains_def)

lemma parse_fips_command:
  "parse_args (generate_command ''test'' key (if explicit then [''--require-fips'', ''true''] else [])) =
     Inr (Generate_Key (generate_command_options ''test'' key True))"
  by (cases explicit) (simp_all only: if_True if_False parse_generate_command)

lemma fips_generate_round:
  "fips_generate_round tx sample_openssl sample_keygen sys (\<lambda>m. m) 7 ''/tmp/k'' explicit"
proof -
  let ?key = "''/tmp/k'' @ ''/generated-'' @ (if explicit then ''true'' else ''false'') @ ''.pem''"
  have made: "case generate sample_openssl sample_keygen (Inr ()) (\<lambda>m. m) 7 (generate_command_options ''test'' ?key True)
        ((test_directory ''/tmp/k'')\<lparr>f_sequence := 0\<rparr>) of
      (Inr _, w) \<Rightarrow> fst (fs_exists (path_components ?key) w) | (Inl _, _) \<Rightarrow> False"
    by (cases explicit) (simp_all only: if_True if_False, code_simp+)
  have free: "\<not> fst (fs_exists (path_components ?key) ((test_directory ''/tmp/k'')\<lparr>f_sequence := 0\<rparr>))"
    by (cases explicit) (simp_all only: if_True if_False, code_simp+)
  have fips: "go_require_fips (generate_command_options ''test'' key True)" for key
    by (simp add: generate_command_options_def)
  show ?thesis
  proof (cases "sys_check_fips sys True")
    case (Inl e)
    then show ?thesis
      unfolding fips_generate_round_def Let_def command_output_def run_process_generate [OF parse_fips_command]
      using free fips by (simp add: generate_def and_then_def act_simps command_output_def main_output_def contains_infix)
  next
    case (Inr u)
    then show ?thesis
      unfolding fips_generate_round_def Let_def command_output_def run_process_generate [OF parse_fips_command]
      using made fips by (auto simp: act_simps command_output_def main_output_def split: prod.splits sum.splits split del: if_split)
  qed
qed

text \<open>What the three policies load.\<close>

definition fips_config_base :: bytes where
  "fips_config_base = ''domain=example.com'' @ [LF] @ ''selector=test'' @ [LF] @ ''private_key=/tmp/k/existing.pem'' @ [LF] @
     ''listen=unix:/tmp/k/signer.sock'' @ [LF]"

definition fips_config :: "bool \<Rightarrow> unit runtime_config" where
  "fips_config fips =
     \<lparr>cfg_domain = ''example.com'', cfg_selector = ''test'', cfg_private_key = ''/tmp/k/existing.pem'',
      cfg_listen = Unix_Addr ''/tmp/k/signer.sock'', cfg_require_fips = fips, cfg_key = ()\<rparr>"

definition fips_draft :: "bool \<Rightarrow> bytes \<Rightarrow> bool" where
  "fips_draft fips policy \<longleftrightarrow>
     utf8_valid (fips_config_base @ policy) \<and>
     (case load_lines 1 (str_lines (fips_config_base @ policy)) empty_draft of
        Inr d \<Rightarrow> d_domain d = Some ''example.com'' \<and> d_selector d = Some ''test'' \<and>
          d_private_key d = Some ''/tmp/k/existing.pem'' \<and> d_listen d = Some (Unix_Addr ''/tmp/k/signer.sock'') \<and>
          d_require_fips d = fips
      | Inl e \<Rightarrow> False)"

lemma fips_drafts:
  "fips_draft True []" "fips_draft True (''require_fips=true'' @ [LF])" "fips_draft False (''require_fips=false'' @ [LF])"
  by code_simp+

lemma fips_config_loads:
  assumes "rd ''/tmp/k/signer.conf'' = Inr (fips_config_base @ policy)" and "rd ''/tmp/k/existing.pem'' = Inr ''PEM''"
    and "fips_draft fips policy"
  shows "load sample_openssl rd ''/tmp/k/signer.conf'' = Inr (fips_config fips)"
proof -
  have "validate_key sample_openssl () = Inr ()" "private_key_from_pem sample_openssl ''PEM'' = Inr ()"
    "starts_with ''/'' ''/tmp/k/existing.pem''"
    by code_simp+
  with assms show ?thesis
    by (auto simp: load_def read_to_string_def fips_draft_def finish_load_def fips_config_def ok_or_def and_then_def
        split: sum.splits)
qed

lemma fips_check_round:
  assumes "fips_draft fips policy" and "fips \<longleftrightarrow> policy \<noteq> ''require_fips=false'' @ [LF]"
  shows "fips_check_round tx sample_openssl sample_keygen sys ''PEM'' (\<lambda>m. m) 7 ''/tmp/k'' policy"
proof -
  let ?sys = "sys\<lparr>sys_read := (\<lambda>p. if p = ''/tmp/k/signer.conf'' then Inr (fips_config_base @ policy)
    else if p = ''/tmp/k/existing.pem'' then Inr ''PEM'' else sys_read sys p)\<rparr>"
  have load: "load sample_openssl (sys_read ?sys) ''/tmp/k/signer.conf'' = Inr (fips_config fips)"
    by (rule fips_config_loads [OF _ _ assms(1)]) simp_all
  have check: "sys_check_fips ?sys True = sys_check_fips sys True"
    by (simp add: sys_check_fips_def check_fips_environment_def read_to_string_def)
  have paths: "path_components ''/tmp/k/signer.sock'' \<noteq> path_components ''/tmp/k''"
    "path_components ''/tmp/k/signer.sock'' \<noteq> path_components ''/tmp/k/existing.pem''"
    "path_components ''/tmp/k/existing.pem'' \<noteq> path_components ''/tmp/k''"
    by code_simp+
  have run: "run_process sample_openssl sample_keygen ?sys umask pid
      [''dkim-lite'', ''--check-config'', ''--config'', ''/tmp/k/signer.conf''] w =
      (and_then (map_sum Configuration id (sys_check_fips ?sys fips)) (\<lambda>_. Inr Configuration_Valid), w\<lparr>f_sequence := 0\<rparr>)"
    for umask pid w
    using load
    by (simp add: run_process_def run_def parse_args_def run_daemon_def fips_config_def and_then_def act_simps
        split: sum.split)
  have base: "''domain=example.com'' @ [LF] @ ''selector=test'' @ [LF] @ ''private_key='' @ (''/tmp/k'' @ ''/existing.pem'') @ [LF] @
      ''listen=unix:'' @ (''/tmp/k'' @ ''/signer.sock'') @ [LF] = fips_config_base"
    by (simp add: fips_config_base_def)
  have names: "''/tmp/k'' @ ''/signer.conf'' = ''/tmp/k/signer.conf''" "''/tmp/k'' @ ''/existing.pem'' = ''/tmp/k/existing.pem''"
    "''/tmp/k'' @ ''/signer.sock'' = ''/tmp/k/signer.sock''"
    by simp_all
  show ?thesis
    unfolding fips_check_round_def Let_def base unfolding names command_output_def run
    using paths assms(2) check no_fips_required [of ?sys]
    by (cases fips; cases "sys_check_fips sys True")
      (simp_all add: and_then_def main_output_def contains_infix test_directory_def fs_exists_def enter_call_def)
qed

lemma required_fips_cli_matches_environment_and_preserves_files_on_failure:
  "test_required_fips_cli_matches_environment_and_preserves_files_on_failure tx sample_openssl sample_keygen sys ''PEM''
     (\<lambda>m. m) 7 ''/tmp/k''"
proof -
  have "(case read_to_string (sys_read sys) ''/proc/sys/crypto/fips_enabled'' of Inr v \<Rightarrow> trim v = ''1'' | Inl _ \<Rightarrow> False) \<or>
      is_err (sys_check_fips sys True)"
    by (auto simp: sys_check_fips_def check_fips_environment_def check_fips_environment_with_def split: sum.splits)
  then show ?thesis
    unfolding test_required_fips_cli_matches_environment_and_preserves_files_on_failure_def Let_def
    using fips_generate_round fips_check_round [OF fips_drafts(1)] fips_check_round [OF fips_drafts(2)]
      fips_check_round [OF fips_drafts(3)] by simp
qed

end
