(* ===== verification/Tests_Daemon.thy ===== *)
theory Tests_Daemon
  imports Tests_Exchange Daemon Tests_Program
begin

text \<open>
  The integration test \<open>unix_listener_reload_is_atomic_and_restartable\<close> of src/tests/daemon.rs as an executable script:
  a daemon is started, a client sends messages over one connection while the configuration file is rewritten and SIGHUP
  is sent, and the daemon is started again on the socket that the first left behind.

  The script composes \<open>load\<close>, \<open>Listener::bind\<close>, the monitor's \<open>reload\<close> and the connection's handler as the running
  daemon does; the sleeps of the test are taken to be long enough for the monitor to have reloaded. That SIGTERM ends
  the daemon is the theorem \<open>process_ends_on_signal\<close> of the theory \<open>Process\<close>.
\<close>

section \<open>The client\<close>

text \<open>\<open>response\<close>.\<close>

definition daemon_response :: "('h, 'k) exchange \<Rightarrow> (bytes \<times> ('h, 'k) exchange) option" where
  "daemon_response x =
     (let len = unat (from_be_bytes (take 4 (x_unread x)))
      in if length (x_unread x) < 4 \<or> length (x_unread x) < 4 + len then None
         else Some (take len (drop 4 (x_unread x)), x\<lparr>x_unread := drop (4 + len) (x_unread x)\<rparr>))"

definition respond :: "bytes \<Rightarrow> ('h, 'k) exchange \<Rightarrow> ('h, 'k) exchange option" where
  "respond packet x = do { (p, x) \<leftarrow> daemon_response x; ensure (p = packet); Some x }"

text \<open>\<open>header\<close>, \<open>begin\<close> and \<open>finish\<close>; \<open>config\<close> is what the daemon's lock holds meanwhile.\<close>

definition daemon_header ::
  "('h, 'k, 's) openssl \<Rightarrow> 'k runtime_config \<Rightarrow> int \<Rightarrow> bytes \<Rightarrow> bytes \<Rightarrow> ('h, 'k) exchange \<Rightarrow> ('h, 'k) exchange option" where
  "daemon_header ossl config now name v x =
     do { x \<leftarrow> client_write ossl config now CHR ''L'' (header_packet name v) x; respond ''c'' x }"

definition daemon_mail ::
  "('h, 'k, 's) openssl \<Rightarrow> 'k runtime_config \<Rightarrow> int \<Rightarrow> ('h, 'k) exchange \<Rightarrow> ('h, 'k) exchange option" where
  "daemon_mail ossl config now x =
     do { x \<leftarrow> client_write ossl config now CHR ''M'' (''<alice@example.com>'' @ [NUL]) x; respond ''c'' x }"

definition daemon_begin ::
  "('h, 'k, 's) openssl \<Rightarrow> 'k runtime_config \<Rightarrow> int \<Rightarrow> ('h, 'k) exchange \<Rightarrow> ('h, 'k) exchange option" where
  "daemon_begin ossl config now x =
     do {
       x \<leftarrow> daemon_mail ossl config now x;
       x \<leftarrow> daemon_header ossl config now ''From'' ''Alice <alice@example.com>'' x;
       daemon_header ossl config now ''Subject'' ''daemon integration'' x
     }"

definition daemon_finish ::
  "('h, 'k, 's) openssl \<Rightarrow> 'k runtime_config \<Rightarrow> int \<Rightarrow> bytes \<Rightarrow> ('h, 'k) exchange \<Rightarrow> ('h, 'k) exchange option" where
  "daemon_finish ossl config now selector x =
     do {
       x \<leftarrow> client_write ossl config now CHR ''B'' (''body'' @ CRLF) x;
       x \<leftarrow> respond ''c'' x;
       x \<leftarrow> client_write ossl config now CHR ''E'' [] x;
       (action, x) \<leftarrow> daemon_response x;
       ensure (hd action = CHR ''i'');
       x \<leftarrow> respond ''a'' x;
       ensure (contains (''s='' @ selector @ '';'') action);
       Some x
     }"

definition daemon_negotiate ::
  "('h, 'k, 's) openssl \<Rightarrow> 'k runtime_config \<Rightarrow> int \<Rightarrow> ('h, 'k) exchange option" where
  "daemon_negotiate ossl config now =
     do {
       x \<leftarrow> client_write ossl config now CHR ''O'' (offer_payload 6 17 0) (exchange_start ossl);
       (p, x) \<leftarrow> daemon_response x;
       ensure (hd p = CHR ''O'');
       Some x
     }"

section \<open>The daemon and its files\<close>

text \<open>\<open>write_config\<close>, with the policy of the last line.\<close>

definition config_text :: "bytes \<Rightarrow> bytes \<Rightarrow> bytes \<Rightarrow> bytes \<Rightarrow> bytes" where
  "config_text socket key selector policy =
     ''domain=example.com'' @ [LF] @ ''selector='' @ selector @ [LF] @ ''private_key='' @ key @ [LF] @
     ''listen=unix:'' @ socket @ [LF] @ ''require_fips='' @ policy @ [LF]"

definition system_with :: "system \<Rightarrow> (bytes \<rightharpoonup> bytes) \<Rightarrow> system" where
  "system_with sys files =
     \<lparr>sys_read = (\<lambda>p. case files p of Some bs \<Rightarrow> Inr bs | None \<Rightarrow> sys_read sys p),
      sys_default_properties = sys_default_properties sys, sys_fips_mode = sys_fips_mode sys\<rparr>"

text \<open>The start of a daemon until it listens: the configuration it serves, and the socket it leaves in the file
  system.\<close>

definition daemon_start ::
  "('h, 'k, 's) openssl \<Rightarrow> system \<Rightarrow> (nat \<Rightarrow> nat) \<Rightarrow> bytes \<Rightarrow> fs_world \<Rightarrow> ('k runtime_config \<times> fs_world) option" where
  "daemon_start ossl sys umask path w =
     (case load ossl (sys_read sys) path of Inl _ \<Rightarrow> None
      | Inr initial \<Rightarrow>
          do {
            ensure (sys_check_fips sys (cfg_require_fips initial) = Inr ());
            (case listener_bind umask (\<lambda>_. Inr ()) (Inr ()) (cfg_listen initial) w of
               (Inr _, w) \<Rightarrow> Some (initial, w)
             | (Inl _, _) \<Rightarrow> None)
          })"

definition sighup :: "('h, 'k, 's) openssl \<Rightarrow> system \<Rightarrow> bytes \<Rightarrow> 'k runtime_config \<Rightarrow> 'k runtime_config option" where
  "sighup ossl sys path config = fst (reload ossl sys path (Some config))"

text \<open>The messages before the test of the FIPS policy: one begun before the reload and finished after it, one of the new
  configuration, one from another domain, and one with a comment in its From field.\<close>

definition reload_messages ::
  "('h, 'k, 's) openssl \<Rightarrow> system \<Rightarrow> bytes \<Rightarrow> int \<Rightarrow> 'k runtime_config \<Rightarrow> (('h, 'k) exchange \<times> 'k runtime_config) option" where
  "reload_messages ossl sys path now one =
     do {
       x \<leftarrow> daemon_negotiate ossl one now;
       x \<leftarrow> daemon_begin ossl one now x;
       two \<leftarrow> sighup ossl sys path one;
       x \<leftarrow> daemon_finish ossl two now ''one'' x;
       x \<leftarrow> daemon_begin ossl two now x;
       x \<leftarrow> daemon_finish ossl two now ''two'' x;
       x \<leftarrow> daemon_mail ossl two now x;
       x \<leftarrow> daemon_header ossl two now ''From'' ''attacker@other.test (note <user@example.com>)'' x;
       x \<leftarrow> client_write ossl two now CHR ''E'' [] x;
       x \<leftarrow> respond ''a'' x;
       x \<leftarrow> daemon_mail ossl two now x;
       x \<leftarrow> daemon_header ossl two now ''From'' ''alice@example.com (note <other@other.test>)'' x;
       x \<leftarrow> daemon_finish ossl two now ''two'' x;
       Some (x, two)
     }"

text \<open>A message under what SIGHUP makes of the configuration.\<close>

definition rejected_message ::
  "('h, 'k, 's) openssl \<Rightarrow> system \<Rightarrow> bytes \<Rightarrow> int \<Rightarrow> 'k runtime_config \<Rightarrow> ('h, 'k) exchange \<Rightarrow> ('h, 'k) exchange option" where
  "rejected_message ossl sys path now two x =
     do {
       config \<leftarrow> sighup ossl sys path two;
       x \<leftarrow> daemon_begin ossl config now x;
       daemon_finish ossl config now ''two'' x
     }"

definition quit_client ::
  "('h, 'k, 's) openssl \<Rightarrow> 'k runtime_config \<Rightarrow> int \<Rightarrow> ('h, 'k) exchange \<Rightarrow> ('h, 'k) exchange option" where
  "quit_client ossl config now x = client_write ossl config now CHR ''Q'' [] x"

definition test_unix_listener_reload_is_atomic_and_restartable ::
  "('h, 'k, 's) openssl \<Rightarrow> system \<Rightarrow> (nat \<Rightarrow> nat) \<Rightarrow> int \<Rightarrow> bytes \<Rightarrow> bytes \<Rightarrow> bytes \<Rightarrow> unit option" where
  "test_unix_listener_reload_is_atomic_and_restartable ossl sys umask now pem1 pem2 directory =
     (let socket = directory @ ''/milter.sock''; path = directory @ ''/dkim-lite.conf'';
          key1 = directory @ ''/one.pem''; key2 = directory @ ''/two.pem'';
          with_config = (\<lambda>text. system_with sys [key1 \<mapsto> pem1, key2 \<mapsto> pem2, path \<mapsto> text]);
          sys1 = with_config (config_text socket key1 ''one'' ''false'');
          sys2 = with_config (config_text socket key2 ''two'' ''false'');
          sys3 = with_config (config_text socket key1 ''rejected'' ''true'')
      in do {
        (one, w) \<leftarrow> daemon_start ossl sys1 umask path (test_directory directory);
        ensure (fst (fs_exists (path_components socket) w));
        (x, two) \<leftarrow> reload_messages ossl sys2 path now one;
        x \<leftarrow> (if is_err (sys_check_fips sys True) then rejected_message ossl sys3 path now two x else Some x);
        x \<leftarrow> quit_client ossl two now x;
        (restarted, w) \<leftarrow> daemon_start ossl sys2 umask path w;
        y \<leftarrow> daemon_negotiate ossl restarted now;
        y \<leftarrow> quit_client ossl restarted now y;
        ensure (x_session x = None \<and> x_session y = None)
      })"

section \<open>The test passes\<close>

definition reload_system :: "system \<Rightarrow> bytes \<Rightarrow> bytes \<Rightarrow> bytes \<Rightarrow> system" where
  "reload_system sys key selector policy =
     system_with sys [''/tmp/k/one.pem'' \<mapsto> ''PEM 1'', ''/tmp/k/two.pem'' \<mapsto> ''PEM 2'',
       ''/tmp/k/dkim-lite.conf'' \<mapsto> config_text ''/tmp/k/milter.sock'' key selector policy]"

definition reload_config :: "bytes \<Rightarrow> bytes \<Rightarrow> unit runtime_config" where
  "reload_config key selector =
     \<lparr>cfg_domain = ''example.com'', cfg_selector = selector, cfg_private_key = key,
      cfg_listen = Unix_Addr ''/tmp/k/milter.sock'', cfg_require_fips = False, cfg_key = ()\<rparr>"

abbreviation "system_one sys \<equiv> reload_system sys ''/tmp/k/one.pem'' ''one'' ''false''"
abbreviation "system_two sys \<equiv> reload_system sys ''/tmp/k/two.pem'' ''two'' ''false''"
abbreviation "system_rejected sys \<equiv> reload_system sys ''/tmp/k/one.pem'' ''rejected'' ''true''"
abbreviation "config_one \<equiv> reload_config ''/tmp/k/one.pem'' ''one''"
abbreviation "config_two \<equiv> reload_config ''/tmp/k/two.pem'' ''two''"

lemma reload_starts:
  "case daemon_start fixed_openssl (system_one sys) (\<lambda>m. m) ''/tmp/k/dkim-lite.conf'' (test_directory ''/tmp/k'') of
     Some (c, w) \<Rightarrow> c = config_one \<and> fst (fs_exists (path_components ''/tmp/k/milter.sock'') w) \<and>
       (case daemon_start fixed_openssl (system_two sys) (\<lambda>m. m) ''/tmp/k/dkim-lite.conf'' w of
          Some (c', _) \<Rightarrow> c' = config_two | None \<Rightarrow> False)
   | None \<Rightarrow> False"
  by code_simp

text \<open>The connection between messages.\<close>

definition idle_exchange :: "(bytes, unit) exchange" where
  "idle_exchange =
     \<lparr>x_session = Some \<lparr>s_state = ms_default fixed_openssl, s_actions = 17, s_protocol = 0\<rparr>, x_unread = []\<rparr>"

lemma idle_start: "daemon_negotiate fixed_openssl config 1700000000 = Some idle_exchange"
  and idle_quit: "map_option x_session (quit_client fixed_openssl config 1700000000 idle_exchange) = Some None"
  by code_simp+

lemma sighup_two: "sighup fixed_openssl (system_two sys) ''/tmp/k/dkim-lite.conf'' config_one = Some config_two"
  by code_simp

text \<open>The message that the reload interrupts is signed as it began, the next as the reload says.\<close>

lemma reload_message_one:
  "do { x \<leftarrow> daemon_begin fixed_openssl config_one 1700000000 idle_exchange;
        daemon_finish fixed_openssl config_two 1700000000 ''one'' x } = Some idle_exchange"
  by code_simp

lemma reload_message_two:
  "do { x \<leftarrow> daemon_begin fixed_openssl config_two 1700000000 idle_exchange;
        daemon_finish fixed_openssl config_two 1700000000 ''two'' x } = Some idle_exchange"
  by code_simp

lemma reload_message_ineligible:
  "do { x \<leftarrow> daemon_mail fixed_openssl config_two 1700000000 idle_exchange;
        x \<leftarrow> daemon_header fixed_openssl config_two 1700000000 ''From'' ''attacker@other.test (note <user@example.com>)'' x;
        x \<leftarrow> client_write fixed_openssl config_two 1700000000 CHR ''E'' [] x;
        respond ''a'' x } = Some idle_exchange"
  by code_simp

lemma reload_message_comment:
  "do { x \<leftarrow> daemon_mail fixed_openssl config_two 1700000000 idle_exchange;
        x \<leftarrow> daemon_header fixed_openssl config_two 1700000000 ''From'' ''alice@example.com (note <other@other.test>)'' x;
        daemon_finish fixed_openssl config_two 1700000000 ''two'' x } = Some idle_exchange"
  by code_simp

lemma reload_serves:
  "reload_messages fixed_openssl (system_two sys) ''/tmp/k/dkim-lite.conf'' 1700000000 config_one =
     Some (idle_exchange, config_two)"
  using reload_message_one reload_message_two reload_message_ineligible reload_message_comment
  by (auto simp: reload_messages_def idle_start sighup_two bind_eq_Some_conv)

text \<open>The rejected reload: FIPS is required, and the check that failed for the test fails for the daemon.\<close>

lemma reload_rejected:
  assumes "is_err (sys_check_fips sys True)"
  shows "sighup fixed_openssl (system_rejected sys) ''/tmp/k/dkim-lite.conf'' config_two = Some config_two"
proof -
  have rejected: "case load fixed_openssl (sys_read (system_rejected sys)) ''/tmp/k/dkim-lite.conf'' of
      Inr c \<Rightarrow> cfg_require_fips c | Inl _ \<Rightarrow> False"
    by code_simp
  have "sys_check_fips (system_rejected sys) True = sys_check_fips sys True"
    by (simp add: sys_check_fips_def check_fips_environment_def read_to_string_def reload_system_def system_with_def)
  with assms obtain e where "sys_check_fips (system_rejected sys) True = Inl e"
    by (cases "sys_check_fips sys True") simp_all
  with rejected show ?thesis
    by (auto simp: sighup_def reload_def Let_def split: sum.splits)
qed

lemma unix_listener_reload_is_atomic_and_restartable:
  "test_unix_listener_reload_is_atomic_and_restartable fixed_openssl sys (\<lambda>m. m) 1700000000 ''PEM 1'' ''PEM 2'' ''/tmp/k'' =
     Some ()"
proof -
  have names: "''/tmp/k'' @ ''/milter.sock'' = ''/tmp/k/milter.sock''" "''/tmp/k'' @ ''/dkim-lite.conf'' = ''/tmp/k/dkim-lite.conf''"
    "''/tmp/k'' @ ''/one.pem'' = ''/tmp/k/one.pem''" "''/tmp/k'' @ ''/two.pem'' = ''/tmp/k/two.pem''"
    by simp_all
  obtain w w' where start: "daemon_start fixed_openssl (system_one sys) (\<lambda>m. m) ''/tmp/k/dkim-lite.conf'' (test_directory ''/tmp/k'') =
      Some (config_one, w)" "fst (fs_exists (path_components ''/tmp/k/milter.sock'') w)"
    "daemon_start fixed_openssl (system_two sys) (\<lambda>m. m) ''/tmp/k/dkim-lite.conf'' w = Some (config_two, w')"
    using reload_starts [of sys] by (auto split: option.splits prod.splits)
  obtain x' where quit: "quit_client fixed_openssl config_two 1700000000 idle_exchange = Some x'" "x_session x' = None"
    using idle_quit [of config_two] by auto
  have "(if is_err (sys_check_fips sys True)
      then rejected_message fixed_openssl (system_rejected sys) ''/tmp/k/dkim-lite.conf'' 1700000000 config_two idle_exchange
      else Some idle_exchange) = Some idle_exchange"
    using reload_message_two reload_rejected [of sys] by (simp add: rejected_message_def)
  then show ?thesis
    unfolding test_unix_listener_reload_is_atomic_and_restartable_def Let_def names reload_system_def [symmetric]
    using start quit by (simp add: reload_serves idle_start ensure_def)
qed

end
