(* ===== verification/Spec2Isabelle.thy ===== *)
theory Spec2Isabelle
  imports Prelude Openssl Body Header Rust_Std From_Domain Net_Addr Config Sign Io Frame Message
    Session Connection Deadline Protocol Filesystem Keygen
    Listener Serve Command_Line Daemon Report Fairness Process Log No_Panic Tests_Dkim Tests_Program Tests_Milter
    Tests_Exchange Tests_Commands Tests_Daemon
begin

text \<open>
  dkim-lite is a milter: a mail server (Postfix) connects to it, hands over each outgoing message in
  packets, and dkim-lite answers with a DKIM-Signature header field to insert. The program is
  src/src/{milter,dkim,config,keygen,main}.rs. This library models all five files and proves that the
  parts do what they promise, up to the composition in this theory: a message that arrives on a
  connection is signed, and an RFC 6376 receiver accepts the signature.

  How the program works. \<open>main\<close> parses the command line. \<open>run_daemon\<close> loads the configuration, passes the FIPS
  gate and starts two things: a monitor thread, which reloads the configuration on SIGHUP into a
  shared, locked variable, and \<open>serve\<close>, which binds the listener, accepts connections into a bounded
  queue and lets workers handle them. A worker runs \<open>handle_connection\<close> on one connection: it reads
  length-prefixed packets until a deadline, keeps the state of one message at a time, feeds the
  body to an incremental canonicaliser and hash, and at the end of the message calls \<open>sign\<close>.
  \<open>generate-key\<close> makes a key, installs it atomically and prints the DNS record.

  Conventions. Bytes are characters, a \<open>&str\<close> or \<open>Vec<u8>\<close> is a list of them; \<open>u32\<close> and \<open>u64\<close> counters are words,
  \<open>usize\<close> is a natural number with the saturation and overflow checks of the source written out;
  \<open>Result\<close> is a sum with the error on the left, every error message a constructor whose text is in \<open>Report\<close>; code with effects is a
  function from a world to result and new world (\<open>act\<close> in \<open>Io\<close>).

  Which theory models what:
  \<^item> \<open>Prelude\<close>, \<open>Rust_Std\<close>, \<open>Net_Addr\<close>: bytes and ASCII classes, the standard library's string functions, UTF-8,
    and its socket addresses, parsed and printed, as far as the program uses them.
  \<^item> \<open>Openssl\<close>: the interface of the system library: digest, RSA signer, Base64, PEM. It is a record of
    functions, an argument of every definition that uses it; its laws are locales
    (\<open>stream_consumer\<close>, \<open>fallible_consumer\<close>, \<open>base64_encoding\<close>), and one concrete model satisfies them.
  \<^item> \<open>Body\<close> (\<open>BodyCanonicalizer\<close>): \<open>body_update\<close>, \<open>emit_content\<close>, \<open>end_line\<close>, \<open>body_finish\<close>; equal to the test suite's
    reference routine and to the relaxed form of RFC 6376 for every cut into chunks.
  \<^item> \<open>Header\<close> (\<open>Header\<close>, \<open>canonicalize_header\<close>, \<open>fold_signature\<close>): equal to the relaxed form of section 3.4.2; folding is
    invisible to it and keeps lines short.
  \<^item> \<open>From_Domain\<close> (\<open>from_domain\<close> and helpers): what an accepted From field looks like, and which are accepted.
  \<^item> \<open>Sign\<close> (\<open>sign\<close>): the bytes signed are the bytes a receiver reconstructs; the signed domain is that of the
    one From field; From is oversigned.
  \<^item> \<open>Config\<close> (\<open>RuntimeConfig::load\<close>, \<open>validate_*\<close>, \<open>check_fips_environment\<close>): soundness and traceability of what loads.
  \<^item> \<open>Io\<close>, \<open>Frame\<close>, \<open>Message\<close>, \<open>Session\<close>: fallible operations and byte sinks; packets; \<open>MessageState\<close>,
    \<open>receive_header\<close>, \<open>finish_message\<close>; one round of the connection loop, which refines a pure transducer (\<open>react\<close>)
    over every byte sink.
  \<^item> \<open>Connection\<close> (\<open>DeadlineConnection\<close>, \<open>read_packet_into\<close>, \<open>handle_connection\<close>): over a socket that fragments, interrupts
    and fails, the connection does what the transducer does on the packets of the byte stream, or a
    prefix of it.
  \<^item> \<open>Deadline\<close> (\<open>DeadlineConnection::remaining\<close>): the deadline of a connection is checked before and after every call
    that moves bytes, and ends the connection at the first reading that is not before it, wherever that comes.
  \<^item> \<open>Protocol\<close>: sequences of packets as an inductive relation: limits as an invariant, one acceptance per
    message, isolation of messages, the configuration of a message.
  \<^item> \<open>Filesystem\<close>, \<open>Keygen\<close>: the file system with faults and interference; \<open>generate\<close>, \<open>write_private_key\<close>, \<open>dns_record\<close>.
  \<^item> \<open>Listener\<close>, \<open>Serve\<close> (\<open>Listener\<close>, \<open>drain_backlog\<close>, \<open>serve\<close>): binding, accepting with the options of the accepted
    stream, and the interleaving of the
    accepting thread with the workers as a step relation with one rule per branch of each thread.
  \<^item> \<open>Command_Line\<close>, \<open>Daemon\<close> (main.rs): argument parsing, \<open>run\<close>, \<open>run_daemon\<close>, and the monitor thread with
    signals arriving at any time.
  \<^item> \<open>Report\<close>, \<open>Log\<close>: the text of every error and of every line on standard error, what each command prints, and
    \<open>main\<close>; and what clients of the milter can write into the log of the running daemon.
  \<^item> \<open>No_Panic\<close>: the operations on client bytes with the panics of Rust left in (indices, slices, character
    boundaries, \<open>unwrap\<close>); none of them is reached.
  \<^item> \<open>Fairness\<close>, \<open>Process\<close>: the running daemon as one step relation, in which the main thread, the monitor, the
    accepting thread, the workers packet by packet, and signals interleave. It refines \<open>monitor_step\<close> and
    \<open>serve_step\<close>; a connection is served as \<open>handle_connection\<close> says, with sound configurations only; and under weak
    fairness the process ends after SIGTERM or SIGINT.
  \<^item> \<open>Tests_Dkim\<close>, \<open>Tests_Program\<close>, \<open>Tests_Milter\<close>, \<open>Tests_Exchange\<close>: the program's own unit tests and fuzz targets as
    executable predicates, each proved: the model passes the tests of the code. Where a test depends
    on a key, a digest, a clock or an answer that must not matter, that is an argument, and the test is
    proved for every value of it that the laws allow; the exchanges with a mail server are scripts in the
    option monad, evaluated on one instance of OpenSSL.
  \<^item> \<open>Tests_Commands\<close>, \<open>Tests_Daemon\<close>: the integration tests keygen.rs and fips.rs, which run the program as a command
    and read its output, and the reload test of daemon.rs.

  The theorems of this theory compose the parts: a message that is signed is accepted by a receiver; and
  a daemon started from a configuration file, however its threads interleave and whatever signals it
  gets, accepts every message it is handed over, signed soundly or unsigned.

  Termination. The loops over data are total functions. The connection loop is total because every
  packet takes at least five of the bytes that still arrive. \<open>drain_backlog\<close> may run forever and is an
  optional result; it is proved to return once the flag is raised. \<open>serve\<close> and the monitor are step relations;
  the bounds 7 + 7 * workers and 5 on their steps after shutdown are the values of the ranks that
  decrease. The process as a whole ends in every weakly fair execution, by the same ranks and the number of bytes that
  still arrive on the open connections. No definition uses fuel, except the hundred attempts of \<open>create_temporary\<close>, which are the
  program's own.

  Not modelled: the texts that the operating system and OpenSSL give their errors (parameters); symbolic links, directory permissions
  and the modes a umask would clear beyond the function given; poisoning of the worker queue and panics of a worker, which the bytes of a client cannot
  cause (\<open>No_Panic\<close>); \<open>zeroing\<close> of the PEM buffer; the capacities of buffers; packaging, the
  test rigs on virtual machines, and the two tests of daemon.rs that saturate a listener.
  OpenSSL, the clock, the file system's answers, \<open>poll\<close>, \<open>accept\<close>, \<open>sigaction\<close> and \<open>dlsym\<close> are arguments.
\<close>

section \<open>From the socket to the receiver\<close>

text \<open>C1: a message handed over by an MTA comes out signed, and the signature verifies. If option
  negotiation, message start, header fields within the limits, body chunks and end of message
  arrive on a connection, cut in any way by the socket, and signing succeeds, then the program
  answers the negotiation, acknowledges, inserts one DKIM-Signature field and accepts the message,
  with nothing on its error log; and an RFC 6376 receiver of the message with that field accepts it
  for the digest of the relaxed body.\<close>

theorem milter_signs_message:
  assumes laws: "stream_consumer (sha_update ossl)" "dkim_signing ossl"
      "signatures_verify ossl (cfg_key config) verify"
    and config: "active env 1 = Some config" "config_ok ossl config"
    and socket: "in_time (instant env) deadline" "benign c"
      "arriving (k_reads c) = concat (map frame ((CHR ''O'' # offer) # message_packets sender hs chunks))"
      "list_all packet_ok ((CHR ''O'' # offer) # message_packets sender hs chunks)"
    and message: "negotiation_ok offer" "within_limits hs" "length (concat chunks) < usize_max"
    and signed: "sign ossl (wall env (message_length hs chunks)) config hs
        (body_finish ossl (foldl (body_update ossl) (body_default ossl) chunks)) = Inr v"
      "length v + 24 < 2 ^ 32"
  shows "\<exists>acks. set acks \<subseteq> {''c''} \<and>
    fst (handle_connection_until ossl env deadline 0 (session_start ossl) c) = Inr () \<and>
    k_log (snd (handle_connection_until ossl env deadline 0 (session_start ossl) c)) = k_log c \<and>
    k_sent (snd (handle_connection_until ossl env deadline 0 (session_start ossl) c)) =
      k_sent c @ concat (map frame ((CHR ''O'' # fst (negotiate offer (session_start ossl))) # acks @
        end_packets (s_actions (snd (negotiate offer (session_start ossl)))) (Inr v))) \<and>
    receiver_accepts verify v (signature_header v # hs)
      (encode_block ossl (sha_finish ossl (sha_update ossl (sha_new ossl) (relaxed_body (concat chunks)))))"
proof -
  let ?actions = "s_actions (snd (negotiate offer (session_start ossl)))"
  have "permitted ?actions" "length offer = 12"
    using message(1) negotiate_permitted [of offer "session_start ossl"] by (simp_all add: negotiation_ok_def)
  then have r: "message_result ossl (wall env (message_length hs chunks)) ?actions config hs chunks = Inr v"
    using signed(1) by (simp add: message_result_def)
  have "receiver_accepts verify v (signature_header v # hs)
      (encode_block ossl (sha_finish ossl (sha_update ossl (sha_new ossl) (relaxed_body (concat chunks)))))"
    using laws(1,2) config(2) message(3) laws(3) r by (rule message_result_accepted)
  moreover have "length v' + 24 < 2 ^ 32" if "Inr v = (Inr v' :: message_error + bytes)" for v'
    using that signed(2) by simp
  ultimately show ?thesis
    using connection_message [OF surjective_pairing socket(1-4) \<open>length offer = 12\<close> message(2) config(1) r [symmetric]]
    by (simp add: end_log_def)
qed

definition sample_offer :: bytes where
  "sample_offer = to_be_bytes 6 @ to_be_bytes 0x1FF @ to_be_bytes 0x1FFFFF"

definition sample_mta :: conn where
  "sample_mta =
     \<lparr>k_reads = map (\<lambda>p. Arrives (frame p)) ((CHR ''O'' # sample_offer) # sample_message),
      k_writes = [], k_sent = [], k_log = [], k_ticks = 0\<rparr>"

definition sample_signature :: bytes where
  "sample_signature = (case sign sample_openssl 7 sample_config sample_headers
     (body_finish sample_openssl (foldl (body_update sample_openssl) (body_default sample_openssl) [''hi'' @ CRLF]))
     of Inr v \<Rightarrow> v | Inl e \<Rightarrow> [])"

lemma sample_signature:
  "sign sample_openssl 7 sample_config sample_headers
     (body_finish sample_openssl (foldl (body_update sample_openssl) (body_default sample_openssl) [''hi'' @ CRLF])) =
   Inr sample_signature \<and> length sample_signature + 24 < 2 ^ 32"
proof -
  let ?r = "sign sample_openssl 7 sample_config sample_headers
    (body_finish sample_openssl (foldl (body_update sample_openssl) (body_default sample_openssl) [''hi'' @ CRLF]))"
  have "(case ?r of Inr v \<Rightarrow> length v + 24 < 1000 | Inl e \<Rightarrow> False)"
    by code_simp
  then show ?thesis
    by (auto simp: sample_signature_def split: sum.splits)
qed

lemma sample_signatures_verify:
  "signatures_verify sample_openssl () (\<lambda>m b. b = rfc4648_base64 m)"
  by (simp add: signatures_verify_def sample_openssl_def transcript_openssl_def)

lemma sample_offer_ok: "negotiation_ok sample_offer"
  by (simp add: negotiation_ok_def sample_offer_def permitted_def ACTION_ADD_HEADER_def ACTION_CHANGE_HEADER_def)

lemma arriving_frames: "arriving (map (\<lambda>p. Arrives (frame p)) ps) = concat (map frame ps)"
  by (induction ps) simp_all

lemma sample_mta_socket:
  "in_time (instant sample_environment) 1" "benign sample_mta"
  "arriving (k_reads sample_mta) = concat (map frame ((CHR ''O'' # sample_offer) # sample_message))"
  "list_all packet_ok ((CHR ''O'' # sample_offer) # sample_message)"
proof -
  show "in_time (instant sample_environment) 1"
    by (simp add: in_time_def sample_environment_def)
  have "frame p \<noteq> []" for p
    by (simp add: frame_def to_be_bytes_def Let_def)
  then show "benign sample_mta"
    by (simp add: benign_def sample_mta_def benign_read_def list_all_iff)
  show "arriving (k_reads sample_mta) = concat (map frame ((CHR ''O'' # sample_offer) # sample_message))"
    by (simp only: sample_mta_def conn.select_convs arriving_frames)
  show "list_all packet_ok ((CHR ''O'' # sample_offer) # sample_message)"
    by code_simp
qed

lemma milter_signs_message_witness:
  "\<exists>acks. set acks \<subseteq> {''c''} \<and>
    fst (handle_connection_until sample_openssl sample_environment 1 0 (session_start sample_openssl) sample_mta) = Inr () \<and>
    k_log (snd (handle_connection_until sample_openssl sample_environment 1 0 (session_start sample_openssl) sample_mta)) =
      k_log sample_mta \<and>
    k_sent (snd (handle_connection_until sample_openssl sample_environment 1 0 (session_start sample_openssl) sample_mta)) =
      k_sent sample_mta @ concat (map frame ((CHR ''O'' # fst (negotiate sample_offer (session_start sample_openssl))) # acks @
        end_packets (s_actions (snd (negotiate sample_offer (session_start sample_openssl)))) (Inr sample_signature))) \<and>
    receiver_accepts (\<lambda>m b. b = rfc4648_base64 m) sample_signature (signature_header sample_signature # sample_headers)
      (encode_block sample_openssl (sha_finish sample_openssl (sha_update sample_openssl (sha_new sample_openssl)
        (relaxed_body (concat [''hi'' @ CRLF])))))"
proof (rule milter_signs_message)
  show "signatures_verify sample_openssl (cfg_key sample_config) (\<lambda>m b. b = rfc4648_base64 m)"
    using sample_signatures_verify by simp
  show "sign sample_openssl (wall sample_environment (message_length sample_headers [''hi'' @ CRLF])) sample_config
      sample_headers (body_finish sample_openssl
        (foldl (body_update sample_openssl) (body_default sample_openssl) [''hi'' @ CRLF])) = Inr sample_signature"
    using sample_signature by (simp add: sample_environment_def)
  show "length sample_signature + 24 < 2 ^ 32"
    using sample_signature by simp
  show "in_time (instant sample_environment) 1"
    by (rule sample_mta_socket(1))
  show "arriving (k_reads sample_mta) = concat (map frame ((CHR ''O'' # sample_offer) #
      message_packets ''<a@ex.org>'' sample_headers [''hi'' @ CRLF]))"
    using sample_mta_socket(3) by (simp add: sample_message_def)
  show "list_all packet_ok ((CHR ''O'' # sample_offer) #
      message_packets ''<a@ex.org>'' sample_headers [''hi'' @ CRLF])"
    using sample_mta_socket(4) by (simp add: sample_message_def)
qed (simp_all add: sample_openssl_laws sample_dkim_signing sample_active sample_config_ok
    sample_mta_socket sample_offer_ok sample_within_limits usize_max_def)

section \<open>From the configuration file to the receiver\<close>

text \<open>One message on one connection, with the configuration that the lock holds at its start.\<close>

lemma message_answered:
  assumes laws: "stream_consumer (sha_update ossl)" "dkim_signing ossl" "signatures_verify ossl (cfg_key config) verify"
    and config: "active env 1 = Some config" "config_ok ossl config"
    and socket: "in_time (instant env) deadline" "benign c"
      "arriving (k_reads c) = concat (map frame ((CHR ''O'' # offer) # message_packets sender hs chunks))"
      "list_all packet_ok ((CHR ''O'' # offer) # message_packets sender hs chunks)"
    and message: "length offer = 12" "within_limits hs" "length (concat chunks) < usize_max"
    and size: "\<And>v. message_result ossl (wall env (message_length hs chunks))
        (s_actions (snd (negotiate offer (session_start ossl)))) config hs chunks = Inr v \<Longrightarrow> length v + 24 < 2 ^ 32"
  shows "\<exists>acks r. r = message_result ossl (wall env (message_length hs chunks))
      (s_actions (snd (negotiate offer (session_start ossl)))) config hs chunks \<and>
    set acks \<subseteq> {''c''} \<and>
    fst (handle_connection_until ossl env deadline 0 (session_start ossl) c) = Inr () \<and>
    k_log (snd (handle_connection_until ossl env deadline 0 (session_start ossl) c)) = k_log c @ end_log r \<and>
    k_sent (snd (handle_connection_until ossl env deadline 0 (session_start ossl) c)) =
      k_sent c @ concat (map frame ((CHR ''O'' # fst (negotiate offer (session_start ossl))) # acks @
        end_packets (s_actions (snd (negotiate offer (session_start ossl)))) r)) \<and>
    (case r of Inl e \<Rightarrow> True
     | Inr v \<Rightarrow> map_of (tags v) ''d'' = Some (cfg_domain config) \<and>
         receiver_accepts verify v (signature_header v # hs)
           (encode_block ossl (sha_finish ossl (sha_update ossl (sha_new ossl) (relaxed_body (concat chunks))))))"
proof -
  define r where "r = message_result ossl (wall env (message_length hs chunks))
    (s_actions (snd (negotiate offer (session_start ossl)))) config hs chunks"
  have "case r of Inl e \<Rightarrow> True
     | Inr v \<Rightarrow> map_of (tags v) ''d'' = Some (cfg_domain config) \<and>
         receiver_accepts verify v (signature_header v # hs)
           (encode_block ossl (sha_finish ossl (sha_update ossl (sha_new ossl) (relaxed_body (concat chunks)))))"
    using message_result_domain [OF laws(2) config(2)]
      message_result_accepted [OF laws(1,2) config(2) message(3) laws(3)] r_def
    by (auto split: sum.splits)
  moreover have "\<And>v. r = Inr v \<Longrightarrow> length v + 24 < 2 ^ 32"
    using size by (simp add: r_def)
  from connection_message [OF surjective_pairing socket message(1,2) config(1) r_def this]
  obtain acks where "set acks \<subseteq> {''c''}"
    "fst (handle_connection_until ossl env deadline 0 (session_start ossl) c) = Inr ()"
    "k_log (snd (handle_connection_until ossl env deadline 0 (session_start ossl) c)) = k_log c @ end_log r"
    "k_sent (snd (handle_connection_until ossl env deadline 0 (session_start ossl) c)) =
      k_sent c @ concat (map frame ((CHR ''O'' # fst (negotiate offer (session_start ossl))) # acks @
        end_packets (s_actions (snd (negotiate offer (session_start ossl)))) r))"
    by blast
  ultimately show ?thesis
    using r_def by blast
qed

text \<open>A daemon started from a configuration file; signals and reloads came in any order;
  then an MTA hands over a message on a connection that the socket cuts in any way. The message is
  always accepted, exactly once and last: unsigned with one line on the log, or with a field that an
  RFC 6376 receiver with the public half of the key accepts and whose signing domain is that of the configuration
  active when the message started, a sound one with the listener of the start.\<close>

theorem daemon_answers_message:
  assumes laws: "stream_consumer (sha_update ossl)" "dkim_signing ossl"
      "\<And>config. mo_active s = Some config \<Longrightarrow> signatures_verify ossl (cfg_key config) verify"
    and daemon: "load ossl (sys_read sys) path = Inr initial"
      "sys_check_fips sys (cfg_require_fips initial) = Inr ()"
      "(monitor_step ossl path)\<^sup>*\<^sup>* (monitor_start initial) s" "active env 1 = mo_active s"
    and socket: "in_time (instant env) deadline" "benign c"
      "arriving (k_reads c) = concat (map frame ((CHR ''O'' # offer) # message_packets sender hs chunks))"
      "list_all packet_ok ((CHR ''O'' # offer) # message_packets sender hs chunks)"
    and message: "length offer = 12" "within_limits hs" "length (concat chunks) < usize_max"
    and size: "\<And>config v. mo_active s = Some config \<Longrightarrow>
      message_result ossl (wall env (message_length hs chunks))
        (s_actions (snd (negotiate offer (session_start ossl)))) config hs chunks = Inr v \<Longrightarrow> length v + 24 < 2 ^ 32"
  shows "\<exists>config acks r. mo_active s = Some config \<and> cfg_listen config = cfg_listen initial \<and> config_ok ossl config \<and>
    r = message_result ossl (wall env (message_length hs chunks))
      (s_actions (snd (negotiate offer (session_start ossl)))) config hs chunks \<and>
    set acks \<subseteq> {''c''} \<and>
    fst (handle_connection_until ossl env deadline 0 (session_start ossl) c) = Inr () \<and>
    k_log (snd (handle_connection_until ossl env deadline 0 (session_start ossl) c)) = k_log c @ end_log r \<and>
    k_sent (snd (handle_connection_until ossl env deadline 0 (session_start ossl) c)) =
      k_sent c @ concat (map frame ((CHR ''O'' # fst (negotiate offer (session_start ossl))) # acks @
        end_packets (s_actions (snd (negotiate offer (session_start ossl)))) r)) \<and>
    (case r of Inl e \<Rightarrow> True
     | Inr v \<Rightarrow> map_of (tags v) ''d'' = Some (cfg_domain config) \<and>
         receiver_accepts verify v (signature_header v # hs)
           (encode_block ossl (sha_finish ossl (sha_update ossl (sha_new ossl) (relaxed_body (concat chunks))))))"
proof -
  have "admissible ossl (cfg_listen initial) initial"
    by (rule admissible_start [OF daemon(1,2)])
  from monitor_active [OF daemon(3) this] obtain config where config: "mo_active s = Some config"
    "cfg_listen config = cfg_listen initial" "config_ok ossl config"
    by (auto simp: admissible_def)
  have "active env 1 = Some config"
    using config(1) daemon(4) by simp
  from message_answered [OF laws(1,2) laws(3) [OF config(1)] this config(3) socket message size [OF config(1)]] config(1,2,3)
  show ?thesis
    by blast
qed

lemma daemon_answers_message_witness:
  "\<exists>config acks r. mo_active ((monitor_start sample_config)\<lparr>mo_reload := True, mo_shutdown := True\<rparr>) = Some config \<and>
    cfg_listen config = cfg_listen sample_config \<and> config_ok sample_openssl config \<and>
    r = message_result sample_openssl (wall sample_environment (message_length sample_headers [''hi'' @ CRLF]))
      (s_actions (snd (negotiate sample_offer (session_start sample_openssl)))) config sample_headers [''hi'' @ CRLF] \<and>
    set acks \<subseteq> {''c''} \<and>
    fst (handle_connection_until sample_openssl sample_environment 1 0 (session_start sample_openssl) sample_mta) = Inr () \<and>
    k_log (snd (handle_connection_until sample_openssl sample_environment 1 0 (session_start sample_openssl) sample_mta)) =
      k_log sample_mta @ end_log r \<and>
    k_sent (snd (handle_connection_until sample_openssl sample_environment 1 0 (session_start sample_openssl) sample_mta)) =
      k_sent sample_mta @ concat (map frame ((CHR ''O'' # fst (negotiate sample_offer (session_start sample_openssl))) # acks @
        end_packets (s_actions (snd (negotiate sample_offer (session_start sample_openssl)))) r)) \<and>
    (case r of Inl e \<Rightarrow> True
     | Inr v \<Rightarrow> map_of (tags v) ''d'' = Some (cfg_domain config) \<and>
         receiver_accepts (\<lambda>m b. b = rfc4648_base64 m) v (signature_header v # sample_headers)
           (encode_block sample_openssl (sha_finish sample_openssl (sha_update sample_openssl (sha_new sample_openssl)
             (relaxed_body (concat [''hi'' @ CRLF]))))))"
proof (rule daemon_answers_message)
  show "signatures_verify sample_openssl (cfg_key config) (\<lambda>m b. b = rfc4648_base64 m)" for config
    using sample_signatures_verify by simp
  show "load sample_openssl (sys_read sample_system) ''/c'' = Inr sample_config"
    using load_sample by (simp add: sample_system_def)
  show "sys_check_fips sample_system (cfg_require_fips sample_config) = Inr ()"
    by code_simp
  show "(monitor_step sample_openssl ''/c'')\<^sup>*\<^sup>* (monitor_start sample_config)
      ((monitor_start sample_config)\<lparr>mo_reload := True, mo_shutdown := True\<rparr>)"
    by (rule sample_shutdown)
  show "active sample_environment 1 = mo_active ((monitor_start sample_config)\<lparr>mo_reload := True, mo_shutdown := True\<rparr>)"
    by (simp add: sample_environment_def monitor_start_def)
  show "in_time (instant sample_environment) 1"
    by (rule sample_mta_socket(1))
  show "arriving (k_reads sample_mta) = concat (map frame ((CHR ''O'' # sample_offer) #
      message_packets ''<a@ex.org>'' sample_headers [''hi'' @ CRLF]))"
    using sample_mta_socket(3) by (simp add: sample_message_def)
  show "list_all packet_ok ((CHR ''O'' # sample_offer) #
      message_packets ''<a@ex.org>'' sample_headers [''hi'' @ CRLF])"
    using sample_mta_socket(4) by (simp add: sample_message_def)
  show "length v + 24 < 2 ^ 32"
    if "mo_active ((monitor_start sample_config)\<lparr>mo_reload := True, mo_shutdown := True\<rparr>) = Some config"
      and "message_result sample_openssl (wall sample_environment (message_length sample_headers [''hi'' @ CRLF]))
        (s_actions (snd (negotiate sample_offer (session_start sample_openssl)))) config sample_headers
        [''hi'' @ CRLF] = Inr v" for config v
    using that sample_signature
    by (auto simp: monitor_start_def message_result_def sample_environment_def split: if_splits)
qed (use sample_offer_ok in \<open>simp_all add: sample_openssl_laws sample_dkim_signing sample_mta_socket negotiation_ok_def
    sample_within_limits usize_max_def\<close>)

section \<open>From the command line to the receiver\<close>





end
